(* ===== verification/Tide_Prelude.thy ===== *)
theory Tide_Prelude
  imports Main "HOL-Library.Word" "HOL-Library.Monad_Syntax"
begin

text \<open>
  Shared ground of the development: the names of the C integer types, the two memory helpers the
  models of the writers use (a store of a few bytes at an offset, a span of a buffer), and the
  generic lemmas on options, lists and machine words that the component proofs rest on.

  C types. \<open>uint8_t\<close>, \<open>uint16_t\<close>, \<open>uint32_t\<close> and \<open>uint64_t\<close> are words of their width, so \<open>+\<close>, \<open>-\<close> and
  \<open>*\<close> wrap as in C. An \<open>int64_t\<close> is a 64-bit word too (the source converts between the two with
  \<open>memcpy\<close>); wherever the code compares it or computes with it as a signed number the model reads it
  with \<^const>\<open>sint\<close>. A \<open>size_t\<close> is a natural number; its largest value on the 64-bit targets of the
  build is \<open>SIZE_MAX\<close>, and a cast to \<open>uint64_t\<close> is \<^const>\<open>of_nat\<close>.

  Collections: \<open>tide_bits\<close> rewrites bit-level terms, \<open>tide_span\<close> simplifies stores and spans,
  \<open>tide_eval\<close> holds the equations with which \<open>simp\<close> evaluates the definitions on concrete bytes.
\<close>

unbundle bit_operations_syntax

type_synonym byte = "8 word"
type_synonym u16 = "16 word"
type_synonym u32 = "32 word"
type_synonym u64 = "64 word"
type_synonym i64 = "64 word"
type_synonym bytes = "byte list"

named_theorems tide_bits
named_theorems tide_span
named_theorems tide_eval

definition SIZE_MAX :: nat where
  "SIZE_MAX = 2 ^ 64 - 1"

definition INT64_MAX :: int where
  "INT64_MAX = 2 ^ 63 - 1"

definition INT64_MIN :: int where
  "INT64_MIN = - (2 ^ 63)"

definition put_bytes :: "bytes \<Rightarrow> nat \<Rightarrow> bytes \<Rightarrow> bytes" where
  "put_bytes dst off bs = take off dst @ bs @ drop (off + length bs) dst"

definition byte_span :: "bytes \<Rightarrow> nat \<Rightarrow> nat \<Rightarrow> bytes" where
  "byte_span data begin end = take (end - begin) (drop begin data)"

subsection \<open>Spans and stores\<close>

lemma length_span [tide_span, simp]: "length (byte_span data b e) = min (length data - b) (e - b)"
  by (simp add: byte_span_def)

lemma nth_span [tide_span]: "i < e - b \<Longrightarrow> b + i < length data \<Longrightarrow> byte_span data b e ! i = data ! (b + i)"
  by (simp add: byte_span_def)

lemma span_append_left [tide_span]: "e \<le> length xs \<Longrightarrow> byte_span (xs @ ys) b e = byte_span xs b e"
  by (simp add: byte_span_def)

lemma span_take [tide_span]: "e \<le> n \<Longrightarrow> byte_span (take n data) b e = byte_span data b e"
  by (cases "b \<le> e") (simp_all add: byte_span_def take_drop)

lemma length_put_bytes [tide_span, simp]:
  "off + length bs \<le> length dst \<Longrightarrow> length (put_bytes dst off bs) = length dst"
  by (simp add: put_bytes_def)

lemma put_bytes_append [tide_span]:
  "length xs = off \<Longrightarrow> length zs = length bs \<Longrightarrow> put_bytes (xs @ zs @ ys) off bs = xs @ bs @ ys"
  by (simp add: put_bytes_def)

subsection \<open>Bit-level facts on bytes and words\<close>

lemma byte_mask_eq: "(0xff :: 'a::len word) = mask 8"
  by (simp add: mask_eq_exp_minus_1)

lemma low7_mask_eq: "(0x7f :: 'a::len word) = mask 7"
  by (simp add: mask_eq_exp_minus_1)

lemma low32_mask_eq: "(0xffffffff :: 'a::len word) = mask 32"
  by (simp add: mask_eq_exp_minus_1)

lemmas mask_eqs [tide_bits] = byte_mask_eq low7_mask_eq low32_mask_eq

lemma join_split_u16:
  fixes v :: u16
  shows "(ucast (ucast (v AND 0xff) :: byte) OR push_bit 8 (ucast (ucast (drop_bit 8 v AND 0xff) :: byte)) :: u16) = v"
  by (rule bit_word_eqI) (auto simp: tide_bits bit_simps)

lemma join_split_u32:
  fixes v :: u32
  shows "(ucast (ucast (v AND 0xff) :: byte) OR push_bit 8 (ucast (ucast (drop_bit 8 v AND 0xff) :: byte)) OR
          push_bit 16 (ucast (ucast (drop_bit 16 v AND 0xff) :: byte)) OR
          push_bit 24 (ucast (ucast (drop_bit 24 v AND 0xff) :: byte)) :: u32) = v" (is "?w = v")
proof (rule bit_word_eqI)
  fix n :: nat
  assume "n < LENGTH(32)"
  then consider "n < 8" | "8 \<le> n" "n < 16" | "16 \<le> n" "n < 24" | "24 \<le> n" "n < 32"
    by fastforce
  then show "bit ?w n = bit v n"
    by cases (auto simp: tide_bits bit_simps)
qed

lemma join_split_u64:
  fixes v :: u64
  shows "(ucast (ucast (v AND 0xffffffff) :: u32) OR push_bit 32 (ucast (ucast (drop_bit 32 v) :: u32)) :: u64) = v"
  by (rule bit_word_eqI) (auto simp: tide_bits bit_simps)

lemma unat_u64_less: "unat (a :: u64) < 2 ^ 64"
  using unsigned_less [of a] by simp

lemma and_not_mask_word: "(x AND NOT (mask k) :: 'a::len word) = push_bit k (drop_bit k x)"
  by (rule bit_word_eqI) (auto simp: bit_simps)

lemma unat_u64_pow2: "k < 64 \<Longrightarrow> unat (2 ^ k :: u64) = 2 ^ k"
  using unat_of_nat [where ?'a = 64, of "2 ^ k"] power_strict_increasing [of k 64 "2 :: nat"] by simp

end
