(* ===== verification/Tide_Common.thy ===== *)
theory Tide_Common
  imports Tide_Prelude
begin

text \<open>
  The modules \<open>src/common\<close>: status codes and error records (\<open>error.h\<close>, \<open>error.c\<close>), reader limits
  (\<open>limits.h\<close>, \<open>limits.c\<close>), checked arithmetic and the growable byte buffer (\<open>checked.c\<close>).

  The C allocator is a parameter \<open>alloc\<close>: \<open>alloc n\<close> says whether a request for \<open>n\<close> bytes succeeds,
  so every \<open>realloc\<close> failure path of the source is a branch of the model. Pointer parameters that
  every caller in the library passes as the address of an object (the buffer itself) are values; a
  data pointer that may be \<open>NULL\<close> is an option.

  A \<open>tide_buffer\<close> keeps in \<open>buf_data\<close> the first \<open>size\<close> bytes of the allocation, so the C field
  \<open>size\<close> is the length of that list; \<open>buf_capacity\<close> is the size of the allocation and \<open>buf_limit\<close>
  the aggregate limit (zero: none).
\<close>

subsection \<open>Status codes and errors\<close>

datatype tide_status =
    TIDE_STATUS_OK | TIDE_STATUS_PARTIAL | TIDE_STATUS_WOULD_BLOCK | TIDE_STATUS_CANCELLED
  | TIDE_STATUS_INVALID_ARGUMENT | TIDE_STATUS_FORMAT | TIDE_STATUS_TRUNCATED
  | TIDE_STATUS_UNSUPPORTED | TIDE_STATUS_INTEGRITY | TIDE_STATUS_TIMELINE | TIDE_STATUS_INDEX
  | TIDE_STATUS_RESOURCE | TIDE_STATUS_IO | TIDE_STATUS_INTERNAL

datatype tide_severity =
    TIDE_SEVERITY_INFO | TIDE_SEVERITY_WARNING | TIDE_SEVERITY_ERROR | TIDE_SEVERITY_FATAL

record tide_error =
  err_code :: tide_status
  err_severity :: tide_severity
  err_offset :: u64
  err_record_type :: u16
  err_depth :: byte
  err_track_id :: u32
  err_generation :: u32
  err_packet_seq :: u64
  err_component :: string
  err_message :: string

fun tide_status_string :: "tide_status \<Rightarrow> string" where
  "tide_status_string TIDE_STATUS_OK = ''OK''"
| "tide_status_string TIDE_STATUS_PARTIAL = ''PARTIAL''"
| "tide_status_string TIDE_STATUS_WOULD_BLOCK = ''WOULD_BLOCK''"
| "tide_status_string TIDE_STATUS_CANCELLED = ''CANCELLED''"
| "tide_status_string TIDE_STATUS_INVALID_ARGUMENT = ''INVALID_ARGUMENT''"
| "tide_status_string TIDE_STATUS_FORMAT = ''FORMAT''"
| "tide_status_string TIDE_STATUS_TRUNCATED = ''TRUNCATED''"
| "tide_status_string TIDE_STATUS_UNSUPPORTED = ''UNSUPPORTED''"
| "tide_status_string TIDE_STATUS_INTEGRITY = ''INTEGRITY''"
| "tide_status_string TIDE_STATUS_TIMELINE = ''TIMELINE''"
| "tide_status_string TIDE_STATUS_INDEX = ''INDEX''"
| "tide_status_string TIDE_STATUS_RESOURCE = ''RESOURCE''"
| "tide_status_string TIDE_STATUS_IO = ''IO''"
| "tide_status_string TIDE_STATUS_INTERNAL = ''INTERNAL''"

definition tide_error_clear :: tide_error where
  "tide_error_clear = \<lparr>err_code = TIDE_STATUS_OK, err_severity = TIDE_SEVERITY_INFO, err_offset = 0,
     err_record_type = 0, err_depth = 0, err_track_id = 0, err_generation = 0, err_packet_seq = 0,
     err_component = '''', err_message = ''''\<rparr>"

fun tide_copy_loop :: "nat \<Rightarrow> nat \<Rightarrow> string \<Rightarrow> string" where
  "tide_copy_loop i dst_size [] = []"
| "tide_copy_loop i dst_size (c # cs) =
     (if c \<noteq> CHR 0x00 \<and> i + 1 < dst_size then c # tide_copy_loop (i + 1) dst_size cs else [])"

definition tide_copy_text :: "nat \<Rightarrow> string option \<Rightarrow> string" where
  "tide_copy_text dst_size src =
     (if dst_size = 0 then []
      else case src of None \<Rightarrow> [] | Some s \<Rightarrow> tide_copy_loop 0 dst_size s)"

definition tide_error_value ::
    "tide_status \<Rightarrow> tide_severity \<Rightarrow> u64 \<Rightarrow> u16 \<Rightarrow> byte \<Rightarrow> string option \<Rightarrow> string option \<Rightarrow> tide_error" where
  "tide_error_value code severity offset record_type depth component message =
     tide_error_clear\<lparr>err_code := code, err_severity := severity, err_offset := offset,
       err_record_type := record_type, err_depth := depth,
       err_component := tide_copy_text 24 component, err_message := tide_copy_text 120 message\<rparr>"

definition tide_error_set ::
    "tide_error option \<Rightarrow> tide_status \<Rightarrow> tide_severity \<Rightarrow> u64 \<Rightarrow> u16 \<Rightarrow> byte \<Rightarrow> string option \<Rightarrow> string option \<Rightarrow>
     tide_error option" where
  "tide_error_set error code severity offset record_type depth component message =
     (case error of
        None \<Rightarrow> None
      | Some _ \<Rightarrow> Some (tide_error_value code severity offset record_type depth component message))"

subsection \<open>Limits\<close>

definition TIDE_HEADER_SIZE :: nat where "TIDE_HEADER_SIZE = 72"
definition TIDE_UUID_SIZE :: nat where "TIDE_UUID_SIZE = 16"
definition TIDE_DIGEST_SIZE :: nat where "TIDE_DIGEST_SIZE = 32"

record tide_limits =
  max_file_size :: u64
  max_record_size :: u64
  max_payload_size :: u64
  max_single_alloc :: nat
  max_aggregate_alloc :: nat
  max_depth :: u32
  max_tracks :: u32
  max_edit_entries :: u32
  max_packet_table_entries :: u32
  reorder_depth :: u32

definition tide_limits_default :: tide_limits where
  "tide_limits_default = \<lparr>
     max_file_size = 512 * 1024 * 1024,
     max_record_size = 64 * 1024 * 1024,
     max_payload_size = 64 * 1024 * 1024,
     max_single_alloc = 32 * 1024 * 1024,
     max_aggregate_alloc = 128 * 1024 * 1024,
     max_depth = 16,
     max_tracks = 64,
     max_edit_entries = 256,
     max_packet_table_entries = 1000000,
     reorder_depth = 16\<rparr>"

definition tide_limits_full :: tide_limits where
  "tide_limits_full = tide_limits_default\<lparr>
     max_file_size := 8 * 1024 * 1024 * 1024,
     max_payload_size := 1024 * 1024 * 1024,
     max_aggregate_alloc := 512 * 1024 * 1024,
     max_depth := 32,
     max_tracks := 1024,
     max_edit_entries := 1024,
     reorder_depth := 64\<rparr>"

subsection \<open>Checked arithmetic\<close>

definition UINT64_MAX :: u64 where "UINT64_MAX = 0xffffffffffffffff"

definition tide_checked_add_u64 :: "u64 \<Rightarrow> u64 \<Rightarrow> u64 option" where
  "tide_checked_add_u64 a b = (if UINT64_MAX - a < b then None else Some (a + b))"

definition tide_checked_mul_u64 :: "u64 \<Rightarrow> u64 \<Rightarrow> u64 option" where
  "tide_checked_mul_u64 a b = (if a \<noteq> 0 \<and> UINT64_MAX div a < b then None else Some (a * b))"

definition tide_checked_u64_to_size :: "u64 \<Rightarrow> nat option" where
  "tide_checked_u64_to_size value = (if unat value > SIZE_MAX then None else Some (unat value))"

definition tide_align_u64 :: "u64 \<Rightarrow> u64 \<Rightarrow> u64 option" where
  "tide_align_u64 value alignment =
     (if alignment = 0 \<or> alignment AND (alignment - 1) \<noteq> 0 then None
      else let mask = alignment - 1 in
        case tide_checked_add_u64 value mask of
          None \<Rightarrow> None
        | Some added \<Rightarrow> Some (added AND NOT mask))"

function tide_gcd_u64 :: "u64 \<Rightarrow> u64 \<Rightarrow> u64" where
  "tide_gcd_u64 a b = (if b \<noteq> 0 then tide_gcd_u64 b (a mod b) else a)"
  by pat_completeness auto
termination
  by (relation "measure (\<lambda>(a, b). unat b)") (auto simp: unat_mod unat_gt_0)

declare tide_gcd_u64.simps [simp del]

subsection \<open>Growable buffers\<close>

record tide_buffer =
  buf_data :: bytes
  buf_capacity :: nat
  buf_limit :: nat

abbreviation buf_size :: "tide_buffer \<Rightarrow> nat" where
  "buf_size b \<equiv> length (buf_data b)"

text \<open>
  The doubling loop of \<open>tide_buffer_reserve\<close>. The source enters it with \<open>next\<close> at least one (a zero
  capacity starts at 256); the conjunct \<open>0 < next\<close> only makes the recursion total.
\<close>

function tide_grow_capacity :: "nat \<Rightarrow> nat \<Rightarrow> nat" where
  "tide_grow_capacity next needed =
     (if next < needed \<and> 0 < next then
        (if next > SIZE_MAX div 2 then needed else tide_grow_capacity (next * 2) needed)
      else next)"
  by pat_completeness auto
termination
  by (relation "measure (\<lambda>(next, needed). needed - next)") auto

declare tide_grow_capacity.simps [simp del]

definition tide_buffer_reserve :: "(nat \<Rightarrow> bool) \<Rightarrow> tide_buffer \<Rightarrow> nat \<Rightarrow> tide_status \<times> tide_buffer" where
  "tide_buffer_reserve alloc buffer additional =
     (if additional > SIZE_MAX - buf_size buffer then (TIDE_STATUS_RESOURCE, buffer)
      else let needed = buf_size buffer + additional in
        if needed > buf_limit buffer \<and> buf_limit buffer \<noteq> 0 then (TIDE_STATUS_RESOURCE, buffer)
        else if needed \<le> buf_capacity buffer then (TIDE_STATUS_OK, buffer)
        else let next = tide_grow_capacity (if buf_capacity buffer = 0 then 256 else buf_capacity buffer) needed in
          if \<not> alloc next then (TIDE_STATUS_RESOURCE, buffer)
          else (TIDE_STATUS_OK, buffer\<lparr>buf_capacity := next\<rparr>))"

definition tide_buffer_append ::
    "(nat \<Rightarrow> bool) \<Rightarrow> tide_buffer \<Rightarrow> bytes option \<Rightarrow> nat \<Rightarrow> tide_status \<times> tide_buffer" where
  "tide_buffer_append alloc buffer data n =
     (if n \<noteq> 0 \<and> data = None then (TIDE_STATUS_INVALID_ARGUMENT, buffer)
      else case tide_buffer_reserve alloc buffer n of (status, b) \<Rightarrow>
        if status \<noteq> TIDE_STATUS_OK then (status, b)
        else if n \<noteq> 0 then (TIDE_STATUS_OK, b\<lparr>buf_data := buf_data b @ take n (the data)\<rparr>)
        else (TIDE_STATUS_OK, b))"

definition tide_buffer_append_zero ::
    "(nat \<Rightarrow> bool) \<Rightarrow> tide_buffer \<Rightarrow> nat \<Rightarrow> tide_status \<times> tide_buffer" where
  "tide_buffer_append_zero alloc buffer n =
     (case tide_buffer_reserve alloc buffer n of (status, b) \<Rightarrow>
        if status \<noteq> TIDE_STATUS_OK then (status, b)
        else if n \<noteq> 0 then (TIDE_STATUS_OK, b\<lparr>buf_data := buf_data b @ replicate n 0\<rparr>)
        else (TIDE_STATUS_OK, b))"

definition tide_buffer_destroy :: "tide_buffer \<Rightarrow> tide_buffer" where
  "tide_buffer_destroy buffer = buffer\<lparr>buf_data := [], buf_capacity := 0\<rparr>"

text \<open>What a buffer keeps between calls, and whether a request fits its limits.\<close>

definition tide_buffer_ok :: "tide_buffer \<Rightarrow> bool" where
  "tide_buffer_ok b \<longleftrightarrow> buf_size b \<le> buf_capacity b \<and> buf_size b \<le> SIZE_MAX \<and>
     (buf_limit b = 0 \<or> buf_size b \<le> buf_limit b)"

definition tide_buffer_fits :: "tide_buffer \<Rightarrow> nat \<Rightarrow> bool" where
  "tide_buffer_fits b n \<longleftrightarrow> n \<le> SIZE_MAX - buf_size b \<and> (buf_limit b = 0 \<or> buf_size b + n \<le> buf_limit b)"

subsection \<open>Arithmetic lemmas\<close>

lemma unat_UINT64_MAX [simp]: "unat UINT64_MAX = 2 ^ 64 - 1"
  by (simp add: UINT64_MAX_def)

lemma unat_UINT64_MAX_minus: "unat (UINT64_MAX - a) = 2 ^ 64 - 1 - unat a"
proof -
  have "a \<le> UINT64_MAX" 
    using unat_u64_less [of a] by (simp add: word_le_nat_alt)
  then show ?thesis by (simp add: unat_sub)
qed

lemma tide_checked_add_u64_iff:
  "tide_checked_add_u64 a b = Some c \<longleftrightarrow> unat c = unat a + unat b"
proof -
  have "(UINT64_MAX - a < b) \<longleftrightarrow> \<not> unat a + unat b < 2 ^ LENGTH(64)"
    using unat_u64_less [of a] unat_u64_less [of b]
    by (auto simp: word_less_nat_alt unat_UINT64_MAX_minus)
  moreover have "unat c = unat a + unat b \<Longrightarrow> unat a + unat b < 2 ^ LENGTH(64)"
    using unat_u64_less [of c] by simp
  ultimately show ?thesis
    unfolding tide_checked_add_u64_def unat_add_lem
    by (auto simp: word_unat_eq_iff)
qed
lemma tide_checked_add_u64_None: "tide_checked_add_u64 a b = None \<longleftrightarrow> 2 ^ 64 \<le> unat a + unat b"
proof -
  have "tide_checked_add_u64 a b \<noteq> None \<longleftrightarrow> (\<exists>c :: u64. unat c = unat a + unat b)"
    by (auto simp: tide_checked_add_u64_iff)
  also have "\<dots> \<longleftrightarrow> unat a + unat b < 2 ^ 64"
  proof
    assume "\<exists>c :: u64. unat c = unat a + unat b"
    then show "unat a + unat b < 2 ^ 64" using unat_u64_less by metis
  next
    assume "unat a + unat b < 2 ^ 64"
    then have "unat (a + b) = unat a + unat b" 
      using unat_add_lem [of a b] by simp
    then show "\<exists>c :: u64. unat c = unat a + unat b" ..
  qed
  finally show ?thesis by auto
qed

lemma tide_checked_mul_u64_iff:
  "tide_checked_mul_u64 a b = Some c \<longleftrightarrow> unat c = unat a * unat b"
proof (cases "a = 0")
  case True
  then show ?thesis by (auto simp: tide_checked_mul_u64_def unat_eq_0)
next
  case False
  then have a: "0 < unat a" by (simp add: unat_gt_0)
  have "UINT64_MAX div a < b \<longleftrightarrow> \<not> unat a * unat b < 2 ^ LENGTH(64)"
  proof -
    have "UINT64_MAX div a < b \<longleftrightarrow> (2 ^ 64 - 1) div unat a < unat b"
      by (simp add: word_less_nat_alt unat_div)
    also have "\<dots> \<longleftrightarrow> \<not> unat b * unat a \<le> 2 ^ 64 - 1"
      using less_eq_div_iff_mult_less_eq [OF a, of "unat b" "2 ^ 64 - 1"] by linarith
    finally show ?thesis by (auto simp: mult.commute)
  qed
  moreover have "unat c = unat a * unat b \<Longrightarrow> unat a * unat b < 2 ^ LENGTH(64)"
    using unat_u64_less [of c] by simp
  ultimately show ?thesis
    using False unfolding tide_checked_mul_u64_def unat_mult_lem
    by (auto simp: word_unat_eq_iff)
qed

lemma tide_gcd_u64_correct: "unat (tide_gcd_u64 a b) = gcd (unat a) (unat b)"
proof (induction a b rule: tide_gcd_u64.induct)
  case (1 a b)
  show ?case
  proof (cases "b = 0")
    case True
    then show ?thesis by (simp add: tide_gcd_u64.simps [of a 0])
  next
    case False
    then have "unat (tide_gcd_u64 a b) = gcd (unat b) (unat a mod unat b)"
      using "1.IH" by (simp add: tide_gcd_u64.simps [of a b] unat_mod)
    then show ?thesis by (simp add: gcd.commute gcd_red_nat [symmetric])
  qed
qed

lemma tide_align_u64_pow2:
  assumes k: "k < 64" and al: "tide_align_u64 v (2 ^ k) = Some r"
  shows "unat r = (unat v + 2 ^ k - 1) div 2 ^ k * 2 ^ k"
proof -
  have mk: "(2 ^ k - 1 :: u64) = mask k" by (simp add: mask_eq_exp_minus_1)
  have p: "(2 ^ k AND mask k :: u64) = 0" 
    by (rule bit_word_eqI) (auto simp: bit_simps)
  have nz: "(2 ^ k :: u64) \<noteq> 0" using k by simp
  from al obtain w where w: "tide_checked_add_u64 v (mask k) = Some w" and r: "r = w AND NOT (mask k)"
    by (auto simp: tide_align_u64_def mk p nz Let_def split: option.splits if_splits)
  have "unat (mask k :: u64) = 2 ^ k - 1"
    using unat_u64_pow2 [OF k] nz by (simp add: mask_eq_exp_minus_1 unat_minus_one)
  with w have uw: "unat w = unat v + 2 ^ k - 1"
    by (simp add: tide_checked_add_u64_iff)
  have "unat (push_bit k (drop_bit k w)) = unat w div 2 ^ k * 2 ^ k"
  proof -
    have le: "unat w div 2 ^ k * 2 ^ k \<le> unat w" "unat w div 2 ^ k \<le> unat w" by simp_all
    have "unat w div 2 ^ k * 2 ^ k < 2 ^ 64" "unat w div 2 ^ k < 2 ^ 64"
      by (rule le_less_trans [OF le(1) unat_u64_less], rule le_less_trans [OF le(2) unat_u64_less])
    then show ?thesis
      by (simp add: push_bit_eq_mult drop_bit_eq_div unat_word_ariths unat_drop_bit_eq unat_u64_pow2 [OF k])
  qed
  then show ?thesis using uw r by (simp add: and_not_mask_word)
qed

lemma tide_align_u64_bounds:
  assumes "k < 64" and "tide_align_u64 v (2 ^ k) = Some r"
  shows "unat v \<le> unat r" and "unat r < unat v + 2 ^ k" and "2 ^ k dvd unat r"
proof -
  have r: "unat r = (unat v + 2 ^ k - 1) div 2 ^ k * 2 ^ k"
    using assms by (rule tide_align_u64_pow2)
  have "(unat v + 2 ^ k - 1) div 2 ^ k * 2 ^ k + (unat v + 2 ^ k - 1) mod 2 ^ k = unat v + 2 ^ k - 1"
    by (rule div_mult_mod_eq)
  moreover have "(unat v + 2 ^ k - 1) mod 2 ^ k < 2 ^ k" by simp
  moreover have "0 < (2 :: nat) ^ k" by simp
  ultimately show "unat v \<le> unat r" and "unat r < unat v + 2 ^ k"
    unfolding r by linarith+
  show "2 ^ k dvd unat r" unfolding r by simp
qed

subsection \<open>Text and buffer lemmas\<close>

lemma tide_copy_loop_eq:
  "tide_copy_loop i n s = take (n - 1 - i) (takeWhile (\<lambda>c. c \<noteq> CHR 0x00) s)"
proof (induction i n s rule: tide_copy_loop.induct)
  case (2 i n c cs)
  show ?case
  proof (cases "c \<noteq> CHR 0x00 \<and> i + 1 < n")
    case True
    then have "n - 1 - i = Suc (n - 1 - (i + 1))" by (simp add: Suc_diff_Suc)
    with True "2.IH" show ?thesis by simp
  qed auto
qed simp

lemma tide_grow_capacity_ge: "0 < next \<Longrightarrow> needed \<le> tide_grow_capacity next needed"
proof (induction "next" needed rule: tide_grow_capacity.induct)
  case (1 "next" needed)
  then show ?case by (simp add: tide_grow_capacity.simps [of "next" needed])
qed

lemma tide_buffer_reserve_cases:
  obtains (ok) c where "tide_buffer_reserve alloc b n = (TIDE_STATUS_OK, b\<lparr>buf_capacity := c\<rparr>)"
      and "buf_size b + n \<le> c" and "tide_buffer_fits b n"
  | (fail) "tide_buffer_reserve alloc b n = (TIDE_STATUS_RESOURCE, b)"
      and "\<not> tide_buffer_fits b n \<or> (\<exists>m. \<not> alloc m)"
proof (cases "tide_buffer_fits b n")
  case False
  then have "tide_buffer_reserve alloc b n = (TIDE_STATUS_RESOURCE, b)"
    by (auto simp: tide_buffer_reserve_def tide_buffer_fits_def Let_def)
  with False show thesis by (blast intro: fail)
next
  case True
  define m where "m = tide_grow_capacity (if buf_capacity b = 0 then 256 else buf_capacity b) (buf_size b + n)"
  have m: "buf_size b + n \<le> m" unfolding m_def by (rule tide_grow_capacity_ge) simp
  have eq: "tide_buffer_reserve alloc b n =
      (if buf_size b + n \<le> buf_capacity b then (TIDE_STATUS_OK, b)
       else if \<not> alloc m then (TIDE_STATUS_RESOURCE, b) else (TIDE_STATUS_OK, b\<lparr>buf_capacity := m\<rparr>))"
    using True unfolding tide_buffer_reserve_def m_def Let_def by (auto simp: tide_buffer_fits_def)
  show thesis
  proof (cases "buf_size b + n \<le> buf_capacity b")
    case True
    with eq \<open>tide_buffer_fits b n\<close> show thesis by (intro ok [of "buf_capacity b"]) auto
  next
    case False
    with eq m True show thesis by (cases "alloc m") (auto intro: ok [of m] fail)
  qed
qed

lemma tide_buffer_append_cases:
  assumes "n \<le> length d"
  obtains (ok) c where "tide_buffer_append alloc b (Some d) n =
        (TIDE_STATUS_OK, b\<lparr>buf_data := buf_data b @ take n d, buf_capacity := c\<rparr>)"
      and "buf_size b + n \<le> c" and "tide_buffer_fits b n"
  | (fail) "tide_buffer_append alloc b (Some d) n = (TIDE_STATUS_RESOURCE, b)"
      and "\<not> tide_buffer_fits b n \<or> (\<exists>m. \<not> alloc m)"
proof (cases rule: tide_buffer_reserve_cases [of alloc b n])
  case (ok c)
  then show thesis by (intro that(1) [of c]) (auto simp: tide_buffer_append_def)
next
  case fail
  then show thesis by (intro that(2)) (auto simp: tide_buffer_append_def)
qed

lemma tide_buffer_append_zero_cases:
  obtains (ok) c where "tide_buffer_append_zero alloc b n =
        (TIDE_STATUS_OK, b\<lparr>buf_data := buf_data b @ replicate n 0, buf_capacity := c\<rparr>)"
      and "buf_size b + n \<le> c" and "tide_buffer_fits b n"
  | (fail) "tide_buffer_append_zero alloc b n = (TIDE_STATUS_RESOURCE, b)"
      and "\<not> tide_buffer_fits b n \<or> (\<exists>m. \<not> alloc m)"
proof (cases rule: tide_buffer_reserve_cases [of alloc b n])
  case (ok c)
  then show thesis by (intro that(1) [of c]) (auto simp: tide_buffer_append_zero_def)
next
  case fail
  then show thesis by (intro that(2)) (auto simp: tide_buffer_append_zero_def)
qed

subsection \<open>Properties\<close>

text \<open>C38: checked addition and multiplication of two \<open>uint64_t\<close> values return the exact mathematical result, and fail exactly when that result does not fit 64 bits.\<close>

theorem tide_checked_arith_exact:
  "(tide_checked_add_u64 a b = Some c \<longleftrightarrow> unat c = unat a + unat b) \<and>
   (tide_checked_mul_u64 a b = Some c \<longleftrightarrow> unat c = unat a * unat b)"
  by (simp add: tide_checked_add_u64_iff tide_checked_mul_u64_iff)

lemma tide_align_u64_None:
  assumes "k < 64"
  shows "tide_align_u64 v (2 ^ k) = None \<longleftrightarrow> 2 ^ 64 \<le> unat v + 2 ^ k - 1"
proof -
  have mk: "(2 ^ k - 1 :: u64) = mask k" by (simp add: mask_eq_exp_minus_1)
  have p: "(2 ^ k AND mask k :: u64) = 0" by (rule bit_word_eqI) (auto simp: bit_simps)
  have nz: "(2 ^ k :: u64) \<noteq> 0" using assms by simp
  have "unat (mask k :: u64) = 2 ^ k - 1"
    using unat_u64_pow2 [OF assms] nz by (simp add: mask_eq_exp_minus_1 unat_minus_one)
  moreover have "0 < (2 :: nat) ^ k" by simp
  ultimately have "tide_checked_add_u64 v (mask k) = None \<longleftrightarrow> 2 ^ 64 \<le> unat v + 2 ^ k - 1"
    by (simp add: tide_checked_add_u64_None)
  then show ?thesis using assms by (auto simp: tide_align_u64_def mk p nz Let_def split: option.splits)
qed

text \<open>C37: for a power-of-two alignment, \<open>tide_align_u64\<close> returns the least multiple of the alignment that is at least the
  value, and fails only when rounding up leaves 64 bits.\<close>

theorem tide_align_u64_least:
  assumes "k < 64"
  shows "case tide_align_u64 v (2 ^ k) of
      Some r \<Rightarrow> 2 ^ k dvd unat r \<and> unat v \<le> unat r \<and> unat r < unat v + 2 ^ k
    | None \<Rightarrow> 2 ^ 64 \<le> unat v + 2 ^ k - 1"
  using tide_align_u64_bounds [OF assms] tide_align_u64_None [OF assms] by (auto split: option.split)

theorem tide_align_u64_least_witness:
  "tide_align_u64 13 8 = Some 16 \<and> (case tide_align_u64 13 (2 ^ 3) of Some r \<Rightarrow> 2 ^ 3 dvd unat r | None \<Rightarrow> False)"
proof -
  have a: "tide_align_u64 13 8 = Some 16"
    by (simp add: tide_align_u64_def tide_checked_add_u64_def UINT64_MAX_def Let_def)
  with tide_align_u64_least [of 3 13] show ?thesis by simp
qed

text \<open>C36: \<open>tide_buffer_append\<close> keeps the buffer invariant and the limit; on success the new bytes follow the old ones,
  and on failure (the request exceeds the limit, or the allocator refused) the buffer is unchanged.\<close>

theorem tide_buffer_append_contract:
  assumes "tide_buffer_ok b" and "n \<le> length d"
  shows "case tide_buffer_append alloc b (Some d) n of (status, b') \<Rightarrow>
    tide_buffer_ok b' \<and> buf_limit b' = buf_limit b \<and>
    (status = TIDE_STATUS_OK \<and> buf_data b' = buf_data b @ take n d \<or>
     status = TIDE_STATUS_RESOURCE \<and> b' = b \<and> (\<not> tide_buffer_fits b n \<or> (\<exists>m. \<not> alloc m)))"
  using assms(2)
proof (cases rule: tide_buffer_append_cases [where alloc = alloc and b = b])
  case (ok c)
  then show ?thesis using assms by (auto simp: tide_buffer_ok_def tide_buffer_fits_def)
next
  case fail
  then show ?thesis using assms by simp
qed

theorem tide_buffer_append_contract_witness:
  "tide_buffer_append (\<lambda>_. True) \<lparr>buf_data = [1], buf_capacity = 2, buf_limit = 2\<rparr> (Some [2, 3]) 2 =
     (TIDE_STATUS_RESOURCE, \<lparr>buf_data = [1], buf_capacity = 2, buf_limit = 2\<rparr>)"
  using tide_buffer_append_contract [of "\<lparr>buf_data = [1], buf_capacity = 2, buf_limit = 2\<rparr>" 2 "[2, 3]" "\<lambda>_. True"]
  by (auto simp: tide_buffer_ok_def SIZE_MAX_def)

text \<open>C40: the component and message that \<open>tide_error_set\<close> stores are the longest prefixes of the C strings that fit their
  24- and 120-byte arrays with the terminating zero.\<close>

theorem tide_error_set_text:
  "case tide_error_set (Some e) code sev off ty depth (Some component) (Some message) of
     None \<Rightarrow> False
   | Some e' \<Rightarrow> err_code e' = code \<and> length (err_component e') < 24 \<and> length (err_message e') < 120 \<and>
       CHR 0x00 \<notin> set (err_component e') \<and> CHR 0x00 \<notin> set (err_message e') \<and>
       err_component e' = take 23 (takeWhile (\<lambda>c. c \<noteq> CHR 0x00) component) \<and>
       err_message e' = take 119 (takeWhile (\<lambda>c. c \<noteq> CHR 0x00) message)"
  by (auto simp: tide_error_set_def tide_error_value_def tide_copy_text_def tide_copy_loop_eq
      dest!: in_set_takeD set_takeWhileD)

end
