(* ===== verification/Tide_Time.thy ===== *)
theory Tide_Time
  imports Complex_Main "HOL-Library.Signed_Division" Tide_Common
begin

text \<open>
  Rational time (\<open>src/model/time.c\<close>) and edit projection (\<open>src/model/edit.c\<close>).

  The \<open>__int128\<close> and \<open>int64_t\<close> arithmetic of the source is arithmetic on \<^typ>\<open>int\<close>, with the C division
  (\<open>sdiv\<close>, \<open>smod\<close>: towards zero): signed overflow has no defined result in C, so the model computes the
  exact value and the lemmas on bounds show that no intermediate value leaves its type. A status or
  the stored result is a value of a sum type; \<open>out_given\<close> says whether the caller passed a
  non-\<open>NULL\<close> result pointer.

  Reference definitions: \<open>tide_exact_time\<close>, the exact rational the conversion rounds, and \<open>tide_rounded\<close>,
  the integer that each rounding mode selects; \<open>edit_scale\<close>, the scaling that the format prescribes for edits.
\<close>

subsection \<open>Rational numbers\<close>

record tide_rational =
  numerator :: u32
  denominator :: u32

datatype tide_rounding = TIDE_ROUND_FLOOR | TIDE_ROUND_CEIL | TIDE_ROUND_NEAREST_EVEN

definition tide_rational_is_valid :: "tide_rational \<Rightarrow> bool" where
  "tide_rational_is_valid v \<longleftrightarrow> numerator v \<noteq> 0 \<and> denominator v \<noteq> 0 \<and>
     tide_gcd_u64 (ucast (numerator v)) (ucast (denominator v)) = 1"

definition tide_rational_reduce :: "tide_rational option \<Rightarrow> tide_status \<times> tide_rational option" where
  "tide_rational_reduce v =
     (case v of
        None \<Rightarrow> (TIDE_STATUS_TIMELINE, None)
      | Some q \<Rightarrow>
          if numerator q = 0 \<or> denominator q = 0 then (TIDE_STATUS_TIMELINE, Some q)
          else let g = tide_gcd_u64 (ucast (numerator q)) (ucast (denominator q)) in
            (TIDE_STATUS_OK, Some \<lparr>numerator = ucast (ucast (numerator q) div g),
               denominator = ucast (ucast (denominator q) div g)\<rparr>))"

definition tide_round_div_i128 :: "int \<Rightarrow> int \<Rightarrow> tide_rounding \<Rightarrow> bool \<Rightarrow> tide_status + i64" where
  "tide_round_div_i128 num den rounding out_given =
     (if den \<le> 0 \<or> \<not> out_given then Inl TIDE_STATUS_INVALID_ARGUMENT
      else let
        q = num sdiv den;
        r = num smod den;
        r = (if r < 0 then - r else r);
        q = (if rounding = TIDE_ROUND_FLOOR \<and> num < 0 \<and> r \<noteq> 0 then q - 1
             else if rounding = TIDE_ROUND_CEIL \<and> num > 0 \<and> r \<noteq> 0 then q + 1
             else if rounding = TIDE_ROUND_NEAREST_EVEN then
               (let twice = r * 2 in
                if twice > den \<or> twice = den \<and> q AND 1 \<noteq> 0 then q + (if num \<ge> 0 then 1 else - 1) else q)
             else q)
      in if q < INT64_MIN \<or> q > INT64_MAX then Inl TIDE_STATUS_TIMELINE else Inr (word_of_int q))"

text \<open>
  The two operands that \<open>tide_time_convert\<close> builds: common factors are cancelled crosswise before the
  widened products.
\<close>

definition tide_time_denominator :: "tide_rational \<Rightarrow> tide_rational \<Rightarrow> int" where
  "tide_time_denominator source destination = (let
     num = ucast (numerator source) :: u64;
     den = ucast (denominator source) :: u64;
     gcd1 = tide_gcd_u64 num (ucast (numerator destination));
     gcd2 = tide_gcd_u64 (ucast (denominator destination)) den
   in uint (ucast (numerator destination) div gcd1) * uint (den div gcd2))"

definition tide_time_numerator :: "i64 \<Rightarrow> tide_rational \<Rightarrow> tide_rational \<Rightarrow> int" where
  "tide_time_numerator v source destination = (let
     num = ucast (numerator source) :: u64;
     den = ucast (denominator source) :: u64;
     gcd1 = tide_gcd_u64 num (ucast (numerator destination));
     num = num div gcd1;
     gcd2 = tide_gcd_u64 (ucast (denominator destination)) den
   in sint v * uint num * uint (ucast (denominator destination) div gcd2))"

definition tide_time_convert ::
    "i64 \<Rightarrow> tide_rational \<Rightarrow> tide_rational \<Rightarrow> tide_rounding \<Rightarrow> bool \<Rightarrow> tide_status + i64" where
  "tide_time_convert v source destination rounding out_given =
     (if \<not> tide_rational_is_valid source \<or> \<not> tide_rational_is_valid destination \<or> \<not> out_given
      then Inl TIDE_STATUS_TIMELINE
      else tide_round_div_i128 (tide_time_numerator v source destination)
             (tide_time_denominator source destination) rounding out_given)"

subsection \<open>Edits\<close>

record tide_edit_entry =
  output_start :: i64
  output_duration :: i64
  source_start :: i64
  edit_rate :: tide_rational

fun tide_edit_loop :: "tide_edit_entry list \<Rightarrow> int \<Rightarrow> int \<Rightarrow> tide_status + (i64 \<times> i64)" where
  "tide_edit_loop [] pts dur = Inl TIDE_STATUS_PARTIAL"
| "tide_edit_loop (e # es) pts dur =
     (if \<not> tide_rational_is_valid (edit_rate e) \<or> sint (output_duration e) < 0 \<or>
         sint (source_start e) > INT64_MAX - sint (output_duration e) \<or> pts > INT64_MAX - dur
      then Inl TIDE_STATUS_TIMELINE
      else let
        edit_src_end = sint (source_start e) + sint (output_duration e);
        pkt_end = pts + dur;
        start = (if pts > sint (source_start e) then pts else sint (source_start e));
        stop = (if pkt_end < edit_src_end then pkt_end else edit_src_end)
      in if start < stop then
           (if sint (output_start e) > INT64_MAX - (start - sint (source_start e))
            then Inl TIDE_STATUS_TIMELINE
            else Inr (word_of_int (sint (output_start e) + (start - sint (source_start e))),
                      word_of_int (stop - start)))
         else tide_edit_loop es pts dur)"

definition tide_edit_project_one ::
    "tide_edit_entry list option \<Rightarrow> nat \<Rightarrow> i64 \<Rightarrow> i64 \<Rightarrow> bool \<Rightarrow> bool \<Rightarrow> tide_status + (i64 \<times> i64)" where
  "tide_edit_project_one edits edit_count packet_pts packet_duration out_pts_given out_duration_given =
     (if edits = None \<or> \<not> out_pts_given \<or> \<not> out_duration_given \<or> sint packet_duration < 0
      then Inl TIDE_STATUS_INVALID_ARGUMENT
      else tide_edit_loop (take edit_count (the edits)) (sint packet_pts) (sint packet_duration))"

subsection \<open>Reference definitions\<close>

definition tide_exact_time :: "int \<Rightarrow> tide_rational \<Rightarrow> tide_rational \<Rightarrow> rat" where
  "tide_exact_time v source destination =
     of_int v * (of_int (uint (numerator source)) / of_int (uint (denominator source))) /
       (of_int (uint (numerator destination)) / of_int (uint (denominator destination)))"

definition tide_rounded :: "tide_rounding \<Rightarrow> rat \<Rightarrow> int" where
  "tide_rounded mode x =
     (case mode of
        TIDE_ROUND_FLOOR \<Rightarrow> \<lfloor>x\<rfloor>
      | TIDE_ROUND_CEIL \<Rightarrow> \<lceil>x\<rceil>
      | TIDE_ROUND_NEAREST_EVEN \<Rightarrow>
          if frac x < 1 / 2 then \<lfloor>x\<rfloor>
          else if frac x > 1 / 2 then \<lfloor>x\<rfloor> + 1
          else if even \<lfloor>x\<rfloor> then \<lfloor>x\<rfloor> else \<lfloor>x\<rfloor> + 1)"

text \<open>The part of the source interval of an edit that a packet covers, and what the loop accepts.\<close>

definition edit_lo :: "tide_edit_entry \<Rightarrow> int \<Rightarrow> int" where
  "edit_lo e pts = max pts (sint (source_start e))"

definition edit_hi :: "tide_edit_entry \<Rightarrow> int \<Rightarrow> int" where
  "edit_hi e pkt_end = min pkt_end (sint (source_start e) + sint (output_duration e))"

definition edit_overlaps :: "tide_edit_entry \<Rightarrow> int \<Rightarrow> int \<Rightarrow> bool" where
  "edit_overlaps e pts dur \<longleftrightarrow> edit_lo e pts < edit_hi e (pts + dur)"

definition edit_valid :: "tide_edit_entry \<Rightarrow> bool" where
  "edit_valid e \<longleftrightarrow> tide_rational_is_valid (edit_rate e) \<and> 0 \<le> sint (output_duration e) \<and>
     sint (source_start e) + sint (output_duration e) \<le> INT64_MAX"

subsection \<open>Rounding and conversion lemmas\<close>

lemma sdiv_smod_pos:
  fixes n d :: int
  assumes "0 < d"
  shows "n sdiv d = (if n < 0 \<and> n mod d \<noteq> 0 then n div d + 1 else n div d)"
    and "\<bar>n smod d\<bar> = (if n < 0 \<and> n mod d \<noteq> 0 then d - n mod d else n mod d)"
  using assms pos_mod_sign [OF assms, of n, THEN leD]
  by (auto simp: signed_divide_int_def signed_modulo_int_def zdiv_zminus1_eq_if zmod_zminus1_eq_if sgn_if abs_if)

lemma floor_div: "\<lfloor>of_int n / of_int d :: rat\<rfloor> = n div d"
  by (rule floor_divide_of_int_eq)

lemma ceiling_div: "0 < d \<Longrightarrow> \<lceil>of_int n / of_int d :: rat\<rceil> = (if n mod d = 0 then n div d else n div d + 1)"
  by (simp add: ceiling_divide_eq_div zdiv_zminus1_eq_if)

lemma frac_div: "0 < d \<Longrightarrow> frac (of_int n / of_int d :: rat) = of_int (n mod d) / of_int d"
  by (simp add: frac_def floor_div minus_div_mult_eq_mod [symmetric] field_simps)

lemma frac_half:
  assumes "0 < d"
  shows "frac (of_int n / of_int d :: rat) < 1 / 2 \<longleftrightarrow> 2 * (n mod d) < d"
    and "frac (of_int n / of_int d :: rat) > 1 / 2 \<longleftrightarrow> 2 * (n mod d) > d"
proof -
  have p: "0 < (of_int d :: rat)" using assms by simp
  have "frac (of_int n / of_int d :: rat) < 1 / 2 \<longleftrightarrow> (of_int (2 * (n mod d)) :: rat) < of_int d"
    using p by (simp add: frac_div [OF assms] field_simps)
  then show "frac (of_int n / of_int d :: rat) < 1 / 2 \<longleftrightarrow> 2 * (n mod d) < d" by (simp only: of_int_less_iff)
  have "frac (of_int n / of_int d :: rat) > 1 / 2 \<longleftrightarrow> (of_int (2 * (n mod d)) :: rat) > of_int d"
    using p by (simp add: frac_div [OF assms] field_simps)
  then show "frac (of_int n / of_int d :: rat) > 1 / 2 \<longleftrightarrow> 2 * (n mod d) > d" by (simp only: of_int_less_iff)
qed

lemma tide_rounded_div:
  assumes "0 < d"
  shows "tide_rounded mode (of_int n / of_int d) =
    (case mode of
       TIDE_ROUND_FLOOR \<Rightarrow> n div d
     | TIDE_ROUND_CEIL \<Rightarrow> (if n mod d = 0 then n div d else n div d + 1)
     | TIDE_ROUND_NEAREST_EVEN \<Rightarrow>
         if 2 * (n mod d) < d then n div d
         else if 2 * (n mod d) > d then n div d + 1
         else if even (n div d) then n div d else n div d + 1)"
  unfolding tide_rounded_def floor_div ceiling_div [OF assms] frac_half [OF assms]
  by (simp split: tide_rounding.split)

lemma int_and_1: "(q :: int) AND 1 \<noteq> 0 \<longleftrightarrow> odd q"
  by (simp add: and_one_eq odd_iff_mod_2_eq_one)

lemma tide_round_div_i128_correct:
  assumes d: "0 < d"
  shows "tide_round_div_i128 n d mode True =
    (let q = tide_rounded mode (of_int n / of_int d) in
     if q < INT64_MIN \<or> q > INT64_MAX then Inl TIDE_STATUS_TIMELINE else Inr (word_of_int q))"
proof -
  define r where "r = n smod d"
  have r: "(if r < 0 then - r else r) = (if n < 0 \<and> n mod d \<noteq> 0 then d - n mod d else n mod d)"
    unfolding r_def using sdiv_smod_pos(2) [OF d, of n] by (simp add: abs_if)
  have m: "0 \<le> n mod d" "n mod d < d" using d by simp_all
  have z: "n mod d = 0 \<Longrightarrow> n < 0 \<or> n = 0 \<or> 0 < n" by arith
  have q: "tide_rounded mode (of_int n / of_int d) = (let
        q = n sdiv d; r = (if r < 0 then - r else r)
      in if mode = TIDE_ROUND_FLOOR \<and> n < 0 \<and> r \<noteq> 0 then q - 1
         else if mode = TIDE_ROUND_CEIL \<and> n > 0 \<and> r \<noteq> 0 then q + 1
         else if mode = TIDE_ROUND_NEAREST_EVEN then
           (let twice = r * 2 in
            if twice > d \<or> twice = d \<and> q AND 1 \<noteq> 0 then q + (if n \<ge> 0 then 1 else - 1) else q)
         else q)"
    unfolding r Let_def tide_rounded_div [OF d] int_and_1 sdiv_smod_pos(1) [OF d]
    using m by (cases mode) (auto)
  show ?thesis
    unfolding tide_round_div_i128_def q Let_def r_def using d by simp
qed

lemma unat_ucast_u32 [simp]: "unat (ucast (x :: u32) :: u64) = unat x"
  by (simp add: unsigned_ucast_eq take_bit_nat_eq_self_iff less_le_trans [OF unsigned_less])

lemma tide_rational_is_valid_iff:
  "tide_rational_is_valid q \<longleftrightarrow> numerator q \<noteq> 0 \<and> denominator q \<noteq> 0 \<and>
     coprime (unat (numerator q)) (unat (denominator q))"
proof -
  have "tide_gcd_u64 a b = 1 \<longleftrightarrow> gcd (unat a) (unat b) = 1" for a b
    by (metis tide_gcd_u64_correct unat_1 word_unat_eq_iff)
  then show ?thesis by (simp add: tide_rational_is_valid_def coprime_iff_gcd_eq_1)
qed

lemma cancel_gcd:
  fixes a b :: u64
  assumes "unat a \<noteq> 0"
  defines "g \<equiv> tide_gcd_u64 a b"
  shows "(of_int (uint (a div g)) :: rat) = of_int (uint a) / of_int (uint g)"
    and "(of_int (uint (b div g)) :: rat) = of_int (uint b) / of_int (uint g)"
    and "0 < uint g" and "uint (a div g) \<le> uint a" and "uint (b div g) \<le> uint b"
proof -
  have g: "unat g = gcd (unat a) (unat b)" unfolding g_def by (rule tide_gcd_u64_correct)
  have nz: "unat g \<noteq> 0" unfolding g using assms by simp
  have quot: "(of_int (uint (c div g)) :: rat) = of_int (uint c) / of_int (uint g)" if "unat g dvd unat c" for c
  proof -
    from that obtain k where k: "unat c = unat g * k" ..
    then have "unat (c div g) = k" using nz by (simp add: unat_div)
    then have q: "uint (c div g) = int k" by (simp only: uint_nat)
    have c: "uint c = uint g * int k" by (simp only: uint_nat k of_nat_mult)
    have "uint g \<noteq> 0" using nz by (simp only: uint_nat of_nat_eq_0_iff not_False_eq_True)
    then show ?thesis
      unfolding q c of_int_mult by (intro nonzero_mult_div_cancel_left [symmetric]) (simp only: of_int_eq_0_iff not_False_eq_True)
  qed
  show "(of_int (uint (a div g)) :: rat) = of_int (uint a) / of_int (uint g)"
    and "(of_int (uint (b div g)) :: rat) = of_int (uint b) / of_int (uint g)"
    by (rule quot, simp add: g)+
  show "0 < uint g" using nz by (simp only: uint_nat of_nat_0_less_iff neq0_conv)
  show "uint (a div g) \<le> uint a" "uint (b div g) \<le> uint b"
    by (simp_all only: uint_nat unat_div of_nat_le_iff div_le_dividend)
qed

lemma uint_ucast_u32 [simp]: "uint (ucast (x :: u32) :: u64) = uint x"
  using unat_ucast_u32 [of x] by (simp add: uint_nat del: of_nat_unat)

lemma tide_time_quotient:
  assumes "tide_rational_is_valid s" and "tide_rational_is_valid d"
  shows "0 < tide_time_denominator s d"
    and "(of_int (tide_time_numerator v s d) / of_int (tide_time_denominator s d) :: rat) =
      tide_exact_time (sint v) s d"
proof -
  let ?a = "ucast (numerator s) :: u64" and ?b = "ucast (denominator s) :: u64"
    and ?c = "ucast (numerator d) :: u64" and ?e = "ucast (denominator d) :: u64"
  have nz: "unat ?a \<noteq> 0" "unat ?e \<noteq> 0" "unat ?b \<noteq> 0" "unat ?c \<noteq> 0"
    using assms by (auto simp: tide_rational_is_valid_iff unat_eq_0)
  then have pos: "0 < uint ?a" "0 < uint ?b" "0 < uint ?c" "0 < uint ?e"
    by (simp_all add: uint_nat del: of_nat_unat)
  note g1 = cancel_gcd [OF nz(1), of ?c] and g2 = cancel_gcd [OF nz(2), of ?b]
  have "(0 :: rat) < of_int (uint (?c div tide_gcd_u64 ?a ?c))" "(0 :: rat) < of_int (uint (?b div tide_gcd_u64 ?e ?b))"
    unfolding g1(2) g2(2) using pos g1(3) g2(3)
    by (intro divide_pos_pos; simp only: of_int_0_less_iff)+
  then show "0 < tide_time_denominator s d"
    unfolding tide_time_denominator_def Let_def of_int_0_less_iff by (rule mult_pos_pos)
  show "(of_int (tide_time_numerator v s d) / of_int (tide_time_denominator s d) :: rat) =
      tide_exact_time (sint v) s d"
    unfolding tide_time_numerator_def tide_time_denominator_def Let_def of_int_mult g1(1,2) g2(1,2)
    using pos g1(3) g2(3) by (simp add: tide_exact_time_def field_simps del: of_int_uint of_int_sint)
qed

lemma tide_time_bounds:
  assumes "tide_rational_is_valid s" and "tide_rational_is_valid d"
  shows "\<bar>tide_time_numerator v s d\<bar> < 2 ^ 127" and "tide_time_denominator s d < 2 ^ 64"
proof -
  let ?a = "ucast (numerator s) :: u64" and ?b = "ucast (denominator s) :: u64"
    and ?c = "ucast (numerator d) :: u64" and ?e = "ucast (denominator d) :: u64"
  have nz: "unat ?a \<noteq> 0" "unat ?e \<noteq> 0"
    using assms by (auto simp: tide_rational_is_valid_iff unat_eq_0)
  note g1 = cancel_gcd [OF nz(1), of ?c] and g2 = cancel_gcd [OF nz(2), of ?b]
  have u32: "uint (x :: u32) \<le> 2 ^ 32 - 1" for x using uint_lt2p [of x] by simp
  have sv: "\<bar>sint v\<bar> \<le> 2 ^ 63" using sint_ge [of v] sint_lt [of v] by (simp add: abs_le_iff)
  let ?n1 = "uint (?a div tide_gcd_u64 ?a ?c)" and ?n2 = "uint (?e div tide_gcd_u64 ?e ?b)"
    and ?d1 = "uint (?c div tide_gcd_u64 ?a ?c)" and ?d2 = "uint (?b div tide_gcd_u64 ?e ?b)"
  have n: "?n1 \<le> 2 ^ 32 - 1" "?n2 \<le> 2 ^ 32 - 1" "?d1 \<le> 2 ^ 32 - 1" "?d2 \<le> 2 ^ 32 - 1"
    using g1(4,5) g2(4,5) u32 order_trans by (fastforce simp only: uint_ucast_u32)+
  have nn: "?n1 * ?n2 \<le> (2 ^ 32 - 1) * (2 ^ 32 - 1)"
    by (rule mult_mono [OF n(1,2)]) simp_all
  have dd: "?d1 * ?d2 \<le> (2 ^ 32 - 1) * (2 ^ 32 - 1)"
    by (rule mult_mono [OF n(3,4)]) simp_all
  from nn have "\<bar>sint v\<bar> * (?n1 * ?n2) \<le> 2 ^ 63 * ((2 ^ 32 - 1) * (2 ^ 32 - 1))"
    by (intro mult_mono [OF sv]) simp_all
  then show "\<bar>tide_time_numerator v s d\<bar> < 2 ^ 127"
    by (simp add: tide_time_numerator_def Let_def abs_mult)
  show "tide_time_denominator s d < 2 ^ 64"
    using dd by (simp add: tide_time_denominator_def Let_def)
qed

lemma tide_time_convert_rounds:
  assumes "tide_rational_is_valid s" and "tide_rational_is_valid d"
  shows "tide_time_convert v s d mode True =
    (let q = tide_rounded mode (tide_exact_time (sint v) s d) in
     if q < INT64_MIN \<or> q > INT64_MAX then Inl TIDE_STATUS_TIMELINE else Inr (word_of_int q))"
  using assms tide_round_div_i128_correct [OF tide_time_quotient(1) [OF assms]]
  by (simp add: tide_time_convert_def tide_time_quotient(2))

lemma word_of_int_i64: "INT64_MIN \<le> x \<Longrightarrow> x \<le> INT64_MAX \<Longrightarrow> sint (word_of_int x :: i64) = x"
  by (simp add: INT64_MIN_def INT64_MAX_def signed_of_int signed_take_bit_int_eq_self)

lemma tide_rational_reduce_ok:
  assumes "numerator q \<noteq> 0" and "denominator q \<noteq> 0"
  obtains r where "tide_rational_reduce (Some q) = (TIDE_STATUS_OK, Some r)" and "tide_rational_is_valid r"
    and "unat (numerator q) * unat (denominator r) = unat (numerator r) * unat (denominator q)"
proof -
  let ?g = "gcd (unat (numerator q)) (unat (denominator q))"
  let ?w = "tide_gcd_u64 (ucast (numerator q)) (ucast (denominator q))"
  define r where "r = \<lparr>numerator = ucast (ucast (numerator q) div ?w), denominator = ucast (ucast (denominator q) div ?w)\<rparr>"
  have small: "unat (ucast (ucast x div ?w) :: u32) = unat x div ?g" for x :: u32
  proof -
    have "unat (ucast x div ?w :: u64) = unat x div ?g"
      by (simp only: unat_div tide_gcd_u64_correct unat_ucast_u32)
    moreover have "unat x div ?g < 2 ^ 32"
      by (rule le_less_trans [OF div_le_dividend]) (use unsigned_less [of x, where ?'a = nat] in simp)
    ultimately show ?thesis by (simp add: unsigned_ucast_eq take_bit_nat_eq_self_iff)
  qed
  have n: "unat (numerator r) = unat (numerator q) div ?g" and d: "unat (denominator r) = unat (denominator q) div ?g"
    unfolding r_def by (simp_all add: small)
  have nz: "unat (numerator q) \<noteq> 0" "unat (denominator q) \<noteq> 0" using assms by (simp_all add: unat_eq_0)
  show thesis
  proof
    show "tide_rational_reduce (Some q) = (TIDE_STATUS_OK, Some r)"
      using assms by (simp add: tide_rational_reduce_def r_def Let_def)
    have "coprime (unat (numerator r)) (unat (denominator r))"
      unfolding n d using nz by (intro div_gcd_coprime) simp
    moreover have "unat (numerator r) \<noteq> 0" "unat (denominator r) \<noteq> 0"
      unfolding n d using nz by (simp_all add: div_eq_0_iff not_less dvd_imp_le)
    ultimately show "tide_rational_is_valid r" by (auto simp: tide_rational_is_valid_iff)
    show "unat (numerator q) * unat (denominator r) = unat (numerator r) * unat (denominator q)"
      unfolding n d by (metis div_mult_swap dvd_div_mult gcd_dvd1 gcd_dvd2)
  qed
qed

subsection \<open>Edit projection lemmas\<close>

lemma tide_edit_loop_step:
  "tide_edit_loop (e # es) pts dur =
     (if \<not> edit_valid e \<or> INT64_MAX < pts + dur then Inl TIDE_STATUS_TIMELINE
      else if edit_overlaps e pts dur then
        (let p = sint (output_start e) + (edit_lo e pts - sint (source_start e)) in
         if INT64_MAX < p then Inl TIDE_STATUS_TIMELINE
         else Inr (word_of_int p, word_of_int (edit_hi e (pts + dur) - edit_lo e pts)))
      else tide_edit_loop es pts dur)"
proof -
  have lo: "(if pts > sint (source_start e) then pts else sint (source_start e)) = edit_lo e pts"
    by (simp add: edit_lo_def)
  have hi: "(if pts + dur < sint (source_start e) + sint (output_duration e) then pts + dur
      else sint (source_start e) + sint (output_duration e)) = edit_hi e (pts + dur)"
    by (simp add: edit_hi_def)
  have le: "(x > INT64_MAX - y) = (INT64_MAX < x + y)" "(x < 0) = (\<not> 0 \<le> x)" "(INT64_MAX < x) = (\<not> x \<le> INT64_MAX)"
    for x y :: int by auto
  show ?thesis
    unfolding tide_edit_loop.simps Let_def lo hi edit_overlaps_def [symmetric] edit_valid_def le by simp
qed

declare tide_edit_loop.simps(2) [simp del]

lemma sint_i64_bounds: "INT64_MIN \<le> sint (x :: i64)" "sint x \<le> INT64_MAX"
  using sint_ge [of x] sint_lt [of x] by (simp_all add: INT64_MIN_def INT64_MAX_def)

lemma tide_edit_result_exact:
  assumes "edit_valid e" and "edit_overlaps e pts dur"
    and "sint (output_start e) + (edit_lo e pts - sint (source_start e)) \<le> INT64_MAX"
  shows "sint (word_of_int (sint (output_start e) + (edit_lo e pts - sint (source_start e))) :: i64) =
      sint (output_start e) + (edit_lo e pts - sint (source_start e))"
    and "sint (word_of_int (edit_hi e (pts + dur) - edit_lo e pts) :: i64) = edit_hi e (pts + dur) - edit_lo e pts"
proof -
  note b = sint_i64_bounds [of "output_start e"] sint_i64_bounds [of "output_duration e"]
  show "sint (word_of_int (sint (output_start e) + (edit_lo e pts - sint (source_start e))) :: i64) =
      sint (output_start e) + (edit_lo e pts - sint (source_start e))"
    by (rule word_of_int_i64 [OF _ assms(3)]) (use b(1) in \<open>simp add: edit_lo_def max_def\<close>)
  have "0 \<le> INT64_MAX - INT64_MIN" "INT64_MIN \<le> 0" by (simp_all add: INT64_MIN_def INT64_MAX_def)
  then show "sint (word_of_int (edit_hi e (pts + dur) - edit_lo e pts) :: i64) = edit_hi e (pts + dur) - edit_lo e pts"
    using assms(2) b(4) by (intro word_of_int_i64) (auto simp: edit_overlaps_def edit_lo_def edit_hi_def)
qed

lemma tide_edit_loop_ok:
  assumes "tide_edit_loop es pts dur = Inr (p, d)"
  shows "\<exists>before e after. es = before @ e # after \<and> (\<forall>x \<in> set before. \<not> edit_overlaps x pts dur) \<and>
    edit_overlaps e pts dur \<and> sint p = sint (output_start e) + (edit_lo e pts - sint (source_start e)) \<and>
    sint d = edit_hi e (pts + dur) - edit_lo e pts"
  using assms
proof (induction es)
  case (Cons e es)
  show ?case
  proof (cases "edit_overlaps e pts dur")
    case True
    with Cons.prems have "edit_valid e" and
        "p = word_of_int (sint (output_start e) + (edit_lo e pts - sint (source_start e)))"
        "d = word_of_int (edit_hi e (pts + dur) - edit_lo e pts)"
        "sint (output_start e) + (edit_lo e pts - sint (source_start e)) \<le> INT64_MAX"
      by (auto simp: tide_edit_loop_step Let_def split: if_splits)
    with True tide_edit_result_exact [OF _ True] show ?thesis
      by (intro exI [of _ "[]"] exI [of _ e] exI [of _ es]) auto
  next
    case False
    with Cons.prems have "tide_edit_loop es pts dur = Inr (p, d)"
      by (auto simp: tide_edit_loop_step split: if_splits)
    from Cons.IH [OF this] False show ?thesis
      by (metis (no_types, lifting) append_Cons set_ConsD)
  qed
qed simp

lemma tide_edit_loop_partial:
  "tide_edit_loop es pts dur = Inl TIDE_STATUS_PARTIAL \<longleftrightarrow>
     (\<forall>e \<in> set es. edit_valid e \<and> pts + dur \<le> INT64_MAX \<and> \<not> edit_overlaps e pts dur)"
  by (induction es) (auto simp: tide_edit_loop_step Let_def)

lemma tide_edit_loop_status:
  "tide_edit_loop es pts dur = Inl s \<Longrightarrow> s = TIDE_STATUS_PARTIAL \<or> s = TIDE_STATUS_TIMELINE"
  by (induction es) (auto simp: tide_edit_loop_step Let_def split: if_splits)

lemmas [tide_eval] = tide_rational_is_valid_iff

subsection \<open>Properties\<close>

text \<open>C21: for valid time bases, \<open>tide_time_convert\<close> returns the exact rational time rounded in the requested mode (floor,
  ceiling, nearest with ties to even), or \<open>TIMELINE\<close> exactly when that integer is outside \<open>int64_t\<close>; and the two operands
  of its division fit the \<open>__int128\<close> they are computed in.\<close>

theorem tide_time_convert_correct:
  assumes "tide_rational_is_valid s" and "tide_rational_is_valid d"
  shows "tide_time_convert v s d mode True =
      (let q = tide_rounded mode (tide_exact_time (sint v) s d) in
       if q < INT64_MIN \<or> q > INT64_MAX then Inl TIDE_STATUS_TIMELINE else Inr (word_of_int q)) \<and>
    \<bar>tide_time_numerator v s d\<bar> < 2 ^ 127 \<and> 0 < tide_time_denominator s d \<and> tide_time_denominator s d < 2 ^ 64"
  using tide_time_convert_rounds [OF assms] tide_time_bounds [OF assms] tide_time_quotient(1) [OF assms] by simp

theorem tide_time_convert_correct_witness:
  "tide_time_convert 5 \<lparr>numerator = 1, denominator = 2\<rparr> \<lparr>numerator = 1, denominator = 1\<rparr> TIDE_ROUND_NEAREST_EVEN True = Inr 2"
proof -
  have v: "tide_rational_is_valid \<lparr>numerator = 1, denominator = 2\<rparr>" "tide_rational_is_valid \<lparr>numerator = 1, denominator = 1\<rparr>"
    by (simp_all add: tide_eval)
  have f: "\<lfloor>5 / 2 :: rat\<rfloor> = 2" "frac (5 / 2 :: rat) = 1 / 2" by (simp_all add: floor_eq_iff frac_def)
  show ?thesis
    using tide_time_convert_correct [OF v, of 5 TIDE_ROUND_NEAREST_EVEN]
    by (simp add: tide_exact_time_def tide_rounded_def f INT64_MIN_def INT64_MAX_def Let_def)
qed

text \<open>The code translates the overlap and never scales it, whatever the rate of the edit.\<close>

lemma tide_edit_project_one_translates:
  assumes "tide_edit_project_one (Some edits) n pts dur True True = Inr (p, d)"
  shows "\<exists>i < min n (length edits). let e = edits ! i in
    (\<forall>j < i. \<not> edit_overlaps (edits ! j) (sint pts) (sint dur)) \<and> edit_overlaps e (sint pts) (sint dur) \<and>
    sint p - sint (output_start e) = edit_lo e (sint pts) - sint (source_start e) \<and>
    sint d = edit_hi e (sint pts + sint dur) - edit_lo e (sint pts) \<and>
    0 < sint d \<and> sint d \<le> sint dur \<and> sint (output_start e) \<le> sint p \<and>
    sint p + sint d \<le> sint (output_start e) + sint (output_duration e)"
proof -
  from assms obtain before e after where es: "take n edits = before @ e # after"
    and bf: "\<forall>x \<in> set before. \<not> edit_overlaps x (sint pts) (sint dur)" and ov: "edit_overlaps e (sint pts) (sint dur)"
    and p: "sint p = sint (output_start e) + (edit_lo e (sint pts) - sint (source_start e))"
    and d: "sint d = edit_hi e (sint pts + sint dur) - edit_lo e (sint pts)"
    using tide_edit_loop_ok by (fastforce simp: tide_edit_project_one_def split: if_splits)
  have len: "length before < min n (length edits)"
    using arg_cong [OF es, of length] by auto
  have nth: "j < min n (length edits) \<Longrightarrow> edits ! j = (before @ e # after) ! j" for j
    using arg_cong [OF es, of "\<lambda>l. l ! j"] by simp
  have "edits ! length before = e" using nth [OF len] by simp
  moreover have "\<not> edit_overlaps (edits ! j) (sint pts) (sint dur)" if "j < length before" for j
    using nth [of j] that len bf by (simp add: nth_append)
  ultimately show ?thesis
    using len ov p d by (intro exI [of _ "length before"]) (auto simp: edit_overlaps_def edit_lo_def edit_hi_def)
qed

text \<open>The scaling of an offset inside an edit by the rational rate of the edit, as the format prescribes it.\<close>

definition edit_scale :: "tide_edit_entry \<Rightarrow> int \<Rightarrow> int" where
  "edit_scale e x = x * uint (numerator (edit_rate e)) div uint (denominator (edit_rate e))"

text \<open>C22: for edits of rate 1/1, when \<open>tide_edit_project_one\<close> succeeds, it used the first edit whose source interval the packet
  overlaps, and the result is the projection that the format prescribes: the overlap, scaled by the rate and translated to
  the output start of the edit, computed without overflow. It is not empty, is no longer than the packet and lies inside
  the output interval of the edit. For other rates the format asks for a scaling that the code does not do.\<close>

theorem tide_edit_project_one_correct:
  assumes "tide_edit_project_one (Some edits) n pts dur True True = Inr (p, d)"
    and "\<forall>e \<in> set (take n edits). edit_rate e = \<lparr>numerator = 1, denominator = 1\<rparr>"
  shows "\<exists>i < min n (length edits). let e = edits ! i in
    (\<forall>j < i. \<not> edit_overlaps (edits ! j) (sint pts) (sint dur)) \<and> edit_overlaps e (sint pts) (sint dur) \<and>
    sint p = sint (output_start e) + edit_scale e (edit_lo e (sint pts) - sint (source_start e)) \<and>
    sint d = edit_scale e (edit_hi e (sint pts + sint dur) - edit_lo e (sint pts)) \<and>
    0 < sint d \<and> sint d \<le> sint dur \<and> sint (output_start e) \<le> sint p \<and>
    sint p + sint d \<le> sint (output_start e) + sint (output_duration e)"
proof -
  obtain i where i: "i < min n (length edits)" and r: "let e = edits ! i in
      (\<forall>j < i. \<not> edit_overlaps (edits ! j) (sint pts) (sint dur)) \<and> edit_overlaps e (sint pts) (sint dur) \<and>
      sint p - sint (output_start e) = edit_lo e (sint pts) - sint (source_start e) \<and>
      sint d = edit_hi e (sint pts + sint dur) - edit_lo e (sint pts) \<and>
      0 < sint d \<and> sint d \<le> sint dur \<and> sint (output_start e) \<le> sint p \<and>
      sint p + sint d \<le> sint (output_start e) + sint (output_duration e)"
    using tide_edit_project_one_translates [OF assms(1)] by blast
  have "edits ! i \<in> set (take n edits)" using i by (auto simp: in_set_conv_nth intro!: exI [of _ i])
  then have "edit_scale (edits ! i) x = x" for x using assms(2) by (simp add: edit_scale_def)
  then show ?thesis using i r by (intro exI [of _ i]) (simp add: Let_def)
qed

theorem tide_edit_project_one_correct_witness:
  "let e = \<lparr>output_start = 100, output_duration = 4, source_start = 10, edit_rate = \<lparr>numerator = 1, denominator = 1\<rparr>\<rparr> in
    tide_edit_project_one (Some [e]) 1 12 5 True True = Inr (102, 2) \<and>
    sint (102 :: i64) = sint (output_start e) + edit_scale e (edit_lo e 12 - sint (source_start e)) \<and> sint (2 :: i64) \<le> sint (5 :: i64)"
proof -
  let ?e = "\<lparr>output_start = 100, output_duration = 4, source_start = 10, edit_rate = \<lparr>numerator = 1, denominator = 1\<rparr>\<rparr>"
  have "tide_edit_project_one (Some [?e]) 1 12 5 True True = Inr (102, 2)"
    by (simp add: tide_edit_project_one_def tide_eval INT64_MAX_def Let_def tide_edit_loop.simps)
  with tide_edit_project_one_correct [OF this] show ?thesis by (simp add: Let_def)
qed

text \<open>C23: \<open>tide_edit_project_one\<close> reports \<open>PARTIAL\<close> exactly when every edit is valid and none of them overlaps the packet.\<close>

theorem tide_edit_project_one_partial:
  "tide_edit_project_one (Some edits) n pts dur True True = Inl TIDE_STATUS_PARTIAL \<longleftrightarrow>
     0 \<le> sint dur \<and> (\<forall>e \<in> set (take n edits). edit_valid e \<and> sint pts + sint dur \<le> INT64_MAX \<and>
       \<not> edit_overlaps e (sint pts) (sint dur))"
  by (simp add: tide_edit_project_one_def tide_edit_loop_partial not_less)

theorem tide_edit_project_one_partial_witness:
  "tide_edit_project_one (Some [\<lparr>output_start = 0, output_duration = 4, source_start = 10, edit_rate = \<lparr>numerator = 1, denominator = 1\<rparr>\<rparr>])
     1 20 5 True True = Inl TIDE_STATUS_PARTIAL"
  unfolding tide_edit_project_one_partial
  by (simp add: edit_valid_def edit_overlaps_def edit_lo_def edit_hi_def tide_eval INT64_MAX_def)

end
