(* ===== verification/Tide_Model.thy ===== *)
theory Tide_Model
  imports Tide_Time "HOL-Library.Multiset"
begin

text \<open>
  The data model of \<open>include/tide/tide.h\<close> (streams, payload views, packets) with the reference-counted
  payload leases of \<open>src/model/lease.c\<close> and the packet references of \<open>src/model/packet.c\<close>.

  Leases live in an explicit heap: a lease pointer is an address, \<open>NULL\<close> is \<open>None\<close>, and \<open>lh_leases\<close>
  maps the addresses that are allocated. An address is never given out twice, and an operation that
  touches a lease that was already freed, which has no defined behaviour in C, sets \<open>lh_fault\<close>; so
  a proof that \<open>lh_fault\<close> stays unset is a proof that no lease is used after it was freed. A pointer
  to bytes with its size is an optional list with a natural number, the C code reading the first
  \<open>size\<close> bytes of it.

  The invariant \<open>leases_owned h R\<close>: the reference count of every allocated lease is the number of
  references to it in the multiset \<open>R\<close> of references the program holds, and nothing else is allocated
  or held. \<open>lease_heap\<close> states what the clients of the leases rely on.
\<close>

subsection \<open>Streams and packets\<close>

record tide_stream_info =
  si_track_id :: u32
  si_generation :: u32
  si_media_kind :: u16
  si_codec_tag :: u32
  si_time_base :: tide_rational
  si_config :: "bytes option"
  si_config_size :: nat

record tide_payload_view =
  pv_data :: "bytes option"
  pv_size :: nat
  pv_lease :: "nat option"

record tide_packet_info =
  pk_track_id :: u32
  pk_generation :: u32
  pk_packet_seq :: u64
  pk_dts :: i64
  pk_pts :: i64
  pk_duration :: i64
  pk_flags :: u32
  pk_payload :: tide_payload_view

record tide_packet_ref =
  pr_info :: tide_packet_info
  pr_lease :: "nat option"

definition zero_packet_info :: tide_packet_info where
  "zero_packet_info = \<lparr>pk_track_id = 0, pk_generation = 0, pk_packet_seq = 0, pk_dts = 0, pk_pts = 0,
     pk_duration = 0, pk_flags = 0, pk_payload = \<lparr>pv_data = None, pv_size = 0, pv_lease = None\<rparr>\<rparr>"

subsection \<open>Payload leases\<close>

record tide_payload_lease =
  ls_refcount :: u32
  ls_data :: "bytes option"
  ls_size :: nat
  ls_lease_id :: u64

record lease_heap =
  lh_leases :: "nat \<rightharpoonup> tide_payload_lease"
  lh_next :: nat
  lh_next_id :: u64
  lh_fault :: bool

text \<open>The struct has 32 bytes: a padded 32-bit counter, a pointer, a size and an identifier.\<close>

definition tide_payload_lease_create_copy ::
    "(nat \<Rightarrow> bool) \<Rightarrow> lease_heap \<Rightarrow> bytes option \<Rightarrow> nat \<Rightarrow> nat option \<times> lease_heap" where
  "tide_payload_lease_create_copy alloc h data n =
     (if data = None \<and> n \<noteq> 0 then (None, h)
      else if \<not> alloc 32 then (None, h)
      else if n \<noteq> 0 \<and> \<not> alloc n then (None, h)
      else (Some (lh_next h), h\<lparr>
        lh_leases := (lh_leases h)(lh_next h \<mapsto> \<lparr>ls_refcount = 1,
          ls_data = (if n \<noteq> 0 then map_option (take n) data else None), ls_size = n,
          ls_lease_id = lh_next_id h\<rparr>),
        lh_next := lh_next h + 1, lh_next_id := lh_next_id h + 1\<rparr>))"

definition tide_payload_lease_retain :: "lease_heap \<Rightarrow> nat option \<Rightarrow> nat option \<times> lease_heap" where
  "tide_payload_lease_retain h lease =
     (case lease of
        None \<Rightarrow> (None, h)
      | Some a \<Rightarrow> (Some a,
          case lh_leases h a of
            None \<Rightarrow> h\<lparr>lh_fault := True\<rparr>
          | Some l \<Rightarrow> h\<lparr>lh_leases := (lh_leases h)(a \<mapsto> l\<lparr>ls_refcount := ls_refcount l + 1\<rparr>)\<rparr>))"

definition tide_payload_lease_release :: "lease_heap \<Rightarrow> nat option \<Rightarrow> lease_heap" where
  "tide_payload_lease_release h lease =
     (case lease of
        None \<Rightarrow> h
      | Some a \<Rightarrow>
          (case lh_leases h a of
             None \<Rightarrow> h\<lparr>lh_fault := True\<rparr>
           | Some l \<Rightarrow>
               if ls_refcount l = 1 then h\<lparr>lh_leases := (lh_leases h)(a := None)\<rparr>
               else h\<lparr>lh_leases := (lh_leases h)(a \<mapsto> l\<lparr>ls_refcount := ls_refcount l - 1\<rparr>)\<rparr>))"

definition tide_payload_lease_data :: "lease_heap \<Rightarrow> nat option \<Rightarrow> bytes option" where
  "tide_payload_lease_data h lease =
     (case lease of None \<Rightarrow> None | Some a \<Rightarrow> Option.bind (lh_leases h a) ls_data)"

definition tide_payload_lease_size :: "lease_heap \<Rightarrow> nat option \<Rightarrow> nat" where
  "tide_payload_lease_size h lease =
     (case lease of None \<Rightarrow> 0 | Some a \<Rightarrow> (case lh_leases h a of None \<Rightarrow> 0 | Some l \<Rightarrow> ls_size l))"

subsection \<open>Packet references\<close>

definition tide_packet_ref_init :: tide_packet_ref where
  "tide_packet_ref_init = \<lparr>pr_info = zero_packet_info, pr_lease = None\<rparr>"

definition tide_packet_ref_reset :: "lease_heap \<Rightarrow> tide_packet_ref \<Rightarrow> tide_packet_ref \<times> lease_heap" where
  "tide_packet_ref_reset h packet =
     (tide_packet_ref_init, tide_payload_lease_release h (pr_lease packet))"

text \<open>
  \<open>same\<close> says whether the two pointers are equal; the results are the status, the two objects after
  the call and the heap. The move is undefined only on a lease that is not allocated any more, which
  the first release or the two reads of the lease would touch.
\<close>

definition tide_packet_refresh :: "lease_heap \<Rightarrow> tide_packet_ref \<Rightarrow> tide_packet_ref" where
  "tide_packet_refresh h p =
     (if pr_lease p \<noteq> None then
        p\<lparr>pr_info := (pr_info p)\<lparr>pk_payload := \<lparr>pv_data = tide_payload_lease_data h (pr_lease p),
          pv_size = tide_payload_lease_size h (pr_lease p), pv_lease = pr_lease p\<rparr>\<rparr>\<rparr>
      else p)"

definition lease_touch :: "lease_heap \<Rightarrow> nat option \<Rightarrow> lease_heap" where
  "lease_touch h lease =
     (case lease of
        None \<Rightarrow> h
      | Some a \<Rightarrow> if lh_leases h a = None then h\<lparr>lh_fault := True\<rparr> else h)"

definition tide_packet_ref_move ::
    "lease_heap \<Rightarrow> tide_packet_ref option \<Rightarrow> tide_packet_ref option \<Rightarrow> bool \<Rightarrow>
     tide_status \<times> tide_packet_ref option \<times> tide_packet_ref option \<times> lease_heap" where
  "tide_packet_ref_move h dst src same =
     (case (dst, src) of
        (Some d, Some s) \<Rightarrow>
          if same then (TIDE_STATUS_INVALID_ARGUMENT, dst, src, h)
          else let (_, h) = tide_packet_ref_reset h d; h = lease_touch h (pr_lease s) in
            (TIDE_STATUS_OK, Some (tide_packet_refresh h s), Some tide_packet_ref_init, h)
      | _ \<Rightarrow> (TIDE_STATUS_INVALID_ARGUMENT, dst, src, h))"

subsection \<open>Ownership\<close>

definition lease_ref :: "nat option \<Rightarrow> nat multiset" where
  "lease_ref p = (case p of None \<Rightarrow> {#} | Some a \<Rightarrow> {#a#})"

definition lease_ok :: "nat multiset \<Rightarrow> nat \<Rightarrow> tide_payload_lease option \<Rightarrow> bool" where
  "lease_ok R a l \<longleftrightarrow>
     (case l of
        None \<Rightarrow> count R a = 0
      | Some l \<Rightarrow> 0 < count R a \<and> unat (ls_refcount l) = count R a)"

definition leases_owned :: "lease_heap \<Rightarrow> nat multiset \<Rightarrow> bool" where
  "leases_owned h R \<longleftrightarrow> \<not> lh_fault h \<and> (\<forall>a. lease_ok R a (lh_leases h a)) \<and>
     (\<forall>a \<ge> lh_next h. lh_leases h a = None)"

lemma leases_owned_live: "leases_owned h (R + lease_ref p) \<Longrightarrow> p = Some a \<Longrightarrow> lh_leases h a \<noteq> None"
  by (auto simp: leases_owned_def lease_ok_def lease_ref_def split: option.splits dest: spec [of _ a])

lemma leases_owned_update:
  assumes "leases_owned h R" and "\<And>b. b \<noteq> a \<Longrightarrow> count R' b = count R b" and "lease_ok R' a l"
    and "lh_leases h' = (lh_leases h)(a := l)" and "\<not> lh_fault h'" and "lh_next h \<le> lh_next h'" and "a < lh_next h'"
  shows "leases_owned h' R'"
proof -
  have other: "lease_ok R' b x = lease_ok R b x" if "b \<noteq> a" for b x
    using assms(2) [OF that] by (simp only: lease_ok_def)
  have "lease_ok R' b (lh_leases h' b)" for b
    using assms(1,3,4) other [of b] by (cases "b = a") (simp_all add: leases_owned_def)
  then show ?thesis using assms(1,4-7) by (auto simp: leases_owned_def)
qed

lemma tide_payload_lease_create_copy_owned:
  assumes "leases_owned h R" and "tide_payload_lease_create_copy alloc h data n = (p, h')"
  shows "leases_owned h' (R + lease_ref p)"
proof (cases p)
  case None
  then show ?thesis using assms by (auto simp: tide_payload_lease_create_copy_def lease_ref_def split: if_splits)
next
  case (Some a)
  define l where "l = \<lparr>ls_refcount = 1, ls_data = (if n \<noteq> 0 then map_option (take n) data else None), ls_size = n,
    ls_lease_id = lh_next_id h\<rparr>"
  have a: "a = lh_next h" and h': "lh_next h' = lh_next h + 1" "lh_fault h' = lh_fault h"
    and l: "ls_refcount l = 1" "lh_leases h' = (lh_leases h)(a := Some l)"
    using assms(2) Some unfolding l_def by (auto simp: tide_payload_lease_create_copy_def split: if_splits)
  have "count R a = 0" using assms(1) a by (auto simp: leases_owned_def lease_ok_def dest!: spec [of _ a])
  then show ?thesis
    using assms(1) a l h' by (intro leases_owned_update [OF assms(1) _ _ l(2)]) (auto simp: Some lease_ref_def lease_ok_def leases_owned_def)
qed

lemma tide_payload_lease_retain_owned:
  assumes "leases_owned h (R + lease_ref p)" and "size R < 2 ^ 32 - 2"
    and "tide_payload_lease_retain h p = (q, h')"
  shows "q = p" and "leases_owned h' (R + lease_ref p + lease_ref q)"
proof -
  show q: "q = p" using assms(3) by (auto simp: tide_payload_lease_retain_def split: option.splits)
  show "leases_owned h' (R + lease_ref p + lease_ref q)"
  proof (cases p)
    case None
    then show ?thesis using assms q by (auto simp: tide_payload_lease_retain_def lease_ref_def)
  next
    case (Some a)
    with leases_owned_live [OF assms(1)] obtain l where l: "lh_leases h a = Some l" by auto
    have cnt: "unat (ls_refcount l) = Suc (count R a)" "a < lh_next h" "\<not> lh_fault h"
      using assms(1) l Some by (auto simp: leases_owned_def lease_ok_def lease_ref_def not_less [symmetric] dest: spec [of _ a])
    have "count R a < 2 ^ 32 - 2" using assms(2) count_le_size [of R a] by (rule le_less_trans [rotated])
    then have "unat (ls_refcount l + 1) = Suc (Suc (count R a))"
      using cnt(1) unat_add_lem [of "ls_refcount l" 1] by simp
    with cnt l Some q assms(3) show ?thesis
      by (intro leases_owned_update [OF assms(1), of a _ "Some (l\<lparr>ls_refcount := ls_refcount l + 1\<rparr>)"])
         (auto simp: tide_payload_lease_retain_def lease_ref_def lease_ok_def)
  qed
qed

lemma tide_payload_lease_release_owned:
  assumes "leases_owned h (R + lease_ref p)"
  shows "leases_owned (tide_payload_lease_release h p) R"
proof (cases p)
  case None
  then show ?thesis using assms by (simp add: tide_payload_lease_release_def lease_ref_def)
next
  case (Some a)
  with leases_owned_live [OF assms] obtain l where l: "lh_leases h a = Some l" by auto
  have cnt: "unat (ls_refcount l) = Suc (count R a)" "a < lh_next h" "\<not> lh_fault h"
    using assms l Some by (auto simp: leases_owned_def lease_ok_def lease_ref_def not_less [symmetric] dest: spec [of _ a])
  show ?thesis
  proof (cases "ls_refcount l = 1")
    case True
    with cnt l Some show ?thesis
      by (intro leases_owned_update [OF assms, of a _ None])
         (auto simp: tide_payload_lease_release_def lease_ref_def lease_ok_def)
  next
    case False
    then have "unat (ls_refcount l - 1) = count R a" "0 < count R a"
      using cnt(1) by (auto simp: unat_minus_one word_unat_eq_iff unat_eq_0 [symmetric])
    with False cnt l Some show ?thesis
      by (intro leases_owned_update [OF assms, of a _ "Some (l\<lparr>ls_refcount := ls_refcount l - 1\<rparr>)"])
         (auto simp: tide_payload_lease_release_def lease_ref_def lease_ok_def)
  qed
qed

locale owned_heap =
  fixes owned :: "'h \<Rightarrow> nat multiset \<Rightarrow> bool" and release :: "'h \<Rightarrow> nat option \<Rightarrow> 'h"
  assumes release_owned: "owned h (R + lease_ref p) \<Longrightarrow> owned (release h p) R"
begin

lemma release_all: "owned h (R + (\<Sum>p\<leftarrow>ps. lease_ref p)) \<Longrightarrow> owned (fold (\<lambda>p h. release h p) ps h) R"
proof (induction ps arbitrary: h)
  case (Cons p ps)
  then have "owned h ((R + (\<Sum>p\<leftarrow>ps. lease_ref p)) + lease_ref p)" by (simp add: ac_simps)
  from Cons.IH [OF release_owned [OF this]] show ?case by simp
qed simp

end

interpretation leases: owned_heap leases_owned tide_payload_lease_release
  by unfold_locales (rule tide_payload_lease_release_owned)

lemma lease_touch_owned: "leases_owned h (R + lease_ref p) \<Longrightarrow> lease_touch h p = h"
  using leases_owned_live [of h R p "the p"] by (cases p) (auto simp: lease_touch_def)

lemma tide_packet_ref_move_owned:
  assumes "leases_owned h (R + lease_ref (pr_lease d) + lease_ref (pr_lease s))"
  shows "\<exists>h'. tide_packet_ref_move h (Some d) (Some s) False =
      (TIDE_STATUS_OK, Some (tide_packet_refresh h' s), Some tide_packet_ref_init, h') \<and>
    leases_owned h' (R + lease_ref (pr_lease s))"
proof -
  have o: "leases_owned (tide_payload_lease_release h (pr_lease d)) (R + lease_ref (pr_lease s))"
    using assms by (intro leases.release_owned) (simp add: ac_simps)
  then show ?thesis
    by (simp add: tide_packet_ref_move_def tide_packet_ref_reset_def lease_touch_owned Let_def)
qed

subsection \<open>Runs of a program that holds references\<close>

definition lease_heap_empty :: lease_heap where
  "lease_heap_empty = \<lparr>lh_leases = Map.empty, lh_next = 0, lh_next_id = 1, lh_fault = False\<rparr>"

inductive lease_run :: "lease_heap \<Rightarrow> nat multiset \<Rightarrow> bool" where
  init: "lease_run lease_heap_empty {#}"
| create: "lease_run h R \<Longrightarrow> tide_payload_lease_create_copy alloc h data n = (p, h') \<Longrightarrow>
    lease_run h' (R + lease_ref p)"
| retain: "lease_run h (R + lease_ref p) \<Longrightarrow> size R < 2 ^ 32 - 2 \<Longrightarrow>
    tide_payload_lease_retain h p = (q, h') \<Longrightarrow> lease_run h' (R + lease_ref p + lease_ref q)"
| release: "lease_run h (R + lease_ref p) \<Longrightarrow> lease_run (tide_payload_lease_release h p) R"
| move: "lease_run h (R + lease_ref (pr_lease d) + lease_ref (pr_lease s)) \<Longrightarrow>
    tide_packet_ref_move h (Some d) (Some s) False = (status, Some d', Some s', h') \<Longrightarrow>
    lease_run h' (R + lease_ref (pr_lease d') + lease_ref (pr_lease s'))"

lemma pr_lease_refresh [simp]: "pr_lease (tide_packet_refresh h p) = pr_lease p"
  by (simp add: tide_packet_refresh_def)

lemma pr_lease_init [simp]: "pr_lease tide_packet_ref_init = None"
  by (simp add: tide_packet_ref_init_def)

lemma lease_ref_None [simp]: "lease_ref None = {#}"
  by (simp add: lease_ref_def)

lemma leases_owned_empty: "leases_owned lease_heap_empty {#}"
  by (simp add: leases_owned_def lease_heap_empty_def lease_ok_def)

lemma lease_run_owned: "lease_run h R \<Longrightarrow> leases_owned h R"
proof (induction rule: lease_run.induct)
  case init
  then show ?case by (rule leases_owned_empty)
next
  case create
  then show ?case by (intro tide_payload_lease_create_copy_owned)
next
  case retain
  then show ?case by (intro tide_payload_lease_retain_owned)
next
  case release
  then show ?case by (intro leases.release_owned)
next
  case (move h R d s)
  then show ?case using tide_packet_ref_move_owned [of h R d s] by auto
qed

subsection \<open>Properties\<close>

text \<open>C19: whatever sequence of lease creations, retains, releases and packet moves a program performs on references it
  holds, no lease is used after it was freed, a lease is allocated exactly as long as a reference to it is held, its
  reference count is the number of those references, and a program that holds none has leaked none.\<close>

theorem lease_run_safe:
  assumes "lease_run h R"
  shows "\<not> lh_fault h \<and> (\<forall>a. lh_leases h a \<noteq> None \<longleftrightarrow> a \<in># R) \<and>
    (\<forall>a l. lh_leases h a = Some l \<longrightarrow> unat (ls_refcount l) = count R a) \<and> (R = {#} \<longrightarrow> lh_leases h = Map.empty)"
proof -
  have lk: "lease_ok R a (lh_leases h a)" for a using lease_run_owned [OF assms] by (simp add: leases_owned_def)
  have ok: "lh_leases h a \<noteq> None \<longleftrightarrow> a \<in># R" for a
    using lk [of a] by (cases "lh_leases h a") (simp_all add: lease_ok_def not_in_iff)
  have cnt: "lh_leases h a = Some l \<Longrightarrow> unat (ls_refcount l) = count R a" for a l
    using lk [of a] by (simp add: lease_ok_def)
  have "R = {#} \<Longrightarrow> lh_leases h = Map.empty"
  proof
    fix a assume "R = {#}"
    then show "lh_leases h a = None" using ok [of a] by auto
  qed
  then show ?thesis using ok cnt lease_run_owned [OF assms] by (auto simp: leases_owned_def)
qed

theorem lease_run_safe_witness:
  "let (p, h) = tide_payload_lease_create_copy (\<lambda>_. True) lease_heap_empty (Some [7, 8]) 2;
       (q, h) = tide_payload_lease_retain h p;
       h = tide_payload_lease_release h p
   in \<not> lh_fault h \<and> lh_leases h 0 \<noteq> None"
proof -
  let ?c = "tide_payload_lease_create_copy (\<lambda>_. True) lease_heap_empty (Some [7, 8]) 2"
  let ?r = "tide_payload_lease_retain (snd ?c) (Some 0)"
  have p: "fst ?c = Some 0" "fst ?r = Some 0"
    by (simp_all add: tide_payload_lease_create_copy_def tide_payload_lease_retain_def lease_heap_empty_def)
  have "lease_run (snd ?c) ({#} + lease_ref (Some 0))"
    using lease_run.create [OF lease_run.init prod.collapse [symmetric], of "\<lambda>_. True" "Some [7, 8]" 2] p by simp
  from lease_run.retain [OF this _ prod.collapse [symmetric]] have "lease_run (snd ?r) ({#0#} + lease_ref (Some 0))"
    using p by (simp add: lease_ref_def)
  from lease_run.release [OF this] have "lease_run (tide_payload_lease_release (snd ?r) (Some 0)) {#0#}" .
  from lease_run_safe [OF this] p show ?thesis by (simp add: split_beta Let_def)
qed

text \<open>Moving a packet succeeds on distinct objects, hands the lease of the source over to the destination with its
  reference count unchanged, releases the lease the destination held, clears the source, and keeps the accounting of leases.\<close>

theorem tide_packet_ref_move_transfers:
  assumes "leases_owned h (R + lease_ref (pr_lease d) + lease_ref (pr_lease s))"
  shows "\<exists>d' h'. tide_packet_ref_move h (Some d) (Some s) False = (TIDE_STATUS_OK, Some d', Some tide_packet_ref_init, h') \<and>
    pr_lease d' = pr_lease s \<and> leases_owned h' (R + lease_ref (pr_lease d')) \<and>
    (pr_info d')\<lparr>pk_payload := pk_payload (pr_info s)\<rparr> = pr_info s \<and>
    (\<forall>a l. pr_lease s = Some a \<longrightarrow> lh_leases h' a = Some l \<longrightarrow>
      pk_payload (pr_info d') = \<lparr>pv_data = ls_data l, pv_size = ls_size l, pv_lease = Some a\<rparr>)"
proof -
  from tide_packet_ref_move_owned [OF assms] obtain h' where
    m: "tide_packet_ref_move h (Some d) (Some s) False =
      (TIDE_STATUS_OK, Some (tide_packet_refresh h' s), Some tide_packet_ref_init, h')"
    and o: "leases_owned h' (R + lease_ref (pr_lease s))" by blast
  show ?thesis
    by (rule exI [of _ "tide_packet_refresh h' s"], rule exI [of _ h'])
       (use m o in \<open>auto simp: tide_packet_refresh_def tide_payload_lease_data_def tide_payload_lease_size_def\<close>)
qed

theorem tide_packet_ref_move_transfers_witness:
  "\<exists>d' h'. tide_packet_ref_move lease_heap_empty (Some tide_packet_ref_init) (Some tide_packet_ref_init) False =
     (TIDE_STATUS_OK, Some d', Some tide_packet_ref_init, h') \<and> leases_owned h' {#}"
  using tide_packet_ref_move_transfers [of lease_heap_empty "{#}" tide_packet_ref_init tide_packet_ref_init]
  by (auto simp: leases_owned_empty)

end
