(* ===== verification/Tide_Index.thy ===== *)
theory Tide_Index
  imports Tide_Model "HOL-Library.Product_Lexorder"
begin

text \<open>
  The reorder queue of \<open>src/index/reorder.c\<close> and the index builder of \<open>src/index/index_builder.c\<close>.

  A queue keeps its first \<open>count\<close> items as a list, so the C field \<open>count\<close> is the length of that list;
  a push works on the list with one more slot, whose content is not read before it is stored. The
  shifting loops are written out with indexed updates. The lease heap is threaded through, because
  pushing, popping and destroying move or release packet references. Sizes of arrays are natural
  numbers: the products with the element sizes stay far below \<open>SIZE_MAX\<close> for every array that fits
  in memory.

  \<open>sorted_queue\<close> is the contract of a stable insertion into a sorted list; the interpretation \<open>reorder\<close>
  discharges it for the loop of \<open>tide_reorder_queue_push\<close>.
\<close>

subsection \<open>Reorder queue\<close>

record tide_reorder_item =
  ri_packet :: tide_packet_ref
  ri_epoch :: u64

record tide_reorder_queue =
  rq_items :: "tide_reorder_item list"
  rq_capacity :: nat
  rq_limit :: nat

abbreviation rq_count :: "tide_reorder_queue \<Rightarrow> nat" where
  "rq_count q \<equiv> length (rq_items q)"

definition tide_packet_less :: "tide_packet_ref \<Rightarrow> u64 \<Rightarrow> tide_packet_ref \<Rightarrow> u64 \<Rightarrow> bool" where
  "tide_packet_less a epoch_a b epoch_b =
     (if epoch_a \<noteq> epoch_b then epoch_a < epoch_b
      else if pk_pts (pr_info a) \<noteq> pk_pts (pr_info b)
        then sint (pk_pts (pr_info a)) < sint (pk_pts (pr_info b))
      else if pk_dts (pr_info a) \<noteq> pk_dts (pr_info b)
        then sint (pk_dts (pr_info a)) < sint (pk_dts (pr_info b))
      else pk_packet_seq (pr_info a) < pk_packet_seq (pr_info b))"

definition tide_reorder_queue_init :: "tide_reorder_queue option \<Rightarrow> nat \<Rightarrow> tide_status \<times> tide_reorder_queue option" where
  "tide_reorder_queue_init queue limit =
     (if queue = None \<or> limit = 0 then (TIDE_STATUS_INVALID_ARGUMENT, queue)
      else (TIDE_STATUS_OK, Some \<lparr>rq_items = [], rq_capacity = 0, rq_limit = limit\<rparr>))"

definition tide_reorder_queue_destroy ::
    "lease_heap \<Rightarrow> tide_reorder_queue option \<Rightarrow> tide_reorder_queue option \<times> lease_heap" where
  "tide_reorder_queue_destroy h queue =
     (case queue of
        None \<Rightarrow> (None, h)
      | Some q \<Rightarrow> (Some (q\<lparr>rq_items := [], rq_capacity := 0\<rparr>),
          fold (\<lambda>it h. snd (tide_packet_ref_reset h (ri_packet it))) (rq_items q) h))"

fun tide_reorder_shift ::
    "tide_reorder_item list \<Rightarrow> tide_packet_ref \<Rightarrow> u64 \<Rightarrow> nat \<Rightarrow> tide_reorder_item list \<times> nat" where
  "tide_reorder_shift items packet epoch 0 = (items, 0)"
| "tide_reorder_shift items packet epoch (Suc pos) =
     (if tide_packet_less packet epoch (ri_packet (items ! pos)) (ri_epoch (items ! pos))
      then tide_reorder_shift (items[Suc pos := items ! pos]) packet epoch pos
      else (items, Suc pos))"

text \<open>The size of a \<open>tide_reorder_item\<close> is 88 bytes.\<close>

definition tide_reorder_grow :: "(nat \<Rightarrow> bool) \<Rightarrow> tide_reorder_queue \<Rightarrow> tide_reorder_queue option" where
  "tide_reorder_grow alloc q =
     (if rq_count q = rq_capacity q then
        let next = (if rq_capacity q = 0 then 8 else rq_capacity q * 2);
            next = (if next > rq_limit q then rq_limit q else next)
        in if \<not> alloc (next * 88) then None else Some (q\<lparr>rq_capacity := next\<rparr>)
      else Some q)"

definition tide_reorder_queue_push ::
    "(nat \<Rightarrow> bool) \<Rightarrow> lease_heap \<Rightarrow> tide_reorder_queue option \<Rightarrow> tide_packet_ref option \<Rightarrow> u64 \<Rightarrow>
     tide_status \<times> tide_reorder_queue option \<times> tide_packet_ref option \<times> lease_heap" where
  "tide_reorder_queue_push alloc h queue packet epoch =
     (case (queue, packet) of
        (Some q, Some p) \<Rightarrow>
          if rq_count q \<ge> rq_limit q then (TIDE_STATUS_RESOURCE, queue, packet, h)
          else (case tide_reorder_grow alloc q of
              None \<Rightarrow> (TIDE_STATUS_RESOURCE, queue, packet, h)
            | Some q \<Rightarrow> let
                slot = \<lparr>ri_packet = tide_packet_ref_init, ri_epoch = 0\<rparr>;
                (items, pos) = tide_reorder_shift (rq_items q @ [slot]) p epoch (rq_count q);
                (status, dst, src, h) = tide_packet_ref_move h (Some tide_packet_ref_init) (Some p) False;
                items = items[pos := \<lparr>ri_packet = the dst, ri_epoch = epoch\<rparr>]
              in (status, Some (q\<lparr>rq_items := items\<rparr>), src, h))
      | _ \<Rightarrow> (TIDE_STATUS_INVALID_ARGUMENT, queue, packet, h))"

fun tide_reorder_close_gap :: "tide_reorder_item list \<Rightarrow> nat \<Rightarrow> nat \<Rightarrow> tide_reorder_item list" where
  "tide_reorder_close_gap items i 0 = items"
| "tide_reorder_close_gap items i (Suc n) = tide_reorder_close_gap (items[i - 1 := items ! i]) (i + 1) n"

definition tide_reorder_queue_pop_ready ::
    "lease_heap \<Rightarrow> tide_reorder_queue option \<Rightarrow> tide_packet_ref option \<Rightarrow>
     tide_status \<times> tide_reorder_queue option \<times> tide_packet_ref option \<times> lease_heap" where
  "tide_reorder_queue_pop_ready h queue out =
     (case (queue, out) of
        (Some q, Some _) \<Rightarrow>
          if rq_count q = 0 then (TIDE_STATUS_WOULD_BLOCK, queue, out, h)
          else let
            (_, dst, src, h) = tide_packet_ref_move h (Some tide_packet_ref_init) (Some (ri_packet (rq_items q ! 0))) False;
            items = (rq_items q)[0 := (rq_items q ! 0)\<lparr>ri_packet := the src\<rparr>];
            items = tide_reorder_close_gap items 1 (rq_count q - 1)
          in (TIDE_STATUS_OK, Some (q\<lparr>rq_items := take (rq_count q - 1) items\<rparr>), dst, h)
      | _ \<Rightarrow> (TIDE_STATUS_INVALID_ARGUMENT, queue, out, h))"

subsection \<open>Index builder\<close>

record tide_index_entry =
  ie_track_id :: u32
  ie_packet_seq :: u64
  ie_pts :: i64
  ie_record_offset :: u64

text \<open>
  The four pointers of the C function become the option of the triple (\<open>None\<close>: one of the first three
  is \<open>NULL\<close>) and of the entry. A \<open>tide_index_entry\<close> has 32 bytes.
\<close>

record tide_index_builder =
  ib_entries :: "tide_index_entry list"
  ib_capacity :: nat

definition tide_index_builder_add ::
    "(nat \<Rightarrow> bool) \<Rightarrow> tide_index_builder option \<Rightarrow> tide_index_entry option \<Rightarrow> tide_status \<times> tide_index_builder option" where
  "tide_index_builder_add alloc builder entry =
     (case (builder, entry) of
        (Some b, Some e) \<Rightarrow>
          if ib_entries b \<noteq> [] \<and> ie_record_offset e < ie_record_offset (ib_entries b ! (length (ib_entries b) - 1))
          then (TIDE_STATUS_INDEX, builder)
          else if length (ib_entries b) = ib_capacity b then
            let next = (if ib_capacity b = 0 then 16 else ib_capacity b * 2) in
            if \<not> alloc (next * 32) then (TIDE_STATUS_RESOURCE, builder)
            else (TIDE_STATUS_OK, Some \<lparr>ib_entries = ib_entries b @ [e], ib_capacity = next\<rparr>)
          else (TIDE_STATUS_OK, Some (b\<lparr>ib_entries := ib_entries b @ [e]\<rparr>))
      | _ \<Rightarrow> (TIDE_STATUS_INVALID_ARGUMENT, builder))"

subsection \<open>Order of packets\<close>

type_synonym packet_key = "u64 \<times> int \<times> int \<times> u64"

definition packet_key :: "tide_packet_ref \<Rightarrow> u64 \<Rightarrow> packet_key" where
  "packet_key p epoch = (epoch, sint (pk_pts (pr_info p)), sint (pk_dts (pr_info p)), pk_packet_seq (pr_info p))"

definition item_key :: "tide_reorder_item \<Rightarrow> packet_key" where
  "item_key it = packet_key (ri_packet it) (ri_epoch it)"

lemma tide_packet_less_key: "tide_packet_less a ea b eb \<longleftrightarrow> packet_key a ea < packet_key b eb"
  by (auto simp: tide_packet_less_def packet_key_def less_prod_def' signed_word_eqI)

subsection \<open>Insertion into a sorted list\<close>

locale sorted_queue =
  fixes key :: "'a \<Rightarrow> 'k::linorder" and ins :: "'a \<Rightarrow> 'a list \<Rightarrow> 'a list"
  assumes ins_mset: "mset (ins x xs) = add_mset x (mset xs)"
    and ins_sorted: "sorted (map key xs) \<Longrightarrow> sorted (map key (ins x xs))"
    and ins_stable: "filter (\<lambda>y. key y = k) (ins x xs) = filter (\<lambda>y. key y = k) xs @ (if key x = k then [x] else [])"
begin

lemma ins_all_mset: "mset (fold ins ys xs) = mset xs + mset ys"
  by (induction ys arbitrary: xs) (simp_all add: ins_mset)

lemma ins_all_sorted: "sorted (map key xs) \<Longrightarrow> sorted (map key (fold ins ys xs))"
  by (induction ys arbitrary: xs) (simp_all add: ins_sorted)

lemma ins_all_stable: "filter (\<lambda>y. key y = k) (fold ins ys xs) = filter (\<lambda>y. key y = k) (xs @ ys)"
  by (induction ys arbitrary: xs) (simp_all add: ins_stable)

lemma ins_all_sort_key: "fold ins ys [] = sort_key key ys"
  using ins_all_stable [of "key y" for y]
  by (intro properties_for_sort_key [symmetric]) (simp_all add: ins_all_mset ins_all_sorted eq_commute [of "key _" "key _"])

lemma head_least:
  assumes "sorted (map key (x # xs))" and "y \<in> set (x # xs)"
  shows "key x \<le> key y"
  using assms by auto

end

definition reorder_pos :: "tide_reorder_item \<Rightarrow> tide_reorder_item list \<Rightarrow> nat" where
  "reorder_pos x xs = snd (tide_reorder_shift (xs @ [x]) (ri_packet x) (ri_epoch x) (length xs))"

definition reorder_insert :: "tide_reorder_item \<Rightarrow> tide_reorder_item list \<Rightarrow> tide_reorder_item list" where
  "reorder_insert x xs = take (reorder_pos x xs) xs @ x # drop (reorder_pos x xs) xs"

lemma shift_spec:
  assumes "tide_reorder_shift items p e n = (items', pos)" and "n < length items"
  shows "pos \<le> n \<and> (\<forall>j. pos \<le> j \<longrightarrow> j < n \<longrightarrow> packet_key p e < item_key (items ! j)) \<and>
    (pos \<noteq> 0 \<longrightarrow> \<not> packet_key p e < item_key (items ! (pos - 1))) \<and>
    items' [pos := y] = take pos items @ y # take (n - pos) (drop pos items) @ drop (Suc n) items"
  using assms
proof (induction n arbitrary: items)
  case 0
  then show ?case by (auto simp: upd_conv_take_nth_drop)
next
  case (Suc n)
  let ?i = "items[Suc n := items ! n]"
  show ?case
  proof (cases "packet_key p e < item_key (items ! n)")
    case True
    then have sh: "tide_reorder_shift ?i p e n = (items', pos)"
      using Suc.prems by (simp add: tide_packet_less_key item_key_def)
    have IH: "pos \<le> n" "\<And>j. pos \<le> j \<Longrightarrow> j < n \<Longrightarrow> packet_key p e < item_key (?i ! j)"
      "pos \<noteq> 0 \<Longrightarrow> \<not> packet_key p e < item_key (?i ! (pos - 1))"
      "items' [pos := y] = take pos ?i @ y # take (n - pos) (drop pos ?i) @ drop (Suc n) ?i"
      using Suc.IH [OF sh] Suc.prems by auto
    have low: "?i ! j = items ! j" if "j \<le> n" for j using that by simp
    have 1: "packet_key p e < item_key (items ! j)" if "pos \<le> j" "j < Suc n" for j
      using IH(2) [of j] low [of j] that True by (cases "j = n") auto
    have d: "drop (Suc n) ?i = items ! n # drop (Suc (Suc n)) items"
      using Suc.prems by (simp add: drop_update_swap Cons_nth_drop_Suc [symmetric])
    have t: "take (Suc n - pos) (drop pos items) = take (n - pos) (drop pos items) @ [items ! n]"
      using IH(1) Suc.prems by (simp add: Suc_diff_le take_Suc_conv_app_nth)
    have "items' [pos := y] = take pos items @ y # take (Suc n - pos) (drop pos items) @ drop (Suc (Suc n)) items"
      unfolding IH(4) d t using IH(1) by (simp add: drop_update_swap)
    then show ?thesis using IH(1,3) low [of "pos - 1"] 1 by auto
  next
    case False
    then have "items' = items" "pos = Suc n"
      using Suc.prems by (simp_all add: tide_packet_less_key item_key_def)
    then show ?thesis using False Suc.prems by (simp add: upd_conv_take_nth_drop)
  qed
qed

lemma shift_at:
  assumes "tide_reorder_shift (xs @ [slot]) p e (length xs) = (items, pos)"
  shows "pos \<le> length xs" and "\<And>j. pos \<le> j \<Longrightarrow> j < length xs \<Longrightarrow> packet_key p e < item_key (xs ! j)"
    and "pos \<noteq> 0 \<Longrightarrow> \<not> packet_key p e < item_key (xs ! (pos - 1))"
    and "items[pos := y] = take pos xs @ y # drop pos xs"
proof -
  note s = shift_spec [OF assms, of y]
  show p: "pos \<le> length xs" using s by simp
  show "packet_key p e < item_key (xs ! j)" if "pos \<le> j" "j < length xs" for j
    using s that by (auto simp: nth_append)
  show "\<not> packet_key p e < item_key (xs ! (pos - 1))" if "pos \<noteq> 0"
  proof -
    have "pos - 1 < length xs" using p that by simp
    then show ?thesis using s that by (simp add: nth_append)
  qed
  show "items[pos := y] = take pos xs @ y # drop pos xs" using s by simp
qed

lemma shift_pos_slot:
  assumes "tide_reorder_shift (xs @ [a]) p e (length xs) = (items, k)"
    and "tide_reorder_shift (xs @ [b]) p e (length xs) = (items', l)"
  shows "k = l"
proof -
  have "\<not> k < l" using shift_at(2) [OF assms(1), of "l - 1"] shift_at(1,3) [OF assms(2)] by fastforce
  moreover have "\<not> l < k" using shift_at(2) [OF assms(2), of "k - 1"] shift_at(1,3) [OF assms(1)] by fastforce
  ultimately show ?thesis by simp
qed

lemma reorder_insert_shift:
  assumes "tide_reorder_shift (xs @ [slot]) p e (length xs) = (items, pos)" and "packet_key p e = item_key y"
    and "ri_epoch y = e"
  shows "items[pos := y] = reorder_insert y xs"
proof -
  have "tide_reorder_shift zs p e n = tide_reorder_shift zs (ri_packet y) (ri_epoch y) n" for zs n
    using assms(2,3) by (induction n arbitrary: zs) (simp_all add: tide_packet_less_key item_key_def)
  then have "reorder_pos y xs = pos"
    using shift_pos_slot [OF assms(1), of y] by (simp add: reorder_pos_def) (metis prod.collapse)
  then show ?thesis using shift_at(4) [OF assms(1)] by (simp add: reorder_insert_def)
qed

lemma reorder_insert_stable:
  "filter (\<lambda>it. item_key it = k) (reorder_insert x xs) =
     filter (\<lambda>it. item_key it = k) xs @ (if item_key x = k then [x] else [])"
proof -
  let ?k = "reorder_pos x xs" and ?f = "filter (\<lambda>it. item_key it = k)"
  obtain items where sh: "tide_reorder_shift (xs @ [x]) (ri_packet x) (ri_epoch x) (length xs) = (items, ?k)"
    by (metis prod.collapse reorder_pos_def)
  have "item_key y \<noteq> item_key x" if "y \<in> set (drop ?k xs)" for y
    using that shift_at(2) [OF sh] by (auto simp: in_set_conv_nth item_key_def)
      (metis add.commute item_key_def less_diff_conv le_add1 order_less_irrefl)
  then have "item_key x = k \<Longrightarrow> ?f (drop ?k xs) = []" by (auto simp: filter_empty_conv)
  moreover have "?f xs = ?f (take ?k xs) @ ?f (drop ?k xs)"
    by (metis append_take_drop_id filter_append)
  ultimately show ?thesis by (simp add: reorder_insert_def)
qed

interpretation reorder: sorted_queue item_key reorder_insert
proof
  fix x :: tide_reorder_item and xs :: "tide_reorder_item list"
  have "mset xs = mset (take (reorder_pos x xs) xs) + mset (drop (reorder_pos x xs) xs)"
    by (metis append_take_drop_id mset_append)
  then show "mset (reorder_insert x xs) = add_mset x (mset xs)" by (simp add: reorder_insert_def)
next
  fix x :: tide_reorder_item and xs :: "tide_reorder_item list"
  assume so: "sorted (map item_key xs)"
  let ?k = "reorder_pos x xs"
  obtain items where sh: "tide_reorder_shift (xs @ [x]) (ri_packet x) (ri_epoch x) (length xs) = (items, ?k)"
    by (metis prod.collapse reorder_pos_def)
  have k: "?k \<le> length xs" by (rule shift_at(1) [OF sh])
  have hi: "item_key x \<le> item_key y" if "y \<in> set (drop ?k xs)" for y
    using that shift_at(2) [OF sh] by (auto simp: in_set_conv_nth item_key_def)
      (metis add.commute item_key_def less_diff_conv le_add1 order_less_imp_le)
  have lo: "item_key y \<le> item_key x" if y: "y \<in> set (take ?k xs)" for y
  proof -
    from y obtain j where j: "j < ?k" "y = xs ! j" by (auto simp: in_set_conv_nth)
    then have "item_key y \<le> item_key (xs ! (?k - 1))"
      using so k by (simp add: sorted_iff_nth_mono)
    moreover have "item_key (xs ! (?k - 1)) \<le> item_key x"
      using shift_at(3) [OF sh] j by (simp add: item_key_def not_less)
    ultimately show ?thesis by (rule order_trans)
  qed
  have "sorted (map item_key (take ?k xs @ drop ?k xs))" using so by simp
  then show "sorted (map item_key (reorder_insert x xs))"
    using hi lo unfolding reorder_insert_def by (auto simp: sorted_append simp del: append_take_drop_id)
qed (rule reorder_insert_stable)

lemma close_gap_spec:
  "0 < i \<Longrightarrow> i + n \<le> length items \<Longrightarrow>
     tide_reorder_close_gap items i n = take (i - 1) items @ take n (drop i items) @ drop (i - 1 + n) items"
proof (induction n arbitrary: items i)
  case (Suc n)
  have "tide_reorder_close_gap items i (Suc n) =
      take i (items[i - 1 := items ! i]) @ take n (drop (Suc i) (items[i - 1 := items ! i])) @ drop (i + n) (items[i - 1 := items ! i])"
    using Suc.IH [of "i + 1" "items[i - 1 := items ! i]"] Suc.prems by simp
  also have "take i (items[i - 1 := items ! i]) = take (i - 1) items @ [items ! i]"
  proof -
    have "take (Suc (i - 1)) (items[i - 1 := items ! i]) = take (i - 1) (items[i - 1 := items ! i]) @ [items[i - 1 := items ! i] ! (i - 1)]"
      using Suc.prems by (intro take_Suc_conv_app_nth) simp
    then show ?thesis using Suc.prems by simp
  qed
  also have "drop (Suc i) (items[i - 1 := items ! i]) = drop (Suc i) items" using Suc.prems by simp
  also have "drop (i + n) (items[i - 1 := items ! i]) = drop (i + n) items" using Suc.prems by simp
  finally show ?case
    using Suc.prems by (simp add: Cons_nth_drop_Suc [of i, symmetric])
qed simp

lemma close_gap_tl: "items \<noteq> [] \<Longrightarrow> take (length items - 1) (tide_reorder_close_gap items 1 (length items - 1)) = tl items"
  using close_gap_spec [of 1 "length items - 1" items] by (cases items) (simp_all add: Suc_le_eq)

subsection \<open>Operations of the queue\<close>

definition reorder_ok :: "tide_reorder_queue \<Rightarrow> bool" where
  "reorder_ok q \<longleftrightarrow> sorted (map item_key (rq_items q)) \<and> 0 < rq_limit q \<and> rq_count q \<le> rq_limit q \<and>
     rq_count q \<le> rq_capacity q \<and> rq_capacity q \<le> rq_limit q"

definition queue_refs :: "tide_reorder_queue \<Rightarrow> nat multiset" where
  "queue_refs q = (\<Sum>it\<leftarrow>rq_items q. lease_ref (pr_lease (ri_packet it)))"

lemma queue_refs_mset: "mset (rq_items q') = add_mset it (mset (rq_items q)) \<Longrightarrow>
  queue_refs q' = queue_refs q + lease_ref (pr_lease (ri_packet it))"
proof -
  assume m: "mset (rq_items q') = add_mset it (mset (rq_items q))"
  have "queue_refs r = sum_mset (image_mset (\<lambda>it. lease_ref (pr_lease (ri_packet it))) (mset (rq_items r)))" for r
    by (simp add: queue_refs_def sum_mset_sum_list [symmetric])
  with m show ?thesis by (simp add: add.commute)
qed

lemma packet_key_refresh [simp]: "packet_key (tide_packet_refresh h p) e = packet_key p e"
  by (simp add: packet_key_def tide_packet_refresh_def)

lemma tide_reorder_grow_cases:
  assumes "rq_count q < rq_limit q" and "rq_count q \<le> rq_capacity q"
  obtains (ok) c where "tide_reorder_grow alloc q = Some (q\<lparr>rq_capacity := c\<rparr>)" and "rq_count q < c"
      and "rq_capacity q \<le> rq_limit q \<longrightarrow> c \<le> rq_limit q"
  | (fail) "tide_reorder_grow alloc q = None" and "\<exists>m. \<not> alloc m"
proof (cases "rq_count q = rq_capacity q")
  case False
  then show thesis using assms by (intro ok [of "rq_capacity q"]) (auto simp: tide_reorder_grow_def)
next
  case True
  define c where "c = min (if rq_capacity q = 0 then 8 else rq_capacity q * 2) (rq_limit q)"
  have g: "tide_reorder_grow alloc q = (if \<not> alloc (c * 88) then None else Some (q\<lparr>rq_capacity := c\<rparr>))"
    using True by (auto simp: tide_reorder_grow_def c_def min_def Let_def)
  show thesis
  proof (cases "alloc (c * 88)")
    case True
    then show thesis using g assms \<open>rq_count q = rq_capacity q\<close> by (intro ok [of c]) (auto simp: c_def)
  qed (use g fail in auto)
qed

lemma tide_reorder_queue_push_cases:
  assumes "rq_count q \<le> rq_capacity q" and "leases_owned h (R + lease_ref (pr_lease p))"
  obtains (ok) c p' where "tide_reorder_queue_push alloc h (Some q) (Some p) epoch =
        (TIDE_STATUS_OK, Some (q\<lparr>rq_capacity := c, rq_items := reorder_insert \<lparr>ri_packet = p', ri_epoch = epoch\<rparr> (rq_items q)\<rparr>),
         Some tide_packet_ref_init, h)"
      and "rq_count q < c" and "rq_capacity q \<le> rq_limit q \<longrightarrow> c \<le> rq_limit q" and "rq_count q < rq_limit q"
      and "p' = tide_packet_refresh h p"
  | (fail) "tide_reorder_queue_push alloc h (Some q) (Some p) epoch = (TIDE_STATUS_RESOURCE, Some q, Some p, h)"
      and "rq_limit q \<le> rq_count q \<or> (\<exists>m. \<not> alloc m)"
proof (cases "rq_count q < rq_limit q")
  case False
  then show thesis by (intro fail) (auto simp: tide_reorder_queue_push_def)
next
  case True
  then show thesis
    using assms(1)
  proof (cases rule: tide_reorder_grow_cases [where alloc = alloc])
    case (ok c)
    let ?p = "tide_packet_refresh h p" and ?slot = "\<lparr>ri_packet = tide_packet_ref_init, ri_epoch = 0\<rparr>"
    obtain items pos where sh: "tide_reorder_shift (rq_items q @ [?slot]) p epoch (rq_count q) = (items, pos)"
      by (cases "tide_reorder_shift (rq_items q @ [?slot]) p epoch (rq_count q)")
    have mv: "tide_packet_ref_move h (Some tide_packet_ref_init) (Some p) False =
        (TIDE_STATUS_OK, Some ?p, Some tide_packet_ref_init, h)"
      using lease_touch_owned [OF assms(2)]
      by (simp add: tide_packet_ref_move_def tide_packet_ref_reset_def tide_payload_lease_release_def Let_def)
    have "items[pos := \<lparr>ri_packet = ?p, ri_epoch = epoch\<rparr>] = reorder_insert \<lparr>ri_packet = ?p, ri_epoch = epoch\<rparr> (rq_items q)"
      by (rule reorder_insert_shift [OF sh]) (simp_all add: item_key_def)
    then have "tide_reorder_queue_push alloc h (Some q) (Some p) epoch =
        (TIDE_STATUS_OK, Some (q\<lparr>rq_capacity := c, rq_items := reorder_insert \<lparr>ri_packet = ?p, ri_epoch = epoch\<rparr> (rq_items q)\<rparr>),
         Some tide_packet_ref_init, h)"
      using True ok(1) sh mv by (simp add: tide_reorder_queue_push_def)
    from that(1) [OF this ok(2,3) True refl] show thesis .
  next
    case fail
    with True show thesis by (intro that(2)) (auto simp: tide_reorder_queue_push_def)
  qed
qed
lemma tide_reorder_queue_pop_eq:
  assumes "rq_items q = it # its" and "leases_owned h (R + lease_ref (pr_lease (ri_packet it)))"
  shows "tide_reorder_queue_pop_ready h (Some q) (Some out) =
    (TIDE_STATUS_OK, Some (q\<lparr>rq_items := its\<rparr>), Some (tide_packet_refresh h (ri_packet it)), h)"
proof -
  have "tide_packet_ref_move h (Some tide_packet_ref_init) (Some (ri_packet it)) False =
      (TIDE_STATUS_OK, Some (tide_packet_refresh h (ri_packet it)), Some tide_packet_ref_init, h)"
    using lease_touch_owned [OF assms(2)]
    by (simp add: tide_packet_ref_move_def tide_packet_ref_reset_def tide_payload_lease_release_def Let_def)
  then show ?thesis
    using assms(1) close_gap_tl [of "it\<lparr>ri_packet := tide_packet_ref_init\<rparr> # its"]
    by (simp add: tide_reorder_queue_pop_ready_def)
qed

subsection \<open>A whole session: push everything, then pop everything\<close>

fun reorder_push_all ::
    "(nat \<Rightarrow> bool) \<Rightarrow> lease_heap \<Rightarrow> tide_reorder_queue \<Rightarrow> (tide_packet_ref \<times> u64) list \<Rightarrow> (tide_reorder_queue \<times> lease_heap) option" where
  "reorder_push_all alloc h q [] = Some (q, h)"
| "reorder_push_all alloc h q ((p, e) # ps) =
     (case tide_reorder_queue_push alloc h (Some q) (Some p) e of
        (TIDE_STATUS_OK, Some q, _, h) \<Rightarrow> reorder_push_all alloc h q ps
      | _ \<Rightarrow> None)"

fun reorder_pop_all :: "nat \<Rightarrow> lease_heap \<Rightarrow> tide_reorder_queue \<Rightarrow> (tide_packet_ref list \<times> lease_heap) option" where
  "reorder_pop_all 0 h q = (if fst (tide_reorder_queue_pop_ready h (Some q) (Some tide_packet_ref_init)) = TIDE_STATUS_WOULD_BLOCK
     then Some ([], h) else None)"
| "reorder_pop_all (Suc n) h q =
     (case tide_reorder_queue_pop_ready h (Some q) (Some tide_packet_ref_init) of
        (TIDE_STATUS_OK, Some q, Some p, h) \<Rightarrow> map_option (apfst (\<lambda>ps. p # ps)) (reorder_pop_all n h q)
      | _ \<Rightarrow> None)"

definition session_refs :: "(tide_packet_ref \<times> u64) list \<Rightarrow> nat multiset" where
  "session_refs ps = (\<Sum>pe\<leftarrow>ps. lease_ref (pr_lease (fst pe)))"

definition packet_item :: "lease_heap \<Rightarrow> tide_packet_ref \<times> u64 \<Rightarrow> tide_reorder_item" where
  "packet_item h pe = \<lparr>ri_packet = tide_packet_refresh h (fst pe), ri_epoch = snd pe\<rparr>"

lemma reorder_push_all_eq:
  assumes "rq_count q + length ps \<le> rq_limit q" and "rq_count q \<le> rq_capacity q" and "\<And>m. alloc m"
    and "leases_owned h (R + session_refs ps)"
  shows "\<exists>c. reorder_push_all alloc h q ps =
    Some (q\<lparr>rq_capacity := c, rq_items := fold reorder_insert (map (packet_item h) ps) (rq_items q)\<rparr>, h)"
  using assms
proof (induction ps arbitrary: q R)
  case Nil
  then show ?case by (intro exI [of _ "rq_capacity q"]) simp
next
  case (Cons pe ps)
  obtain p e where pe: "pe = (p, e)" by (cases pe)
  have own: "leases_owned h ((R + session_refs ps) + lease_ref (pr_lease p))"
    using Cons.prems(4) by (simp add: session_refs_def pe ac_simps)
  from Cons.prems(2) own show ?case
  proof (cases rule: tide_reorder_queue_push_cases [where alloc = alloc and epoch = e])
    case (ok c p')
    let ?q = "q\<lparr>rq_capacity := c, rq_items := reorder_insert (packet_item h pe) (rq_items q)\<rparr>"
    have len: "rq_count ?q = Suc (rq_count q)" using reorder.ins_mset [THEN arg_cong, of size] by simp
    have "leases_owned h ((R + lease_ref (pr_lease p)) + session_refs ps)" using own by (simp add: ac_simps)
    from Cons.IH [OF _ _ Cons.prems(3) this, of ?q] show ?thesis
      using Cons.prems(1) len ok pe by (auto simp: packet_item_def)
  next
    case fail
    then show ?thesis using Cons.prems(1,3) by simp
  qed
qed

lemma sort_key_map: "sort_key f (map g xs) = map g (sort_key (\<lambda>x. f (g x)) xs)"
proof (induction xs)
  case (Cons x xs)
  have "insort_key f (g x) (map g ys) = map g (insort_key (\<lambda>x. f (g x)) x ys)" for ys by (induction ys) simp_all
  with Cons show ?case by simp
qed simp

lemma tide_packet_refresh_idem: "tide_packet_refresh h (tide_packet_refresh h p) = tide_packet_refresh h p"
  by (simp add: tide_packet_refresh_def)

lemma reorder_pop_all_eq:
  assumes "leases_owned h (R + queue_refs q)"
  shows "reorder_pop_all (rq_count q) h q = Some (map (\<lambda>it. tide_packet_refresh h (ri_packet it)) (rq_items q), h)"
  using assms
proof (induction "rq_items q" arbitrary: q R)
  case Nil
  then show ?case by (simp add: tide_reorder_queue_pop_ready_def)
next
  case (Cons it its)
  let ?q = "q\<lparr>rq_items := its\<rparr>"
  have own: "leases_owned h ((R + queue_refs ?q) + lease_ref (pr_lease (ri_packet it)))"
    using Cons.prems Cons.hyps(2) [symmetric] by (simp add: queue_refs_def ac_simps)
  have "leases_owned h ((R + lease_ref (pr_lease (ri_packet it))) + queue_refs ?q)" using own by (simp add: ac_simps)
  from Cons.hyps(1) [OF _ this] tide_reorder_queue_pop_eq [OF Cons.hyps(2) [symmetric] own, of tide_packet_ref_init]
  show ?case by (simp add: Cons.hyps(2) [symmetric])
qed

subsection \<open>Properties\<close>

text \<open>C33: a push keeps the queue sorted by epoch, presentation time, decoding time and sequence number and within its limit
  and capacity. It either adds exactly the pushed packet, behind the packets of equal rank (first in, first out), clears the
  caller's packet and keeps every lease owned, or, when the queue is full or the allocator refuses, changes nothing.\<close>

theorem tide_reorder_queue_push_contract:
  assumes "reorder_ok q" and "leases_owned h (R + queue_refs q + lease_ref (pr_lease p))"
    and "tide_reorder_queue_push alloc h (Some q) (Some p) epoch = (status, Some q', Some p', h')"
  shows "reorder_ok q' \<and> leases_owned h' (R + queue_refs q' + lease_ref (pr_lease p')) \<and>
    (status = TIDE_STATUS_OK \<and> p' = tide_packet_ref_init \<and>
       mset (rq_items q') = add_mset (packet_item h (p, epoch)) (mset (rq_items q)) \<and>
       filter (\<lambda>it. item_key it = packet_key p epoch) (rq_items q') =
         filter (\<lambda>it. item_key it = packet_key p epoch) (rq_items q) @ [packet_item h (p, epoch)]
     \<or> status = TIDE_STATUS_RESOURCE \<and> q' = q \<and> p' = p \<and> h' = h \<and> (rq_limit q \<le> rq_count q \<or> (\<exists>m. \<not> alloc m)))"
proof -
  let ?it = "packet_item h (p, epoch)"
  have cap: "rq_count q \<le> rq_capacity q" using assms(1) by (simp add: reorder_ok_def)
  have m: "mset (reorder_insert ?it (rq_items q)) = add_mset ?it (mset (rq_items q))" by (rule reorder.ins_mset)
  from cap assms(2) show ?thesis
  proof (cases rule: tide_reorder_queue_push_cases [where alloc = alloc and epoch = epoch])
    case (ok c p'')
    then have q': "q' = q\<lparr>rq_capacity := c, rq_items := reorder_insert ?it (rq_items q)\<rparr>" and
        r: "status = TIDE_STATUS_OK" "p' = tide_packet_ref_init" "h' = h"
      using assms(3) by (simp_all add: packet_item_def)
    have "rq_count q' = Suc (rq_count q)" using arg_cong [OF m, of size] q' by simp
    then have "reorder_ok q'"
      using assms(1) ok reorder.ins_sorted [of "rq_items q" ?it] q' by (simp add: reorder_ok_def)
    moreover have "queue_refs q' = queue_refs q + lease_ref (pr_lease p)"
      using queue_refs_mset [of q' ?it q] m q' by (simp add: packet_item_def)
    ultimately show ?thesis
      using assms(2) m r q' reorder_insert_stable [of "packet_key p epoch" ?it "rq_items q"]
      by (simp add: packet_item_def item_key_def ac_simps)
  next
    case fail
    then show ?thesis using assms by simp
  qed
qed

theorem tide_reorder_queue_push_contract_witness:
  "let q = \<lparr>rq_items = [], rq_capacity = 0, rq_limit = 4\<rparr>;
       r = tide_reorder_queue_push (\<lambda>_. True) lease_heap_empty (Some q) (Some tide_packet_ref_init) 3
   in fst r = TIDE_STATUS_OK \<and> reorder_ok (the (fst (snd r))) \<and> rq_count (the (fst (snd r))) = 1"
proof -
  let ?q = "\<lparr>rq_items = [], rq_capacity = 0, rq_limit = 4\<rparr>" and ?it = "packet_item lease_heap_empty (tide_packet_ref_init, 3)"
  have push: "tide_reorder_queue_push (\<lambda>_. True) lease_heap_empty (Some ?q) (Some tide_packet_ref_init) 3 =
      (TIDE_STATUS_OK, Some \<lparr>rq_items = [?it], rq_capacity = 4, rq_limit = 4\<rparr>, Some tide_packet_ref_init, lease_heap_empty)"
    by (simp add: tide_reorder_queue_push_def tide_reorder_grow_def packet_item_def tide_packet_ref_move_def
        tide_packet_ref_reset_def tide_payload_lease_release_def lease_touch_def Let_def)
  have "reorder_ok ?q" by (simp add: reorder_ok_def)
  from tide_reorder_queue_push_contract [OF this _ push, of "{#}"] push show ?thesis
    by (simp add: queue_refs_def leases_owned_empty Let_def)
qed

text \<open>C34: a pop blocks exactly on an empty queue; otherwise it hands out the packet of least rank with its lease and
  leaves the other packets, still sorted, in the queue.\<close>

theorem tide_reorder_queue_pop_contract:
  assumes "reorder_ok q" and "leases_owned h (R + queue_refs q)"
    and "tide_reorder_queue_pop_ready h (Some q) (Some out) = (status, Some q', Some p, h')"
  shows "reorder_ok q' \<and> (status = TIDE_STATUS_WOULD_BLOCK \<longleftrightarrow> rq_items q = []) \<and>
    (rq_items q \<noteq> [] \<longrightarrow> status = TIDE_STATUS_OK \<and> leases_owned h' (R + queue_refs q' + lease_ref (pr_lease p)) \<and>
      (\<exists>it. rq_items q = it # rq_items q' \<and> p = tide_packet_refresh h (ri_packet it) \<and>
        (\<forall>other \<in> set (rq_items q). item_key it \<le> item_key other)))"
proof (cases "rq_items q")
  case Nil
  then show ?thesis using assms by (simp add: tide_reorder_queue_pop_ready_def)
next
  case (Cons it its)
  let ?q = "q\<lparr>rq_items := its\<rparr>"
  have own: "leases_owned h ((R + queue_refs ?q) + lease_ref (pr_lease (ri_packet it)))"
    using assms(2) Cons by (simp add: queue_refs_def ac_simps)
  have r: "status = TIDE_STATUS_OK" "q' = ?q" "p = tide_packet_refresh h (ri_packet it)" "h' = h"
    using tide_reorder_queue_pop_eq [OF Cons own, of out] assms(3) by simp_all
  have "reorder_ok ?q" using assms(1) Cons by (auto simp: reorder_ok_def)
  moreover have "\<forall>other \<in> set (rq_items q). item_key it \<le> item_key other"
    using assms(1) Cons reorder.head_least [of it its] by (simp add: reorder_ok_def)
  ultimately show ?thesis using r own Cons by simp
qed

theorem tide_reorder_queue_pop_contract_witness:
  "let q = \<lparr>rq_items = [packet_item lease_heap_empty (tide_packet_ref_init, 1), packet_item lease_heap_empty (tide_packet_ref_init, 2)],
         rq_capacity = 2, rq_limit = 2\<rparr>
   in fst (tide_reorder_queue_pop_ready lease_heap_empty (Some q) (Some tide_packet_ref_init)) = TIDE_STATUS_OK"
proof -
  let ?a = "packet_item lease_heap_empty (tide_packet_ref_init, 1)" and ?b = "packet_item lease_heap_empty (tide_packet_ref_init, 2)"
  let ?q = "\<lparr>rq_items = [?a, ?b], rq_capacity = 2, rq_limit = 2\<rparr>"
  have ok: "reorder_ok ?q" by (simp add: reorder_ok_def packet_item_def item_key_def) (simp add: packet_key_def)
  have own: "leases_owned lease_heap_empty ({#} + queue_refs ?q)"
    by (simp add: queue_refs_def leases_owned_empty packet_item_def)
  have pop: "tide_reorder_queue_pop_ready lease_heap_empty (Some ?q) (Some tide_packet_ref_init) =
      (TIDE_STATUS_OK, Some \<lparr>rq_items = [?b], rq_capacity = 2, rq_limit = 2\<rparr>,
       Some (tide_packet_refresh lease_heap_empty (ri_packet ?a)), lease_heap_empty)"
    by (simp add: tide_reorder_queue_pop_ready_def packet_item_def tide_packet_ref_move_def
        tide_packet_ref_reset_def tide_payload_lease_release_def lease_touch_def Let_def eval_nat_numeral)
  from tide_reorder_queue_pop_contract [OF ok own pop] show ?thesis using pop by simp
qed

text \<open>C20: pushing any packets into an empty queue that has room for them and then popping until it blocks succeeds and gives
  back exactly the pushed packets, stably sorted by epoch, presentation time, decoding time and sequence number: each with
  its fields and its lease, the view of its payload refreshed from the lease. The lease heap is left as it was.\<close>

theorem reorder_session_sorted:
  assumes "length ps \<le> limit" and "leases_owned h (R + session_refs ps)" and "\<And>m. alloc m"
  shows "\<exists>q. reorder_push_all alloc h \<lparr>rq_items = [], rq_capacity = 0, rq_limit = limit\<rparr> ps = Some (q, h) \<and>
    reorder_pop_all (length ps) h q =
      Some (map (\<lambda>(p, e). tide_packet_refresh h p) (sort_key (\<lambda>(p, e). packet_key p e) ps), h)"
proof -
  let ?its = "map (packet_item h) ps" and ?q0 = "\<lparr>rq_items = [], rq_capacity = 0, rq_limit = limit\<rparr>"
  obtain c where "reorder_push_all alloc h ?q0 ps = Some (?q0\<lparr>rq_capacity := c, rq_items := fold reorder_insert ?its []\<rparr>, h)"
    using reorder_push_all_eq [of ?q0 ps alloc h R] assms by auto
  moreover define q where "q = ?q0\<lparr>rq_capacity := c, rq_items := fold reorder_insert ?its []\<rparr>"
  ultimately have push: "reorder_push_all alloc h ?q0 ps = Some (q, h)" by simp
  have m: "mset (rq_items q) = mset ?its" by (simp add: q_def reorder.ins_all_mset)
  have len: "rq_count q = length ps" using arg_cong [OF m, of size] by simp
  have "queue_refs q = sum_mset (image_mset (\<lambda>it. lease_ref (pr_lease (ri_packet it))) (mset ?its))"
    unfolding m [symmetric] by (simp add: queue_refs_def sum_mset_sum_list [symmetric])
  also have "\<dots> = session_refs ps"
    by (simp add: session_refs_def sum_mset_sum_list [symmetric] packet_item_def split_beta comp_def image_mset.compositionality)
  finally have "leases_owned h (R + queue_refs q)" using assms(2) by simp
  from reorder_pop_all_eq [OF this] have pop: "reorder_pop_all (length ps) h q =
      Some (map (\<lambda>it. tide_packet_refresh h (ri_packet it)) (rq_items q), h)" by (simp add: len)
  have "item_key (packet_item h pe) = (case pe of (p, e) \<Rightarrow> packet_key p e)" for pe
    by (simp add: item_key_def packet_item_def split_beta)
  then have "rq_items q = map (packet_item h) (sort_key (\<lambda>(p, e). packet_key p e) ps)"
    by (simp add: q_def reorder.ins_all_sort_key sort_key_map)
  with push pop show ?thesis by (simp add: packet_item_def tide_packet_refresh_idem split_beta comp_def)
qed

theorem reorder_session_sorted_witness:
  "let p = tide_packet_ref_init; r = p\<lparr>pr_info := (pr_info p)\<lparr>pk_flags := 1\<rparr>\<rparr> in
   \<exists>q. reorder_push_all (\<lambda>_. True) lease_heap_empty \<lparr>rq_items = [], rq_capacity = 0, rq_limit = 3\<rparr>
      [(p, 2), (r, 1), (p, 1)] = Some (q, lease_heap_empty) \<and>
    reorder_pop_all 3 lease_heap_empty q = Some ([r, p, p], lease_heap_empty)"
proof -
  define p r where d: "p = tide_packet_ref_init" "r = p\<lparr>pr_info := (pr_info p)\<lparr>pk_flags := 1\<rparr>\<rparr>"
  have l: "pr_lease p = None" "pr_lease r = None" by (simp_all add: d)
  have s: "sort_key (\<lambda>(p, e). packet_key p e) [(p, 2), (r, 1), (p, 1)] = [(r, 1), (p, 1), (p, 2)]"
    by (simp add: packet_key_def d less_eq_prod_def word_le_nat_alt)
  have "leases_owned lease_heap_empty ({#} + session_refs [(p, 2), (r, 1), (p, 1)])"
    by (simp add: session_refs_def l leases_owned_empty)
  from reorder_session_sorted [OF _ this, of 3 "\<lambda>_. True"] show ?thesis
    unfolding Let_def d [symmetric] s by (simp add: tide_packet_refresh_def l numeral_3_eq_3 del: reorder_push_all.simps reorder_pop_all.simps)
qed

text \<open>C39: the index builder keeps its entries sorted by record offset: it appends an entry that does not go backwards and
  refuses, changing nothing, one that does.\<close>

theorem tide_index_builder_sorted:
  assumes "sorted (map ie_record_offset (ib_entries b))"
    and "tide_index_builder_add alloc (Some b) (Some e) = (status, Some b')"
  shows "sorted (map ie_record_offset (ib_entries b')) \<and>
    (status = TIDE_STATUS_OK \<and> ib_entries b' = ib_entries b @ [e] \<or> status \<noteq> TIDE_STATUS_OK \<and> b' = b) \<and>
    (status = TIDE_STATUS_INDEX \<longleftrightarrow> (\<exists>x \<in> set (ib_entries b). ie_record_offset e < ie_record_offset x))"
proof -
  let ?es = "ib_entries b"
  have last: "(?es \<noteq> [] \<and> ie_record_offset e < ie_record_offset (?es ! (length ?es - 1))) \<longleftrightarrow>
      (\<exists>x \<in> set ?es. ie_record_offset e < ie_record_offset x)"
  proof (cases ?es rule: rev_cases)
    case (snoc xs y)
    then show ?thesis using assms(1) by (auto simp: sorted_append nth_append intro: less_le_trans)
  qed simp
  show ?thesis
    using assms(1) assms(2) [unfolded tide_index_builder_add_def option.case prod.case last]
    by (auto simp: sorted_append Let_def not_less split: if_splits)
qed

theorem tide_index_builder_sorted_witness:
  "let e = \<lparr>ie_track_id = 1, ie_packet_seq = 0, ie_pts = 0, ie_record_offset = 100\<rparr>;
       b = \<lparr>ib_entries = [e], ib_capacity = 16\<rparr>
   in fst (tide_index_builder_add (\<lambda>_. True) (Some b) (Some (e\<lparr>ie_record_offset := 99\<rparr>))) = TIDE_STATUS_INDEX"
proof -
  let ?e = "\<lparr>ie_track_id = 1, ie_packet_seq = 0, ie_pts = 0, ie_record_offset = 100\<rparr>"
  let ?b = "\<lparr>ib_entries = [?e], ib_capacity = 16\<rparr>"
  have "tide_index_builder_add (\<lambda>_. True) (Some ?b) (Some (?e\<lparr>ie_record_offset := 99\<rparr>)) = (TIDE_STATUS_INDEX, Some ?b)"
    by (simp add: tide_index_builder_add_def)
  with tide_index_builder_sorted [OF _ this] show ?thesis by (simp add: Let_def)
qed

text \<open>C35: destroying a queue releases exactly the leases of the packets in it and leaves it empty.\<close>

theorem tide_reorder_queue_destroy_releases:
  assumes "leases_owned h (R + queue_refs q)"
  shows "\<exists>q' h'. tide_reorder_queue_destroy h (Some q) = (Some q', h') \<and> rq_items q' = [] \<and> leases_owned h' R"
proof -
  have eq: "fold (\<lambda>it h. snd (tide_packet_ref_reset h (ri_packet it))) its h =
      fold (\<lambda>p h. tide_payload_lease_release h p) (map (\<lambda>it. pr_lease (ri_packet it)) its) h" for its h
    by (induction its arbitrary: h) (simp_all add: tide_packet_ref_reset_def)
  have "leases_owned h (R + (\<Sum>p\<leftarrow>map (\<lambda>it. pr_lease (ri_packet it)) (rq_items q). lease_ref p))"
    using assms by (simp add: queue_refs_def comp_def)
  from leases.release_all [OF this] show ?thesis
    unfolding tide_reorder_queue_destroy_def eq by simp
qed

theorem tide_reorder_queue_destroy_releases_witness:
  "\<exists>q' h'. tide_reorder_queue_destroy lease_heap_empty (Some \<lparr>rq_items = [], rq_capacity = 8, rq_limit = 9\<rparr>) = (Some q', h') \<and>
    leases_owned h' {#}"
  using tide_reorder_queue_destroy_releases [of lease_heap_empty "{#}" "\<lparr>rq_items = [], rq_capacity = 8, rq_limit = 9\<rparr>"]
  by (auto simp: queue_refs_def leases_owned_empty)

end
