(* ===== verification/Tide_Crc32c.thy ===== *)
theory Tide_Crc32c
  imports Tide_Common
begin

text \<open>
  The integrity code of \<open>src/format/crc32c.c\<close>: the bitwise CRC32C and the 32-byte digest adapter
  derived from it. A C pair of a pointer and a size is the list of the bytes it covers.

  The laws: one step of the inner loop is linear over exclusive-or and injective, so the checksum
  of a message is an injective function of any four consecutive bytes of it. The locale
  \<open>burst_checksum\<close> states what the record and header checks rely on, and the interpretation
  \<open>crc32c\<close> discharges it for the code's checksum.
\<close>

subsection \<open>Definitions\<close>

definition tide_crc_bit :: "u32 \<Rightarrow> u32" where
  "tide_crc_bit crc = (let mask = 0 - (crc AND 1) in drop_bit 1 crc XOR (0x82f63b78 AND mask))"

definition tide_crc_byte :: "u32 \<Rightarrow> byte \<Rightarrow> u32" where
  "tide_crc_byte crc b = (tide_crc_bit ^^ 8) (crc XOR ucast b)"

fun tide_crc_loop :: "u32 \<Rightarrow> bytes \<Rightarrow> u32" where
  "tide_crc_loop crc [] = crc"
| "tide_crc_loop crc (b # bs) = tide_crc_loop (tide_crc_byte crc b) bs"

definition tide_crc32c :: "bytes \<Rightarrow> u32" where
  "tide_crc32c data = NOT (tide_crc_loop 0xffffffff data)"

definition tide_u32_bytes :: "u32 \<Rightarrow> bytes" where
  "tide_u32_bytes v = [ucast (v AND 0xff), ucast (drop_bit 8 v AND 0xff),
     ucast (drop_bit 16 v AND 0xff), ucast (drop_bit 24 v AND 0xff)]"

definition tide_digest_adapter32 :: "bytes \<Rightarrow> bytes" where
  "tide_digest_adapter32 data = (let base = tide_crc32c data in
     concat (map (\<lambda>i. tide_u32_bytes (base XOR (0x9e3779b9 * of_nat (i + 1)))) [0..<8]))"

subsection \<open>One step is linear and injective\<close>

lemma tide_crc_bit_alt:
  "tide_crc_bit crc = drop_bit 1 crc XOR (if bit crc 0 then 0x82f63b78 else 0)"
proof (cases "bit crc 0")
  case True
  then have "crc AND 1 = 1" by (simp add: and_one_eq odd_iff_mod_2_eq_one bit_0)
  with True show ?thesis by (simp add: tide_crc_bit_def)
next
  case False
  then have "crc AND 1 = 0" by (simp add: and_one_eq even_iff_mod_2_eq_zero bit_0)
  with False show ?thesis by (simp add: tide_crc_bit_def)
qed

lemma tide_crc_bit_xor: "tide_crc_bit (x XOR y) = tide_crc_bit x XOR tide_crc_bit y"
  by (rule bit_word_eqI) (auto simp: tide_crc_bit_alt bit_simps)

lemma bit_crc_poly: "bit (0x82f63b78 :: u32) 31"
  by simp

lemma tide_crc_bit_0: "tide_crc_bit x = 0 \<Longrightarrow> x = 0"
proof -
  assume z: "tide_crc_bit x = 0"
  then have "\<not> bit (tide_crc_bit x) 31" by simp
  then have low: "\<not> bit x 0"
    by (auto simp: tide_crc_bit_alt bit_simps split: if_splits dest: bit_imp_le_length)
  with z have up: "drop_bit 1 x = 0" by (simp add: tide_crc_bit_alt)
  have "\<not> bit x n" for n
  proof (cases n)
    case (Suc m)
    have "bit (drop_bit 1 x) m = bit x n" by (simp add: bit_simps Suc)
    then show ?thesis using up by simp
  qed (use low in simp)
  then show "x = 0" by (simp add: bit_eq_iff)
qed

lemma xor_eq_0_iff: "(x XOR y = 0) = (x = (y :: 'a::len word))"
  by (auto simp: bit_eq_iff bit_simps)

lemma xor_cancel:
  fixes x y z :: "'a::len word"
  shows "(x XOR z = y XOR z) = (x = y)" and "(z XOR x = z XOR y) = (x = y)"
  by (auto simp: bit_eq_iff bit_simps)

lemma tide_crc_bit_inj: "tide_crc_bit x = tide_crc_bit y \<Longrightarrow> x = y"
  using tide_crc_bit_0 [of "x XOR y"] by (simp add: tide_crc_bit_xor xor_eq_0_iff)

lemma tide_crc_steps_inj: "(tide_crc_bit ^^ k) x = (tide_crc_bit ^^ k) y \<Longrightarrow> x = y"
  by (induction k) (auto dest: tide_crc_bit_inj)

lemma tide_crc_steps_xor:
  "(tide_crc_bit ^^ k) (x XOR y) = (tide_crc_bit ^^ k) x XOR (tide_crc_bit ^^ k) y"
  by (induction k) (auto simp: tide_crc_bit_xor)

lemma tide_crc_steps_push:
  "k \<le> 32 \<Longrightarrow> drop_bit (32 - k) y = 0 \<Longrightarrow> (tide_crc_bit ^^ k) (push_bit k y) = y"
proof (induction k arbitrary: y)
  case (Suc k)
  have hi: "\<not> bit y n" if "32 - Suc k \<le> n" for n
  proof -
    have "bit (drop_bit (32 - Suc k) y) (n - (32 - Suc k)) = bit y n" using that by (simp add: bit_simps)
    then show ?thesis using Suc.prems by simp
  qed
  have low: "\<not> bit (push_bit (Suc k) y) 0"
    by (simp add: bit_push_bit_iff del: push_bit_Suc)
  have "tide_crc_bit (push_bit (Suc k) y) = push_bit k y"
  proof (rule bit_word_eqI)
    fix n assume n: "n < LENGTH(32)"
    have "bit (tide_crc_bit (push_bit (Suc k) y)) n = bit (push_bit (Suc k) y) (Suc n)"
      using low n by (simp add: tide_crc_bit_alt bit_drop_bit_eq del: push_bit_Suc)
    also have "\<dots> = (k \<le> n \<and> bit y (n - k) \<and> n < 31)"
      by (auto simp: bit_push_bit_iff simp del: push_bit_Suc dest: bit_imp_le_length)
    also have "\<dots> = bit (push_bit k y) n"
      using hi [of "n - k"] n by (cases "n < 31") (auto simp: bit_push_bit_iff)
    finally show "bit (tide_crc_bit (push_bit (Suc k) y)) n = bit (push_bit k y) n" .
  qed
  moreover have "drop_bit (32 - k) y = 0"
    using hi by (intro bit_word_eqI) (auto simp: bit_simps)
  ultimately show ?case using Suc by (simp add: funpow_swap1 del: push_bit_Suc)
qed simp

subsection \<open>Any four consecutive bytes\<close>

fun le_word :: "bytes \<Rightarrow> u32" where
  "le_word [] = 0"
| "le_word (b # bs) = ucast b XOR push_bit 8 (le_word bs)"

lemma le_word_high: "8 * length bs \<le> n \<Longrightarrow> \<not> bit (le_word bs) n"
proof (induction bs arbitrary: n)
  case (Cons b bs)
  then have "\<not> bit (le_word bs) (n - 8)" and "8 \<le> n" by auto
  then show ?case by (auto simp: bit_simps dest: bit_imp_le_length)
qed simp

lemma drop_le_word: "length bs \<le> 3 \<Longrightarrow> drop_bit 24 (le_word bs) = 0"
  using le_word_high by (intro bit_word_eqI) (auto simp: bit_simps)

lemma le_word_inj:
  "length xs \<le> 4 \<Longrightarrow> length xs = length ys \<Longrightarrow> le_word xs = le_word ys \<Longrightarrow> xs = ys"
proof (induction xs arbitrary: ys)
  case (Cons x xs)
  then obtain y ys' where ys: "ys = y # ys'" and len: "length xs = length ys'" by (cases ys) auto
  have eq: "ucast x XOR push_bit 8 (le_word xs) = (ucast y XOR push_bit 8 (le_word ys') :: u32)"
    using Cons.prems ys by simp
  have "x = y"
  proof (rule bit_word_eqI)
    fix n assume "n < LENGTH(8)"
    then show "bit x n = bit y n"
      using arg_cong [OF eq, of "\<lambda>w. bit w n"] by (auto simp: bit_simps)
  qed
  moreover have "le_word xs = le_word ys'"
  proof (rule bit_word_eqI)
    fix n assume n: "n < LENGTH(32)"
    show "bit (le_word xs) n = bit (le_word ys') n"
    proof (cases "n < 24")
      case True
      then show ?thesis
        using arg_cong [OF eq, of "\<lambda>w. bit w (n + 8)"] by (auto simp: bit_simps dest: bit_imp_le_length)
    next
      case False
      then show ?thesis using le_word_high [of xs n] le_word_high [of ys' n] Cons.prems len ys by simp
    qed
  qed
  ultimately show ?case using Cons.IH [of ys'] Cons.prems len ys by simp
qed simp

lemma tide_crc_loop_word:
  "length xs \<le> 4 \<Longrightarrow> tide_crc_loop s xs = (tide_crc_bit ^^ (8 * length xs)) (s XOR le_word xs)"
proof (induction xs arbitrary: s)
  case (Cons b bs)
  have "(tide_crc_bit ^^ 8) (push_bit 8 (le_word bs)) = le_word bs"
    using Cons.prems drop_le_word [of bs] by (intro tide_crc_steps_push) auto
  then have step: "(tide_crc_bit ^^ 8) (s XOR le_word (b # bs)) = tide_crc_byte s b XOR le_word bs"
    using tide_crc_steps_xor [of 8 "s XOR ucast b" "push_bit 8 (le_word bs)"]
    by (simp only: tide_crc_byte_def le_word.simps xor.assoc)
  have "8 * length (b # bs) = 8 * length bs + 8" by simp
  then have "(tide_crc_bit ^^ (8 * length (b # bs))) w =
      (tide_crc_bit ^^ (8 * length bs)) ((tide_crc_bit ^^ 8) w)" for w
    by (simp only: funpow_add comp_apply)
  then show ?case using Cons.IH [of "tide_crc_byte s b"] Cons.prems step
    by (simp only: tide_crc_loop.simps) simp
qed simp

lemma tide_crc_loop_append: "tide_crc_loop s (xs @ ys) = tide_crc_loop (tide_crc_loop s xs) ys"
  by (induction xs arbitrary: s) auto

lemma tide_crc_loop_inj_state: "tide_crc_loop s xs = tide_crc_loop t xs \<Longrightarrow> s = t"
proof (induction xs arbitrary: s t)
  case (Cons b bs)
  then have "tide_crc_byte s b = tide_crc_byte t b" by simp
  then have "s XOR ucast b = t XOR ucast b" unfolding tide_crc_byte_def by (rule tide_crc_steps_inj)
  then have "s = t" by (simp only: xor_cancel)
  then show ?case .
qed simp

lemma tide_crc_loop_burst:
  assumes "length xs = length ys" and "length xs \<le> 4"
    and "tide_crc_loop s (xs @ post) = tide_crc_loop s (ys @ post)"
  shows "xs = ys"
proof -
  from assms(3) have "tide_crc_loop s xs = tide_crc_loop s ys"
    unfolding tide_crc_loop_append by (rule tide_crc_loop_inj_state)
  with assms have "(tide_crc_bit ^^ (8 * length xs)) (s XOR le_word xs) =
      (tide_crc_bit ^^ (8 * length xs)) (s XOR le_word ys)"
    by (simp only: tide_crc_loop_word)
  then have "s XOR le_word xs = s XOR le_word ys" by (rule tide_crc_steps_inj)
  then have "le_word xs = le_word ys" by (simp only: xor_cancel)
  with assms show ?thesis by (intro le_word_inj) auto
qed

subsection \<open>What the integrity checks rely on\<close>

locale burst_checksum =
  fixes checksum :: "bytes \<Rightarrow> u32"
  assumes burst: "length xs = length ys \<Longrightarrow> length xs \<le> 4 \<Longrightarrow>
    checksum (pre @ xs @ post) = checksum (pre @ ys @ post) \<Longrightarrow> xs = ys"
begin

lemma detects_byte: "i < length data \<Longrightarrow> data ! i \<noteq> b \<Longrightarrow> checksum (data[i := b]) \<noteq> checksum data"
  using burst [of "[data ! i]" "[b]" "take i data" "drop (Suc i) data"]
  by (auto simp: upd_conv_take_nth_drop id_take_nth_drop [symmetric])

lemma detects_burst:
  assumes "length data' = length data" and "i \<le> length data" and "data' \<noteq> data"
    and "take i data' = take i data" and "drop (i + 4) data' = drop (i + 4) data"
  shows "checksum data' \<noteq> checksum data"
proof
  assume eq: "checksum data' = checksum data"
  have split: "d = take i d @ take 4 (drop i d) @ drop (i + 4) d" for d :: bytes
    by (metis append_take_drop_id drop_drop add.commute)
  have "take 4 (drop i data') = take 4 (drop i data)"
    using eq assms(1) split [of data] split [of data'] assms(4,5)
    by (intro burst [of _ _ "take i data" "drop (i + 4) data"]) (auto simp: min_def)
  then show False using assms(3-5) split [of data] split [of data'] by simp
qed

end

interpretation crc32c: burst_checksum tide_crc32c
  by unfold_locales (metis tide_crc32c_def tide_crc_loop_append tide_crc_loop_burst bit.compl_eq_compl_iff)

subsection \<open>Evaluation on concrete bytes\<close>

lemma tide_crc_bit_num [tide_eval]:
  "tide_crc_bit crc = (if odd crc then drop_bit 1 crc XOR 0x82f63b78 else drop_bit 1 crc)"
  by (simp add: tide_crc_bit_alt bit_0)

lemma tide_crc_byte_num [tide_eval]:
  "tide_crc_byte crc b = tide_crc_bit (tide_crc_bit (tide_crc_bit (tide_crc_bit
     (tide_crc_bit (tide_crc_bit (tide_crc_bit (tide_crc_bit (crc XOR ucast b))))))))"
  by (simp add: tide_crc_byte_def eval_nat_numeral)

lemmas [tide_eval] = tide_crc32c_def

lemma tide_crc32c_check_value:
  "tide_crc32c [0x31, 0x32, 0x33, 0x34, 0x35, 0x36, 0x37, 0x38, 0x39] = 0xE3069283"
  by (simp add: tide_eval)

lemma length_tide_u32_bytes [simp]: "length (tide_u32_bytes v) = 4"
  by (simp add: tide_u32_bytes_def)

lemma length_tide_digest_adapter32 [simp]: "length (tide_digest_adapter32 data) = TIDE_DIGEST_SIZE"
  by (simp add: tide_digest_adapter32_def TIDE_DIGEST_SIZE_def Let_def upt_rec)

subsection \<open>Properties\<close>

text \<open>C24: two byte strings of equal length that differ only inside a window of four consecutive bytes (any error burst of
  up to 32 bits on a byte boundary) have different CRC32C values.\<close>

theorem tide_crc32c_detects_burst:
  assumes "length data' = length data" and "data' \<noteq> data" and "i \<le> length data"
    and "take i data' = take i data" and "drop (i + 4) data' = drop (i + 4) data"
  shows "tide_crc32c data' \<noteq> tide_crc32c data"
  using assms by (intro crc32c.detects_burst)

theorem tide_crc32c_detects_burst_witness:
  "tide_crc32c [0x31, 0x32, 0x33] \<noteq> tide_crc32c [0x31, 0x34, 0x35]"
  using tide_crc32c_detects_burst [of "[0x31, 0x32, 0x33]" "[0x31, 0x34, 0x35]" 1] by simp

end
