(* ===== verification/Tide_Reader.thy ===== *)
theory Tide_Reader
  imports Tide_Crc32c
begin

text \<open>
  The primitive reader and writer of \<open>src/format/reader.c\<close>: little-endian integers, byte runs and
  canonical ULEB128.

  A \<open>tide_reader\<close> is the list of the bytes it may read (the C pair \<open>data\<close>, \<open>size\<close>) and its offset.
  A read returns the value with the advanced reader, or \<open>None\<close> where the C function returns 0; every
  caller in the library gives up on the reader after a failed read, so the reader's state after a
  failure is not kept. The writers store bytes at an offset of a destination array.

  The locale \<open>field_reader\<close> is what the decoder relies on when it reads a field: a read consumes a
  prefix of the remaining bytes and depends on nothing else. It is closed under sequencing. The
  locale \<open>field_codec\<close> adds the encoder that a read inverts, and \<open>canonical_codec\<close> that a read accepts nothing but
  encodings.
\<close>

subsection \<open>Reader\<close>

record tide_reader =
  rd_data :: bytes
  rd_offset :: nat

abbreviation rd_size :: "tide_reader \<Rightarrow> nat" where
  "rd_size r \<equiv> length (rd_data r)"

definition rd_rest :: "tide_reader \<Rightarrow> bytes" where
  "rd_rest r = drop (rd_offset r) (rd_data r)"

definition rd_advance :: "nat \<Rightarrow> tide_reader \<Rightarrow> tide_reader" where
  "rd_advance n r = r\<lparr>rd_offset := rd_offset r + n\<rparr>"

definition tide_reader_init :: "bytes \<Rightarrow> tide_reader" where
  "tide_reader_init data = \<lparr>rd_data = data, rd_offset = 0\<rparr>"

definition tide_reader_has :: "tide_reader \<Rightarrow> nat \<Rightarrow> bool" where
  "tide_reader_has r n \<longleftrightarrow> rd_offset r \<le> rd_size r \<and> n \<le> rd_size r - rd_offset r"

definition tide_reader_read_u8 :: "tide_reader \<Rightarrow> (byte \<times> tide_reader) option" where
  "tide_reader_read_u8 r =
     (if \<not> tide_reader_has r 1 then None else Some (rd_rest r ! 0, rd_advance 1 r))"

definition tide_reader_read_u16 :: "tide_reader \<Rightarrow> (u16 \<times> tide_reader) option" where
  "tide_reader_read_u16 r =
     (if \<not> tide_reader_has r 2 then None
      else let p = rd_rest r in Some (ucast (p ! 0) OR push_bit 8 (ucast (p ! 1)), rd_advance 2 r))"

definition tide_reader_read_u32 :: "tide_reader \<Rightarrow> (u32 \<times> tide_reader) option" where
  "tide_reader_read_u32 r =
     (if \<not> tide_reader_has r 4 then None
      else let p = rd_rest r in
        Some (ucast (p ! 0) OR push_bit 8 (ucast (p ! 1)) OR push_bit 16 (ucast (p ! 2)) OR
              push_bit 24 (ucast (p ! 3)), rd_advance 4 r))"

definition tide_reader_read_u64 :: "tide_reader \<Rightarrow> (u64 \<times> tide_reader) option" where
  "tide_reader_read_u64 r = do {
     (lo, r) \<leftarrow> tide_reader_read_u32 r;
     (hi, r) \<leftarrow> tide_reader_read_u32 r;
     Some (ucast lo OR push_bit 32 (ucast hi), r) }"

definition tide_reader_read_i64 :: "tide_reader \<Rightarrow> (i64 \<times> tide_reader) option" where
  "tide_reader_read_i64 r = do {
     (raw, r) \<leftarrow> tide_reader_read_u64 r;
     Some (raw, r) }"

definition tide_reader_read_bytes :: "tide_reader \<Rightarrow> nat \<Rightarrow> (bytes \<times> tide_reader) option" where
  "tide_reader_read_bytes r n =
     (if \<not> tide_reader_has r n then None else Some (take n (rd_rest r), rd_advance n r))"

definition tide_reader_skip :: "tide_reader \<Rightarrow> nat \<Rightarrow> tide_reader option" where
  "tide_reader_skip r n = map_option snd (tide_reader_read_bytes r n)"

definition TIDE_MAX_HEADER_VARINT_BYTES :: nat where "TIDE_MAX_HEADER_VARINT_BYTES = 10"

function tide_uleb128_loop ::
    "nat \<Rightarrow> nat \<Rightarrow> u64 \<Rightarrow> tide_reader \<Rightarrow> (u64 \<times> tide_reader) option" where
  "tide_uleb128_loop i shift value r =
     (if i < TIDE_MAX_HEADER_VARINT_BYTES then
        (case tide_reader_read_u8 r of
           None \<Rightarrow> None
         | Some (b, r) \<Rightarrow>
             if shift = 63 \<and> b AND 0x7e \<noteq> 0 then None
             else let value = value OR push_bit shift (ucast (b AND 0x7f)) in
               if b AND 0x80 = 0 then (if 0 < i \<and> b = 0 then None else Some (value, r))
               else tide_uleb128_loop (i + 1) (shift + 7) value r)
      else None)"
  by pat_completeness auto
termination
  by (relation "measure (\<lambda>(i, shift, value, r). TIDE_MAX_HEADER_VARINT_BYTES - i)") auto

declare tide_uleb128_loop.simps [simp del]

definition tide_reader_read_uleb128 :: "tide_reader \<Rightarrow> (u64 \<times> tide_reader) option" where
  "tide_reader_read_uleb128 r = tide_uleb128_loop 0 0 0 r"

subsection \<open>Writers\<close>

definition tide_write_u16 :: "bytes \<Rightarrow> nat \<Rightarrow> u16 \<Rightarrow> bytes" where
  "tide_write_u16 dst off v =
     put_bytes dst off [ucast (v AND 0xff), ucast (drop_bit 8 v AND 0xff)]"

definition tide_write_u32 :: "bytes \<Rightarrow> nat \<Rightarrow> u32 \<Rightarrow> bytes" where
  "tide_write_u32 dst off v = put_bytes dst off (tide_u32_bytes v)"

definition tide_write_u64 :: "bytes \<Rightarrow> nat \<Rightarrow> u64 \<Rightarrow> bytes" where
  "tide_write_u64 dst off v =
     tide_write_u32 (tide_write_u32 dst off (ucast (v AND 0xffffffff))) (off + 4) (ucast (drop_bit 32 v))"

definition tide_write_i64 :: "bytes \<Rightarrow> nat \<Rightarrow> i64 \<Rightarrow> bytes" where
  "tide_write_i64 dst off v = tide_write_u64 dst off v"

lemma unat_drop7: "unat (drop_bit 7 (v :: u64)) = unat v div 128"
  by (simp only: unat_drop_bit_eq) (simp add: drop_bit_eq_div)

lemma drop_bit_less: "drop_bit 7 (v :: u64) \<noteq> 0 \<Longrightarrow> unat (drop_bit 7 v) < unat v"
  unfolding unat_gt_0 [symmetric] unat_drop7 by simp

lemma drop_bit_less_ge: "0x80 \<le> (v :: u64) \<Longrightarrow> unat (drop_bit 7 v) < unat v"
  unfolding unat_drop7 by (simp add: word_le_nat_alt)

function tide_uleb128_size :: "u64 \<Rightarrow> nat" where
  "tide_uleb128_size v = (if 0x80 \<le> v then tide_uleb128_size (drop_bit 7 v) + 1 else 1)"
  by pat_completeness auto
termination
  by (relation "measure unat") (auto intro: drop_bit_less_ge)

declare tide_uleb128_size.simps [simp del]

text \<open>The bytes that the loop of \<open>tide_write_uleb128\<close> stores, from its first iteration on.\<close>

function tide_uleb128_bytes :: "u64 \<Rightarrow> bytes" where
  "tide_uleb128_bytes v =
     (let b = ucast (v AND 0x7f); v' = drop_bit 7 v in
      if v' \<noteq> 0 then (b OR 0x80) # tide_uleb128_bytes v' else [b])"
  by pat_completeness auto
termination
  by (relation "measure unat") (auto intro: drop_bit_less)

declare tide_uleb128_bytes.simps [simp del]

definition tide_write_uleb128 :: "bytes \<Rightarrow> nat \<Rightarrow> u64 \<Rightarrow> bytes \<times> nat" where
  "tide_write_uleb128 dst off v =
     (put_bytes dst off (tide_uleb128_bytes v), length (tide_uleb128_bytes v))"

subsection \<open>What a client of the reader relies on\<close>

definition rd_ok :: "tide_reader \<Rightarrow> bool" where
  "rd_ok r \<longleftrightarrow> rd_offset r \<le> rd_size r"

lemma rd_ok_init [simp]: "rd_ok (tide_reader_init data)"
  by (simp add: rd_ok_def tide_reader_init_def)

lemma rd_rest_init [simp]: "rd_rest (tide_reader_init data) = data"
  by (simp add: rd_rest_def tide_reader_init_def)

lemma rd_offset_init [simp]: "rd_offset (tide_reader_init data) = 0"
  by (simp add: tide_reader_init_def)

lemma rd_data_init [simp]: "rd_data (tide_reader_init data) = data"
  by (simp add: tide_reader_init_def)

lemma rd_offset_advance [simp]: "rd_offset (rd_advance n r) = rd_offset r + n"
  by (simp add: rd_advance_def)

lemma rd_data_advance [simp]: "rd_data (rd_advance n r) = rd_data r"
  by (simp add: rd_advance_def)

lemma rd_advance_advance [simp]: "rd_advance m (rd_advance n r) = rd_advance (n + m) r"
  by (simp add: rd_advance_def add.assoc)

lemma rd_advance_0 [simp]: "rd_advance 0 r = r"
  by (simp add: rd_advance_def)

lemma rd_rest_advance [simp]: "rd_rest (rd_advance n r) = drop n (rd_rest r)"
  by (simp add: rd_rest_def add.commute)

lemma rd_ok_advance [simp]: "rd_ok r \<Longrightarrow> n \<le> length (rd_rest r) \<Longrightarrow> rd_ok (rd_advance n r)"
  by (simp add: rd_ok_def rd_rest_def)

lemma tide_reader_has_rest: "rd_ok r \<Longrightarrow> tide_reader_has r n \<longleftrightarrow> n \<le> length (rd_rest r)"
  by (simp add: tide_reader_has_def rd_ok_def rd_rest_def)

locale field_reader =
  fixes read :: "tide_reader \<Rightarrow> ('a \<times> tide_reader) option"
  assumes reads_prefix: "rd_ok r \<Longrightarrow> read r = Some (x, r') \<Longrightarrow>
    \<exists>n \<le> length (rd_rest r). r' = rd_advance n r \<and>
      (\<forall>q ys. rd_ok q \<longrightarrow> rd_rest q = take n (rd_rest r) @ ys \<longrightarrow> read q = Some (x, rd_advance n q))"
begin

lemma ok_kept: "rd_ok r \<Longrightarrow> read r = Some (x, r') \<Longrightarrow> rd_ok r'"
  using reads_prefix by fastforce

lemma data_kept: "rd_ok r \<Longrightarrow> read r = Some (x, r') \<Longrightarrow> rd_data r' = rd_data r"
  using reads_prefix by fastforce

lemma offset_grows: "rd_ok r \<Longrightarrow> read r = Some (x, r') \<Longrightarrow> rd_offset r \<le> rd_offset r'"
  using reads_prefix by fastforce

lemma extends:
  assumes "read (tide_reader_init xs) = Some (x, r')"
  shows "read (tide_reader_init (xs @ ys)) = Some (x, rd_advance (rd_offset r') (tide_reader_init (xs @ ys)))"
proof -
  obtain n where n: "n \<le> length xs" "r' = rd_advance n (tide_reader_init xs)"
    and q: "\<And>q zs. rd_ok q \<Longrightarrow> rd_rest q = take n xs @ zs \<Longrightarrow> read q = Some (x, rd_advance n q)"
    using reads_prefix [OF rd_ok_init assms] by auto
  have "rd_rest (tide_reader_init (xs @ ys)) = take n xs @ (drop n xs @ ys)" by simp
  from q [OF rd_ok_init this] n show ?thesis by simp
qed

end

lemma field_reader_bind:
  assumes f: "field_reader f" and g: "\<And>x. field_reader (g x)"
  shows "field_reader (\<lambda>r. do { (x, r) \<leftarrow> f r; g x r })"
proof
  fix r z r'
  assume ok: "rd_ok r" and eq: "do { (x, r) \<leftarrow> f r; g x r } = Some (z, r')"
  then obtain x r1 where 1: "f r = Some (x, r1)" and 2: "g x r1 = Some (z, r')"
    by (auto simp: bind_eq_Some_conv)
  from field_reader.reads_prefix [OF f ok 1] obtain n where n: "n \<le> length (rd_rest r)" "r1 = rd_advance n r"
    and fq: "\<And>q ys. rd_ok q \<Longrightarrow> rd_rest q = take n (rd_rest r) @ ys \<Longrightarrow> f q = Some (x, rd_advance n q)" by blast
  have ok1: "rd_ok r1" using ok n by simp
  from field_reader.reads_prefix [OF g ok1 2] obtain m where m: "m \<le> length (rd_rest r1)" "r' = rd_advance m r1"
    and gq: "\<And>q ys. rd_ok q \<Longrightarrow> rd_rest q = take m (rd_rest r1) @ ys \<Longrightarrow> g x q = Some (z, rd_advance m q)" by blast
  have "do { (x, r) \<leftarrow> f q; g x r } = Some (z, rd_advance (n + m) q)"
    if q: "rd_ok q" "rd_rest q = take (n + m) (rd_rest r) @ ys" for q ys
  proof -
    have rest: "rd_rest q = take n (rd_rest r) @ take m (drop n (rd_rest r)) @ ys"
      using q(2) by (simp add: take_add)
    have "rd_ok (rd_advance n q)" using q(1) rest n(1) by (intro rd_ok_advance) auto
    moreover have "rd_rest (rd_advance n q) = take m (rd_rest r1) @ ys"
      using rest n by simp
    ultimately have "g x (rd_advance n q) = Some (z, rd_advance m (rd_advance n q))" by (rule gq)
    then show ?thesis using fq [OF q(1) rest] by simp
  qed
  moreover have "n + m \<le> length (rd_rest r)" using n m by simp
  ultimately show "\<exists>n\<le>length (rd_rest r). r' = rd_advance n r \<and>
      (\<forall>q ys. rd_ok q \<longrightarrow> rd_rest q = take n (rd_rest r) @ ys \<longrightarrow>
        do { (x, r) \<leftarrow> f q; g x r } = Some (z, rd_advance n q))"
    using n m by auto
qed

lemma field_reader_return: "field_reader (\<lambda>r. Some (x, r))"
  by unfold_locales (auto intro!: exI [of _ 0])

lemma field_reader_fail: "field_reader (\<lambda>r. None)"
  by unfold_locales simp

text \<open>A fixed-width read: the value is a function of the next \<open>k\<close> bytes.\<close>

lemma field_reader_fixed:
  assumes "\<And>r. rd_ok r \<Longrightarrow> f r = (if k \<le> length (rd_rest r) then Some (h (take k (rd_rest r)), rd_advance k r) else None)"
  shows "field_reader f"
  by unfold_locales (auto simp: assms min_def split: if_splits intro!: exI [of _ k])

lemma nth_take_rest: "i < k \<Longrightarrow> rd_rest r ! i = take k (rd_rest r) ! i"
  by simp

interpretation u8: field_reader tide_reader_read_u8
  by (rule field_reader_fixed [where k = 1 and h = "\<lambda>p. p ! 0"])
     (simp add: tide_reader_read_u8_def tide_reader_has_rest)

interpretation u16: field_reader tide_reader_read_u16
  by (rule field_reader_fixed [where k = 2 and h = "\<lambda>p. ucast (p ! 0) OR push_bit 8 (ucast (p ! 1))"])
     (simp add: tide_reader_read_u16_def tide_reader_has_rest Let_def)

interpretation u32: field_reader tide_reader_read_u32
  by (rule field_reader_fixed [where k = 4 and h = "\<lambda>p. ucast (p ! 0) OR push_bit 8 (ucast (p ! 1)) OR
        push_bit 16 (ucast (p ! 2)) OR push_bit 24 (ucast (p ! 3))"])
     (simp add: tide_reader_read_u32_def tide_reader_has_rest Let_def)

interpretation u64: field_reader tide_reader_read_u64
  unfolding tide_reader_read_u64_def
  by (intro field_reader_bind field_reader_return u32.field_reader_axioms)

interpretation i64: field_reader tide_reader_read_i64
  unfolding tide_reader_read_i64_def
  by (intro field_reader_bind field_reader_return u64.field_reader_axioms)

interpretation raw: field_reader "\<lambda>r. tide_reader_read_bytes r n" for n
  by (rule field_reader_fixed [where k = "n" and h = "\<lambda>p. p"])
     (simp add: tide_reader_read_bytes_def tide_reader_has_rest)

lemma field_reader_uleb128_loop: "field_reader (tide_uleb128_loop i shift value)"
proof (induction "TIDE_MAX_HEADER_VARINT_BYTES - i" arbitrary: i shift "value")
  case 0
  then have "tide_uleb128_loop i shift value = (\<lambda>r. None)"
    by (intro ext) (simp add: tide_uleb128_loop.simps [of i])
  then show ?case by (simp add: field_reader_fail)
next
  case (Suc k)
  then have i: "i < TIDE_MAX_HEADER_VARINT_BYTES" and k: "k = TIDE_MAX_HEADER_VARINT_BYTES - (i + 1)" by auto
  define g where "g = (\<lambda>b r. if shift = 63 \<and> b AND 0x7e \<noteq> (0 :: byte) then None
     else let value = value OR push_bit shift (ucast (b AND 0x7f)) in
       if b AND 0x80 = 0 then (if 0 < i \<and> b = 0 then None else Some (value, r))
       else tide_uleb128_loop (i + 1) (shift + 7) value r)"
  have "field_reader (g b)" for b
    unfolding g_def Let_def using Suc.hyps(1) [OF k]
    by (cases "shift = 63 \<and> b AND 0x7e \<noteq> 0"; cases "b AND 0x80 = 0"; cases "0 < i \<and> b = 0")
       (auto intro: field_reader_fail field_reader_return)
  then have "field_reader (\<lambda>r. do { (b, r) \<leftarrow> tide_reader_read_u8 r; g b r })"
    by (intro field_reader_bind u8.field_reader_axioms)
  moreover have "tide_uleb128_loop i shift value = (\<lambda>r. do { (b, r) \<leftarrow> tide_reader_read_u8 r; g b r })"
    using i by (intro ext) (simp add: tide_uleb128_loop.simps [of i] g_def Option.bind_def split: option.splits)
  ultimately show ?case by simp
qed

interpretation uleb128: field_reader tide_reader_read_uleb128
  unfolding tide_reader_read_uleb128_def by (rule field_reader_uleb128_loop)

subsection \<open>Encoders and round trips\<close>

definition u16_bytes :: "u16 \<Rightarrow> bytes" where
  "u16_bytes v = [ucast (v AND 0xff), ucast (drop_bit 8 v AND 0xff)]"

definition u64_bytes :: "u64 \<Rightarrow> bytes" where
  "u64_bytes v = tide_u32_bytes (ucast (v AND 0xffffffff)) @ tide_u32_bytes (ucast (drop_bit 32 v))"

lemma length_u16_bytes [simp]: "length (u16_bytes v) = 2"
  by (simp add: u16_bytes_def)

lemma length_u64_bytes [simp]: "length (u64_bytes v) = 8"
  by (simp add: u64_bytes_def)

lemma tide_write_u16_eq: "tide_write_u16 dst off v = put_bytes dst off (u16_bytes v)"
  by (simp add: tide_write_u16_def u16_bytes_def)

lemma tide_write_u64_eq:
  assumes "off + 8 \<le> length dst"
  shows "tide_write_u64 dst off v = put_bytes dst off (u64_bytes v)"
  using assms by (simp add: tide_write_u64_def tide_write_u32_def put_bytes_def u64_bytes_def min_def add.commute)

locale field_codec = field_reader read for read :: "tide_reader \<Rightarrow> ('a \<times> tide_reader) option" +
  fixes enc :: "'a \<Rightarrow> bytes"
  assumes decodes: "rd_ok r \<Longrightarrow> rd_rest r = enc x @ ys \<Longrightarrow> read r = Some (x, rd_advance (length (enc x)) r)"
begin

lemma enc_inj: "enc x @ xs = enc y @ ys \<Longrightarrow> x = y"
  using decodes [of "tide_reader_init (enc x @ xs)" x xs] decodes [of "tide_reader_init (enc x @ xs)" y ys]
  by simp

end

interpretation u8c: field_codec tide_reader_read_u8 "\<lambda>b. [b]"
  by unfold_locales (simp add: tide_reader_read_u8_def tide_reader_has_rest)

interpretation u16c: field_codec tide_reader_read_u16 u16_bytes
  by unfold_locales
     (simp add: tide_reader_read_u16_def tide_reader_has_rest u16_bytes_def Let_def join_split_u16)

interpretation u32c: field_codec tide_reader_read_u32 tide_u32_bytes
  by unfold_locales
     (simp add: tide_reader_read_u32_def tide_reader_has_rest tide_u32_bytes_def Let_def
        join_split_u32 numeral_2_eq_2 numeral_3_eq_3)

interpretation u64c: field_codec tide_reader_read_u64 u64_bytes
  by unfold_locales
     (simp add: tide_reader_read_u64_def u64_bytes_def u32c.decodes join_split_u64)

interpretation i64c: field_codec tide_reader_read_i64 u64_bytes
  by unfold_locales (simp add: tide_reader_read_i64_def u64c.decodes)

lemma tide_reader_read_bytes_rest:
  "rd_ok r \<Longrightarrow> rd_rest r = bs @ ys \<Longrightarrow> tide_reader_read_bytes r (length bs) = Some (bs, rd_advance (length bs) r)"
  by (simp add: tide_reader_read_bytes_def tide_reader_has_rest)

lemma tide_reader_skip_rest:
  "rd_ok r \<Longrightarrow> n \<le> length (rd_rest r) \<Longrightarrow> tide_reader_skip r n = Some (rd_advance n r)"
  by (simp add: tide_reader_skip_def tide_reader_read_bytes_def tide_reader_has_rest)

subsection \<open>ULEB128: the reader inverts the writer and accepts nothing else\<close>

lemma bit_0x80: "bit (0x80 :: byte) n \<longleftrightarrow> n = 7"
proof -
  have "(0x80 :: byte) = 2 ^ 7" by simp
  then show ?thesis by (simp only: bit_exp_iff) auto
qed

lemma bit_128_int [tide_bits]: "bit (128 :: int) n \<longleftrightarrow> n = 7"
proof -
  have "(128 :: int) = 2 ^ 7" by simp
  then show ?thesis by (simp only: bit_exp_iff) auto
qed

lemma bit_low_byte: "bit (ucast (v AND 0x7f) :: byte) n \<longleftrightarrow> n < 7 \<and> bit (v :: u64) n"
  by (auto simp: tide_bits bit_simps)

lemma uleb_last_byte:
  assumes "drop_bit 7 (w :: u64) = 0"
  shows "(ucast ((ucast (w AND 0x7f) :: byte) AND 0x7f) :: u64) = w"
    and "(ucast (w AND 0x7f) :: byte) AND 0x80 = 0"
    and "(ucast (w AND 0x7f) :: byte) = 0 \<longleftrightarrow> w = 0"
proof -
  have hi: "n < 7" if "bit w n" for n
  proof (rule ccontr)
    assume "\<not> n < 7"
    then have "bit (drop_bit 7 w) (n - 7) = bit w n" by (simp add: bit_simps)
    then show False using assms that by simp
  qed
  show w: "(ucast ((ucast (w AND 0x7f) :: byte) AND 0x7f) :: u64) = w"
    using hi by (intro bit_word_eqI) (auto simp: tide_bits bit_simps dest: hi)
  show "(ucast (w AND 0x7f) :: byte) AND 0x80 = 0"
    by (rule bit_word_eqI) (auto simp: bit_128_int bit_low_byte bit_and_iff)
  show "(ucast (w AND 0x7f) :: byte) = 0 \<longleftrightarrow> w = 0"
  proof
    assume "(ucast (w AND 0x7f) :: byte) = 0"
    with w show "w = 0" by (simp only: and_zero_eq zero_and_eq unsigned_0)
  qed simp
qed
lemma uleb_more_byte:
  fixes w :: u64
  shows "(ucast ((ucast (w AND 0x7f) OR 0x80 :: byte) AND 0x7f) :: u64) = w AND 0x7f"
    and "(ucast (w AND 0x7f) OR 0x80 :: byte) AND 0x80 \<noteq> 0"
proof -
  have "bit (ucast (w AND 0x7f) OR 0x80 :: byte) n \<longleftrightarrow> n < 7 \<and> bit w n \<or> n = 7" for n
    by (simp only: bit_or_iff bit_0x80 bit_low_byte)
  then show "(ucast ((ucast (w AND 0x7f) OR 0x80 :: byte) AND 0x7f) :: u64) = w AND 0x7f"
    by (intro bit_word_eqI) (auto simp only: bit_unsigned_iff bit_and_iff low7_mask_eq bit_mask_iff possible_bit_word, simp)
  have "bit ((ucast (w AND 0x7f) OR 0x80 :: byte) AND 0x80) 7"
    by (simp add: bit_0x80 bit_simps)
  then show "(ucast (w AND 0x7f) OR 0x80 :: byte) AND 0x80 \<noteq> 0"
    by (metis bit_0_eq bot_apply bot_bool_def)
qed

lemma uleb_small_top:
  assumes "\<And>n. bit (w :: u64) n \<Longrightarrow> n < 1"
  shows "(ucast (w AND 0x7f) :: byte) AND 0x7e = 0"
proof -
  have "\<not> bit (0x7e :: byte) 0" by simp
  moreover have "n = 0" if "bit w n" for n using assms [OF that] by simp
  ultimately show ?thesis
    by (intro bit_word_eqI) (metis bit_and_iff bit_low_byte bit_0_eq bot_apply bot_bool_def)
qed

lemma tide_uleb128_loop_decodes:
  assumes "i < 10" and "\<And>n. bit w n \<Longrightarrow> n < 64 - 7 * i" and "0 < i \<longrightarrow> w \<noteq> 0"
    and "rd_ok r" and "rd_rest r = tide_uleb128_bytes w @ ys"
  shows "tide_uleb128_loop i (7 * i) v r =
    Some (v OR push_bit (7 * i) w, rd_advance (length (tide_uleb128_bytes w)) r)"
  using assms
proof (induction w arbitrary: i v r rule: tide_uleb128_bytes.induct)
  case (1 w)
  note bound = "1.prems"(2)
  have top: "i = 9 \<Longrightarrow> bit w n \<Longrightarrow> n < 1" for n using bound [of n] by simp
  show ?case
  proof (cases "drop_bit 7 w = 0")
    case True
    let ?b = "ucast (w AND 0x7f) :: byte"
    have bs: "tide_uleb128_bytes w = [?b]" using True by (simp add: tide_uleb128_bytes.simps [of w])
    then have "tide_reader_read_u8 r = Some (?b, rd_advance 1 r)"
      using "1.prems" u8c.decodes [of r ?b ys] by simp
    then show ?thesis
      using "1.prems"(1,3) uleb_last_byte [OF True] uleb_small_top [of w] top bs
      by (auto simp: tide_uleb128_loop.simps [of i] TIDE_MAX_HEADER_VARINT_BYTES_def)
  next
    case False
    let ?b = "ucast (w AND 0x7f) OR 0x80 :: byte" and ?w = "drop_bit 7 w"
    have bs: "tide_uleb128_bytes w = ?b # tide_uleb128_bytes ?w"
      using False by (simp add: tide_uleb128_bytes.simps [of w] Let_def)
    then have rd: "tide_reader_read_u8 r = Some (?b, rd_advance 1 r)"
      using "1.prems" u8c.decodes [of r ?b "tide_uleb128_bytes ?w @ ys"] by simp
    obtain m where m: "bit ?w m" using False by (auto simp: bit_eq_iff)
    then have i9: "i + 1 < 10" using bound [of "7 + m"] "1.prems"(1) by (simp add: bit_simps)
    have "tide_uleb128_loop (i + 1) (7 * (i + 1)) (v OR push_bit (7 * i) (w AND 0x7f)) (rd_advance 1 r) =
        Some ((v OR push_bit (7 * i) (w AND 0x7f)) OR push_bit (7 * (i + 1)) ?w,
              rd_advance (length (tide_uleb128_bytes ?w)) (rd_advance 1 r))"
    proof (rule "1.IH" [OF refl refl False, of "i + 1"])
      show "n < 64 - 7 * (i + 1)" if "bit ?w n" for n
        using bound [of "7 + n"] that by (simp add: bit_simps)
    qed (use False i9 bs "1.prems" in auto)
    moreover have "(v OR push_bit (7 * i) (w AND 0x7f)) OR push_bit (7 * (i + 1)) ?w = v OR push_bit (7 * i) w"
    proof (rule bit_word_eqI)
      fix n
      show "bit ((v OR push_bit (7 * i) (w AND 0x7f)) OR push_bit (7 * (i + 1)) ?w) n = bit (v OR push_bit (7 * i) w) n"
        by (cases "n < 7 * i + 7") (auto simp: low7_mask_eq bit_simps)
    qed
    ultimately show ?thesis
      using "1.prems"(1) i9 rd uleb_more_byte [of w] bs
      by (simp add: tide_uleb128_loop.simps [of i] TIDE_MAX_HEADER_VARINT_BYTES_def add.commute)
  qed
qed

interpretation uleb128c: field_codec tide_reader_read_uleb128 tide_uleb128_bytes
proof
  fix r x ys
  assume "rd_ok r" "rd_rest r = tide_uleb128_bytes x @ ys"
  then show "tide_reader_read_uleb128 r = Some (x, rd_advance (length (tide_uleb128_bytes x)) r)"
    using tide_uleb128_loop_decodes [of 0 x r ys 0] bit_imp_le_length [of x]
    by (simp add: tide_reader_read_uleb128_def)
qed

text \<open>A successful read consumed exactly the canonical encoding of its value.\<close>

lemma tide_uleb128_bytes_head:
  fixes w :: u64 and b :: byte
  assumes "\<And>n. bit w n \<Longrightarrow> n < 57"
  shows "tide_uleb128_bytes (ucast (b AND 0x7f) OR push_bit 7 w) =
    (if w \<noteq> 0 then ((b AND 0x7f) OR 0x80) # tide_uleb128_bytes w else [b AND 0x7f])"
proof -
  let ?v = "ucast (b AND 0x7f) OR push_bit 7 w"
  have "drop_bit 7 ?v = w"
    using assms by (intro bit_word_eqI) (force simp: low7_mask_eq bit_simps)
  moreover have "ucast (?v AND 0x7f) = (b AND 0x7f)"
    by (rule bit_word_eqI) (auto simp: low7_mask_eq bit_simps)
  ultimately show ?thesis
    by (subst tide_uleb128_bytes.simps) (simp only: Let_def)
qed

lemma byte_and_0x80: "(b :: byte) AND 0x80 = 0 \<longleftrightarrow> \<not> bit b 7"
proof
  assume "b AND 0x80 = 0"
  then have "\<not> bit (b AND 0x80) 7" by simp
  then show "\<not> bit b 7" by (simp only: bit_and_iff bit_0x80) simp
next
  assume "\<not> bit b 7"
  then show "b AND 0x80 = 0" by (intro bit_word_eqI) (auto simp only: bit_and_iff bit_0x80 bit_0_eq bot_apply bot_bool_def)
qed

lemma low_byte_id: "b AND 0x80 = 0 \<Longrightarrow> b AND 0x7f = (b :: byte)"
  unfolding byte_and_0x80
  by (intro bit_word_eqI) (auto simp: low7_mask_eq bit_simps less_Suc_eq eval_nat_numeral)

lemma high_byte_id: "b AND 0x80 \<noteq> 0 \<Longrightarrow> (b AND 0x7f) OR 0x80 = (b :: byte)"
  unfolding byte_and_0x80
  by (intro bit_word_eqI) (auto simp: low7_mask_eq bit_simps bit_128_int less_Suc_eq eval_nat_numeral)

lemma byte_top_bit: "b AND 0x7e = (0 :: byte) \<Longrightarrow> bit (b AND 0x7f) n \<Longrightarrow> n = 0"
proof -
  assume z: "b AND 0x7e = (0 :: byte)" and n: "bit (b AND 0x7f) n"
  have "bit (0x7e :: byte) n" if "n \<noteq> 0" "n < 7"
  proof -
    have "n \<in> {1, 2, 3, 4, 5, 6}" using that by auto
    then show ?thesis by auto
  qed
  moreover have "n < 7" using n by (simp add: low7_mask_eq bit_simps)
  moreover have "\<not> (bit b n \<and> bit (0x7e :: byte) n)" using z by (metis bit_and_iff bit_0_eq bot_apply bot_bool_def)
  ultimately show "n = 0" using n by (auto simp only: bit_and_iff)
qed

lemma uleb_last_zero: "(ucast (b :: byte) :: u64) = 0 \<longleftrightarrow> b = 0"
proof
  assume z: "(ucast b :: u64) = 0"
  show "b = 0"
  proof (rule bit_word_eqI)
    fix n assume "n < LENGTH(8)"
    then show "bit b n = bit (0 :: byte) n"
      using arg_cong [OF z, of "\<lambda>w. bit w n"] by (simp add: bit_simps)
  qed
qed simp

lemma tide_uleb128_loop_canonical:
  assumes "tide_uleb128_loop i (7 * i) v r = Some (x, r')" and "rd_ok r"
  shows "\<exists>w. x = v OR push_bit (7 * i) w \<and> (\<forall>n. bit w n \<longrightarrow> n < 64 - 7 * i) \<and> (0 < i \<longrightarrow> w \<noteq> 0) \<and>
    r' = rd_advance (length (tide_uleb128_bytes w)) r \<and>
    take (length (tide_uleb128_bytes w)) (rd_rest r) = tide_uleb128_bytes w"
  using assms
proof (induction "10 - i" arbitrary: i v r)
  case 0
  then show ?case by (simp add: tide_uleb128_loop.simps [of i] TIDE_MAX_HEADER_VARINT_BYTES_def)
next
  case (Suc k)
  then have i: "i < 10" and k: "k = 10 - (i + 1)" by auto
  obtain b where rd: "tide_reader_read_u8 r = Some (b, rd_advance 1 r)" and b: "take 1 (rd_rest r) = [b]"
    and len: "1 \<le> length (rd_rest r)"
    using Suc.prems i
    by (cases "rd_rest r")
       (auto simp: tide_uleb128_loop.simps [of i] tide_reader_read_u8_def tide_reader_has_rest split: if_splits)
  have top: "i = 9 \<Longrightarrow> b AND 0x7e = 0"
    using Suc.prems rd i by (auto simp: tide_uleb128_loop.simps [of 9] split: if_splits)
  show ?case
  proof (cases "b AND 0x80 = 0")
    case True
    let ?w = "ucast (b AND 0x7f) :: u64"
    have x: "x = v OR push_bit (7 * i) ?w" "r' = rd_advance 1 r" "0 < i \<longrightarrow> b \<noteq> 0"
      using Suc.prems rd i True by (auto simp: tide_uleb128_loop.simps [of i] Let_def split: if_splits)
    have bs: "tide_uleb128_bytes ?w = [b]"
      using tide_uleb128_bytes_head [of 0 b] low_byte_id [OF True] by simp
    have "n < 64 - 7 * i" if "bit ?w n" for n
    proof (cases "i = 9")
      case True
      then show ?thesis using byte_top_bit [OF top [OF True]] that by (auto simp: low7_mask_eq bit_simps)
    next
      case False
      then show ?thesis using that i by (auto simp: low7_mask_eq bit_simps)
    qed
    moreover have "0 < i \<longrightarrow> ?w \<noteq> 0"
      using x(3) low_byte_id [OF True] uleb_last_zero [of "b AND 0x7f"] by auto
    ultimately show ?thesis using x bs b by (intro exI [of _ ?w]) auto
  next
    case False
    from Suc.prems rd i False have "tide_uleb128_loop (i + 1) (7 * (i + 1))
        (v OR push_bit (7 * i) (ucast (b AND 0x7f))) (rd_advance 1 r) = Some (x, r')"
      by (auto simp: tide_uleb128_loop.simps [of i] Let_def add.commute split: if_splits)
    then obtain w where w: "x = (v OR push_bit (7 * i) (ucast (b AND 0x7f))) OR push_bit (7 * (i + 1)) w"
        "\<And>n. bit w n \<Longrightarrow> n < 64 - 7 * (i + 1)" "w \<noteq> 0"
      and r': "r' = rd_advance (length (tide_uleb128_bytes w)) (rd_advance 1 r)"
        "take (length (tide_uleb128_bytes w)) (rd_rest (rd_advance 1 r)) = tide_uleb128_bytes w"
      using Suc.hyps(1) [OF k, of _ "rd_advance 1 r"] Suc.prems(2) len by auto
    let ?w = "ucast (b AND 0x7f) OR push_bit 7 w"
    have i9: "i < 9"
    proof (rule ccontr)
      assume "\<not> i < 9"
      then have "\<not> bit w n" for n using w(2) [of n] by auto
      then show False using w(3) by (simp add: bit_eq_iff)
    qed
    have bs: "tide_uleb128_bytes ?w = b # tide_uleb128_bytes w"
      using tide_uleb128_bytes_head [of w b] w(2,3) high_byte_id [OF False] by fastforce
    have "x = v OR push_bit (7 * i) ?w"
      unfolding w(1) by (rule bit_word_eqI) (auto simp: low7_mask_eq bit_simps add.commute)
    moreover have "n < 64 - 7 * i" if "bit ?w n" for n
      using that i9 w(2) [of "n - 7"] by (auto simp: low7_mask_eq bit_simps)
    moreover have "?w \<noteq> 0"
      using bs tide_uleb128_bytes.simps [of 0] False by (auto simp: Let_def)
    moreover have "take (length (tide_uleb128_bytes ?w)) (rd_rest r) = tide_uleb128_bytes ?w"
      using r'(2) b len bs by (cases "rd_rest r") auto
    ultimately show ?thesis using r'(1) bs by (intro exI [of _ ?w]) auto
  qed
qed

lemma tide_reader_read_uleb128_canonical:
  assumes "tide_reader_read_uleb128 r = Some (x, r')" and "rd_ok r"
  shows "r' = rd_advance (length (tide_uleb128_bytes x)) r"
    and "take (length (tide_uleb128_bytes x)) (rd_rest r) = tide_uleb128_bytes x"
  using tide_uleb128_loop_canonical [of 0 0 r x r'] assms by (auto simp: tide_reader_read_uleb128_def)

text \<open>A codec is canonical if its reader accepts nothing but encodings: what it read is what the encoder stores for the value.\<close>

locale canonical_codec = field_codec read enc for read :: "tide_reader \<Rightarrow> ('a \<times> tide_reader) option" and enc +
  assumes canonical: "rd_ok r \<Longrightarrow> read r = Some (x, r') \<Longrightarrow>
    r' = rd_advance (length (enc x)) r \<and> take (length (enc x)) (rd_rest r) = enc x"
begin

lemma consumed: "rd_ok r \<Longrightarrow> read r = Some (x, r') \<Longrightarrow> rd_ok r' \<and> rd_rest r = enc x @ rd_rest r' \<and> rd_offset r' = rd_offset r + length (enc x)"
  using canonical [of r x r'] ok_kept [of r x r'] append_take_drop_id [of "length (enc x)" "rd_rest r"] by simp

end

interpretation u8k: canonical_codec tide_reader_read_u8 "\<lambda>b. [b]"
proof
  fix r x r' assume "rd_ok r" "tide_reader_read_u8 r = Some (x, r')"
  then show "r' = rd_advance (length [x]) r \<and> take (length [x]) (rd_rest r) = [x]"
    by (cases "rd_rest r") (auto simp: tide_reader_read_u8_def tide_reader_has_rest split: if_splits)
qed

lemma split_join_u16:
  fixes a b :: byte
  shows "u16_bytes (ucast a OR push_bit 8 (ucast b)) = [a, b]"
proof -
  have hi: "8 \<le> n \<Longrightarrow> \<not> bit (x :: byte) n" for x n using bit_imp_le_length [of x n] by auto
  show ?thesis
    unfolding u16_bytes_def by (auto intro!: bit_word_eqI simp: tide_bits bit_simps hi)
qed

interpretation u16k: canonical_codec tide_reader_read_u16 u16_bytes
proof
  fix r x r' assume r: "rd_ok r" "tide_reader_read_u16 r = Some (x, r')"
  then have l: "2 \<le> length (rd_rest r)" and x: "x = ucast (rd_rest r ! 0) OR push_bit 8 (ucast (rd_rest r ! 1))" "r' = rd_advance 2 r"
    by (auto simp: tide_reader_read_u16_def tide_reader_has_rest Let_def split: if_splits)
  have "take 2 (rd_rest r) = [rd_rest r ! 0, rd_rest r ! 1]"
    using l by (intro nth_equalityI) (auto simp: less_Suc_eq numeral_eq_Suc)
  then show "r' = rd_advance (length (u16_bytes x)) r \<and> take (length (u16_bytes x)) (rd_rest r) = u16_bytes x"
    unfolding length_u16_bytes using x by (simp add: split_join_u16)
qed

interpretation uleb128k: canonical_codec tide_reader_read_uleb128 tide_uleb128_bytes
  by unfold_locales (metis tide_reader_read_uleb128_canonical)

lemma tide_reader_skip_Some:
  assumes "rd_ok r" and "tide_reader_skip r 1 = Some r'"
  shows "rd_ok r' \<and> (\<exists>b. rd_rest r = [b] @ rd_rest r') \<and> rd_offset r' = rd_offset r + 1"
  using assms by (cases "rd_rest r") (auto simp: tide_reader_skip_def tide_reader_read_bytes_def tide_reader_has_rest split: if_splits)

lemma tide_uleb128_size_eq: "tide_uleb128_size v = length (tide_uleb128_bytes v)"
proof (induction v rule: tide_uleb128_bytes.induct)
  case (1 v)
  have "(0x80 \<le> v) = (drop_bit 7 v \<noteq> 0)"
    unfolding unat_gt_0 [symmetric] unat_drop7 by (simp add: word_le_nat_alt div_greater_zero_iff)
  then show ?case
    using "1.IH" by (simp add: tide_uleb128_size.simps [of v] tide_uleb128_bytes.simps [of v] Let_def)
qed

lemma tide_uleb128_bytes_length: "length (tide_uleb128_bytes v) \<le> 10" "0 < length (tide_uleb128_bytes v)"
proof -
  have gen: "unat w < 128 ^ Suc k \<Longrightarrow> length (tide_uleb128_bytes w) \<le> Suc k" for w k
  proof (induction k arbitrary: w)
    case 0
    then have "drop_bit 7 w = 0" unfolding unat_eq_0 [symmetric] unat_drop7 by simp
    then show ?case by (simp add: tide_uleb128_bytes.simps [of w])
  next
    case (Suc k)
    then have "unat (drop_bit 7 w) < 128 ^ Suc k"
      unfolding unat_drop7 by (simp add: less_mult_imp_div_less)
    from Suc.IH [OF this] show ?case by (simp add: tide_uleb128_bytes.simps [of w] Let_def)
  qed
  show "length (tide_uleb128_bytes v) \<le> 10"
    using gen [of v 9] unat_u64_less [of v] by simp
  show "0 < length (tide_uleb128_bytes v)"
    by (simp add: tide_uleb128_bytes.simps [of v] Let_def)
qed

subsection \<open>Properties\<close>

text \<open>C25: the ULEB128 reader accepts exactly the canonical encodings that the writer produces: it returns a value if and
  only if the input starts with the bytes \<open>tide_write_uleb128\<close> stores for that value, and consumes exactly those.\<close>

theorem tide_reader_read_uleb128_iff:
  "tide_reader_read_uleb128 (tide_reader_init bs) = Some (v, r) \<longleftrightarrow>
     (\<exists>ys. bs = tide_uleb128_bytes v @ ys) \<and> r = rd_advance (tide_uleb128_size v) (tide_reader_init bs)"
proof
  assume "tide_reader_read_uleb128 (tide_reader_init bs) = Some (v, r)"
  from tide_reader_read_uleb128_canonical [OF this rd_ok_init]
  show "(\<exists>ys. bs = tide_uleb128_bytes v @ ys) \<and> r = rd_advance (tide_uleb128_size v) (tide_reader_init bs)"
    by (metis append_take_drop_id rd_rest_init tide_uleb128_size_eq)
next
  assume "(\<exists>ys. bs = tide_uleb128_bytes v @ ys) \<and> r = rd_advance (tide_uleb128_size v) (tide_reader_init bs)"
  then show "tide_reader_read_uleb128 (tide_reader_init bs) = Some (v, r)"
    using uleb128c.decodes [OF rd_ok_init] by (auto simp: tide_uleb128_size_eq)
qed

end
