(* ===== verification/Tide_Writer.thy ===== *)
theory Tide_Writer
  imports Tide_Reader Tide_Model
begin

text \<open>
  The record writer of \<open>src/format/writer.c\<close>: file header, framed records, and the payloads of
  stream descriptors and packets.

  Each function takes the buffer and returns it with a status. The arrays on the C stack (\<open>header\<close>,
  \<open>prefix\<close>, \<open>fixed\<close>, \<open>varint\<close>) are byte lists of their size that the stores update in place; an
  uninitialised array starts with zeros, and every byte that is copied out of it was stored before.
  The \<open>uuid\<close> argument and the two information structs may be \<open>NULL\<close> and are options.

  The second half states what the writer produces: \<open>tide_header_bytes\<close>, \<open>tide_record_bytes\<close>,
  \<open>stream_payload_bytes\<close> and \<open>packet_payload_bytes\<close> are the byte strings of the format, and the
  \<open>_cases\<close> rules say that each function appends exactly those or fails for want of room.
\<close>

subsection \<open>Record types and format constants\<close>

definition TIDE_RECORD_GROUP :: u16 where "TIDE_RECORD_GROUP = 0x0001"
definition TIDE_RECORD_STREAM_DESC :: u16 where "TIDE_RECORD_STREAM_DESC = 0x0010"
definition TIDE_RECORD_PACKET :: u16 where "TIDE_RECORD_PACKET = 0x0020"
definition TIDE_RECORD_PACKET_TABLE :: u16 where "TIDE_RECORD_PACKET_TABLE = 0x0021"
definition TIDE_RECORD_EDIT_LIST :: u16 where "TIDE_RECORD_EDIT_LIST = 0x0030"
definition TIDE_RECORD_DISCONTINUITY :: u16 where "TIDE_RECORD_DISCONTINUITY = 0x0031"
definition TIDE_RECORD_SEEK_INDEX :: u16 where "TIDE_RECORD_SEEK_INDEX = 0x0040"
definition TIDE_RECORD_CHECKPOINT :: u16 where "TIDE_RECORD_CHECKPOINT = 0x0050"
definition TIDE_RECORD_INDEX_DIRECTORY :: u16 where "TIDE_RECORD_INDEX_DIRECTORY = 0x0060"
definition TIDE_RECORD_FOOTER :: u16 where "TIDE_RECORD_FOOTER = 0x007F"

definition TIDE_RECORD_SKIPPABLE_BIT :: u16 where "TIDE_RECORD_SKIPPABLE_BIT = 0x8000"
definition TIDE_GROUP_META_SIZE :: nat where "TIDE_GROUP_META_SIZE = 20"
definition TIDE_PACKET_FIXED_SIZE :: nat where "TIDE_PACKET_FIXED_SIZE = 44"

definition tide_magic :: bytes where
  "tide_magic = [0x54, 0x49, 0x44, 0x45, 0x31, 0x0D, 0x0A, 0x1A]"

subsection \<open>Writers\<close>

definition tide_write_header ::
    "(nat \<Rightarrow> bool) \<Rightarrow> tide_buffer \<Rightarrow> tide_rational \<Rightarrow> bytes option \<Rightarrow> tide_status \<times> tide_buffer" where
  "tide_write_header alloc out movie_time_base uuid =
     (if uuid = None \<or> \<not> tide_rational_is_valid movie_time_base \<or>
         take TIDE_UUID_SIZE (the uuid) = replicate TIDE_UUID_SIZE 0
      then (TIDE_STATUS_INVALID_ARGUMENT, out)
      else let
        header = replicate TIDE_HEADER_SIZE 0;
        header = put_bytes header 0 tide_magic;
        header = tide_write_u16 header 8 1;
        header = tide_write_u16 header 10 0;
        header = put_bytes header 12 (take TIDE_UUID_SIZE (the uuid));
        header = tide_write_u32 header 28 (numerator movie_time_base);
        header = tide_write_u32 header 32 (denominator movie_time_base);
        header = tide_write_u64 header 36 0;
        header = tide_write_u64 header 44 0;
        header = tide_write_u64 header 52 (64 * 1024 * 1024);
        header = tide_write_u64 header 60 0;
        crc = tide_crc32c (take (TIDE_HEADER_SIZE - 4) header);
        header = tide_write_u32 header 68 crc
      in tide_buffer_append alloc out (Some header) TIDE_HEADER_SIZE)"

definition tide_write_record ::
    "(nat \<Rightarrow> bool) \<Rightarrow> tide_buffer \<Rightarrow> u16 \<Rightarrow> u16 \<Rightarrow> byte \<Rightarrow> u64 \<Rightarrow> bytes option \<Rightarrow> nat \<Rightarrow> tide_status \<times> tide_buffer" where
  "tide_write_record alloc out type flags alignment_log2 sequence payload payload_size =
     (if payload = None \<and> payload_size \<noteq> 0 \<or> alignment_log2 > 4 then (TIDE_STATUS_INVALID_ARGUMENT, out)
      else let
        payload_var_size = tide_uleb128_size (of_nat payload_size);
        seq_var_size = tide_uleb128_size sequence;
        header_size = 8 + payload_var_size + seq_var_size
      in if header_size > 0xffff then (TIDE_STATUS_RESOURCE, out)
      else let
        prefix = replicate 32 0;
        prefix = tide_write_u16 prefix 0 type;
        prefix = tide_write_u16 prefix 2 flags;
        prefix = tide_write_u16 prefix 4 (of_nat header_size);
        prefix = prefix[6 := alignment_log2];
        prefix = prefix[7 := 0];
        prefix = fst (tide_write_uleb128 prefix 8 (of_nat payload_size));
        prefix = fst (tide_write_uleb128 prefix (8 + payload_var_size) sequence)
      in case tide_checked_add_u64 (of_nat header_size) (of_nat payload_size) of
        None \<Rightarrow> (TIDE_STATUS_RESOURCE, out)
      | Some unpadded_size \<Rightarrow>
          (case tide_align_u64 unpadded_size (push_bit (unat alignment_log2) 1) of
             None \<Rightarrow> (TIDE_STATUS_RESOURCE, out)
           | Some padded_size \<Rightarrow> let
               padding_size = unat (padded_size - unpadded_size);
               crc_start = buf_size out;
               (status, out) = tide_buffer_append alloc out (Some prefix) header_size;
               (status, out) = (if status = TIDE_STATUS_OK
                 then tide_buffer_append alloc out payload payload_size else (status, out));
               (status, out) = (if status = TIDE_STATUS_OK
                 then tide_buffer_append_zero alloc out padding_size else (status, out))
             in if status \<noteq> TIDE_STATUS_OK then (status, out)
                else let
                  crc = tide_crc32c (drop crc_start (buf_data out));
                  prefix = tide_write_u32 prefix 0 crc
                in tide_buffer_append alloc out (Some prefix) 4))"

definition tide_encode_stream_payload ::
    "(nat \<Rightarrow> bool) \<Rightarrow> tide_buffer \<Rightarrow> tide_stream_info option \<Rightarrow> tide_status \<times> tide_buffer" where
  "tide_encode_stream_payload alloc out stream =
     (case stream of
        None \<Rightarrow> (TIDE_STATUS_INVALID_ARGUMENT, out)
      | Some s \<Rightarrow>
          if \<not> tide_rational_is_valid (si_time_base s) \<or> si_config s = None \<and> si_config_size s \<noteq> 0
          then (TIDE_STATUS_INVALID_ARGUMENT, out)
          else let
            fixed = replicate 24 0;
            fixed = tide_write_u32 fixed 0 (si_track_id s);
            fixed = tide_write_u32 fixed 4 (si_generation s);
            fixed = tide_write_u16 fixed 8 (si_media_kind s);
            fixed = tide_write_u16 fixed 10 0;
            fixed = tide_write_u32 fixed 12 (si_codec_tag s);
            fixed = tide_write_u32 fixed 16 (numerator (si_time_base s));
            fixed = tide_write_u32 fixed 20 (denominator (si_time_base s));
            (status, out) = tide_buffer_append alloc out (Some fixed) 24
          in if status \<noteq> TIDE_STATUS_OK then (status, out)
             else let
               (varint, varint_size) = tide_write_uleb128 (replicate 10 0) 0 (of_nat (si_config_size s));
               (status, out) = tide_buffer_append alloc out (Some varint) varint_size
             in if status \<noteq> TIDE_STATUS_OK then (status, out)
                else tide_buffer_append alloc out (si_config s) (si_config_size s))"

definition tide_encode_packet_payload ::
    "(nat \<Rightarrow> bool) \<Rightarrow> tide_buffer \<Rightarrow> tide_packet_info option \<Rightarrow> tide_status \<times> tide_buffer" where
  "tide_encode_packet_payload alloc out packet =
     (case packet of
        None \<Rightarrow> (TIDE_STATUS_INVALID_ARGUMENT, out)
      | Some p \<Rightarrow>
          if pv_data (pk_payload p) = None \<and> pv_size (pk_payload p) \<noteq> 0 \<or> sint (pk_duration p) < 0
          then (TIDE_STATUS_INVALID_ARGUMENT, out)
          else let
            fixed = replicate TIDE_PACKET_FIXED_SIZE 0;
            fixed = tide_write_u32 fixed 0 (pk_track_id p);
            fixed = tide_write_u32 fixed 4 (pk_generation p);
            fixed = tide_write_u64 fixed 8 (pk_packet_seq p);
            fixed = tide_write_i64 fixed 16 (pk_dts p);
            fixed = tide_write_i64 fixed 24 (pk_pts p);
            fixed = tide_write_i64 fixed 32 (pk_duration p);
            fixed = tide_write_u32 fixed 40 (pk_flags p);
            (status, out) = tide_buffer_append alloc out (Some fixed) TIDE_PACKET_FIXED_SIZE
          in if status \<noteq> TIDE_STATUS_OK then (status, out)
             else let
               (varint, varint_size) = tide_write_uleb128 (replicate 10 0) 0 (of_nat (pv_size (pk_payload p)));
               (status, out) = tide_buffer_append alloc out (Some varint) varint_size
             in if status \<noteq> TIDE_STATUS_OK then (status, out)
                else let
                  (status, out) = tide_buffer_append alloc out (pv_data (pk_payload p)) (pv_size (pk_payload p))
                in if status \<noteq> TIDE_STATUS_OK then (status, out) else (TIDE_STATUS_OK, out))"

subsection \<open>The bytes of the format\<close>

definition tide_header_prefix :: "tide_rational \<Rightarrow> bytes \<Rightarrow> bytes" where
  "tide_header_prefix tb uuid = tide_magic @ u16_bytes 1 @ u16_bytes 0 @ uuid @ tide_u32_bytes (numerator tb) @
     tide_u32_bytes (denominator tb) @ u64_bytes 0 @ u64_bytes 0 @ u64_bytes (64 * 1024 * 1024) @ u64_bytes 0"

definition tide_header_bytes :: "tide_rational \<Rightarrow> bytes \<Rightarrow> bytes" where
  "tide_header_bytes tb uuid = tide_header_prefix tb uuid @ tide_u32_bytes (tide_crc32c (tide_header_prefix tb uuid))"

definition record_header_size :: "nat \<Rightarrow> u64 \<Rightarrow> nat" where
  "record_header_size n sequence = 8 + tide_uleb128_size (of_nat n) + tide_uleb128_size sequence"

definition record_prefix_bytes :: "u16 \<Rightarrow> u16 \<Rightarrow> byte \<Rightarrow> u64 \<Rightarrow> nat \<Rightarrow> bytes" where
  "record_prefix_bytes type flags al sequence n = u16_bytes type @ u16_bytes flags @
     u16_bytes (of_nat (record_header_size n sequence)) @ [al, 0] @ tide_uleb128_bytes (of_nat n) @ tide_uleb128_bytes sequence"

definition align_up :: "nat \<Rightarrow> nat \<Rightarrow> nat" where
  "align_up k n = (n + 2 ^ k - 1) div 2 ^ k * 2 ^ k"

definition record_body_bytes :: "u16 \<Rightarrow> u16 \<Rightarrow> byte \<Rightarrow> u64 \<Rightarrow> bytes \<Rightarrow> bytes" where
  "record_body_bytes type flags al sequence payload =
     (let n = record_header_size (length payload) sequence + length payload in
      record_prefix_bytes type flags al sequence (length payload) @ payload @
      replicate (align_up (unat al) n - n) 0)"

definition tide_record_bytes :: "u16 \<Rightarrow> u16 \<Rightarrow> byte \<Rightarrow> u64 \<Rightarrow> bytes \<Rightarrow> bytes" where
  "tide_record_bytes type flags al sequence payload =
     (let body = record_body_bytes type flags al sequence payload in body @ tide_u32_bytes (tide_crc32c body))"

definition stream_payload_bytes :: "tide_stream_info \<Rightarrow> bytes" where
  "stream_payload_bytes s = tide_u32_bytes (si_track_id s) @ tide_u32_bytes (si_generation s) @ u16_bytes (si_media_kind s) @
     u16_bytes 0 @ tide_u32_bytes (si_codec_tag s) @ tide_u32_bytes (numerator (si_time_base s)) @
     tide_u32_bytes (denominator (si_time_base s)) @ tide_uleb128_bytes (of_nat (si_config_size s)) @
     take (si_config_size s) (the (si_config s))"

definition packet_payload_bytes :: "tide_packet_info \<Rightarrow> bytes" where
  "packet_payload_bytes p = tide_u32_bytes (pk_track_id p) @ tide_u32_bytes (pk_generation p) @ u64_bytes (pk_packet_seq p) @
     u64_bytes (pk_dts p) @ u64_bytes (pk_pts p) @ u64_bytes (pk_duration p) @ tide_u32_bytes (pk_flags p) @
     tide_uleb128_bytes (of_nat (pv_size (pk_payload p))) @ take (pv_size (pk_payload p)) (the (pv_data (pk_payload p)))"

subsection \<open>Filling an array from the left\<close>

lemma put_zeros [tide_span]:
  "length xs = off \<Longrightarrow> length bs \<le> n \<Longrightarrow> put_bytes (xs @ replicate n 0) off bs = (xs @ bs) @ replicate (n - length bs) 0"
  by (simp add: put_bytes_def)

lemma write_u16_zeros [tide_span]:
  "length xs = off \<Longrightarrow> 2 \<le> n \<Longrightarrow> tide_write_u16 (xs @ replicate n 0) off v = (xs @ u16_bytes v) @ replicate (n - 2) 0"
  by (simp add: tide_write_u16_eq put_zeros)

lemma write_u32_zeros [tide_span]:
  "length xs = off \<Longrightarrow> 4 \<le> n \<Longrightarrow> tide_write_u32 (xs @ replicate n 0) off v = (xs @ tide_u32_bytes v) @ replicate (n - 4) 0"
  by (simp add: tide_write_u32_def put_zeros)

lemma write_u64_zeros [tide_span]:
  "length xs = off \<Longrightarrow> 8 \<le> n \<Longrightarrow> tide_write_u64 (xs @ replicate n 0) off v = (xs @ u64_bytes v) @ replicate (n - 8) 0"
  by (simp add: tide_write_u64_eq put_zeros)

lemma length_tide_magic [simp]: "length tide_magic = 8"
  by (simp add: tide_magic_def)

lemmas write_zeros_start [tide_span] =
  put_zeros [of "[]" 0, simplified] write_u16_zeros [of "[]" 0, simplified] write_u32_zeros [of "[]" 0, simplified]

lemma length_tide_header_prefix [simp]: "length uuid = 16 \<Longrightarrow> length (tide_header_prefix tb uuid) = 68"
  by (simp add: tide_header_prefix_def)

lemma length_tide_header_bytes [simp]: "length uuid = 16 \<Longrightarrow> length (tide_header_bytes tb uuid) = TIDE_HEADER_SIZE"
  by (simp add: tide_header_bytes_def TIDE_HEADER_SIZE_def)

lemma tide_write_header_eq:
  assumes "tide_rational_is_valid tb" and "length uuid = 16" and "uuid \<noteq> replicate 16 0"
  shows "tide_write_header alloc out tb (Some uuid) = tide_buffer_append alloc out (Some (tide_header_bytes tb uuid)) TIDE_HEADER_SIZE"
proof -
  let ?p = "tide_header_prefix tb uuid"
  have p: "(let header = replicate 72 0;
        header = put_bytes header 0 tide_magic;
        header = tide_write_u16 header 8 1;
        header = tide_write_u16 header 10 0;
        header = put_bytes header 12 uuid;
        header = tide_write_u32 header 28 (numerator tb);
        header = tide_write_u32 header 32 (denominator tb);
        header = tide_write_u64 header 36 0;
        header = tide_write_u64 header 44 0;
        header = tide_write_u64 header 52 (64 * 1024 * 1024)
      in tide_write_u64 header 60 0) = ?p @ replicate 4 0"
    using assms(2) by (simp add: Let_def tide_span del: append_assoc) (simp add: tide_header_prefix_def)
  have "tide_write_u32 (?p @ replicate 4 0) 68 c = ?p @ tide_u32_bytes c" for c
    using assms(2) by (simp add: tide_span)
  moreover have "take 68 (?p @ replicate 4 0) = ?p" using assms(2) by simp
  ultimately show ?thesis
    using assms p by (simp add: tide_write_header_def TIDE_UUID_SIZE_def TIDE_HEADER_SIZE_def Let_def tide_header_bytes_def)
qed

lemma length_record_prefix_bytes [simp]:
  "length (record_prefix_bytes type flags al sequence n) = record_header_size n sequence"
  by (simp add: record_prefix_bytes_def record_header_size_def tide_uleb128_size_eq)

lemma record_header_size_bounds: "10 \<le> record_header_size n sequence" "record_header_size n sequence \<le> 28"
  using tide_uleb128_bytes_length [of "of_nat n"] tide_uleb128_bytes_length [of sequence]
  unfolding record_header_size_def tide_uleb128_size_eq by linarith+

lemma record_prefix_array:
  "(let prefix = replicate 32 0;
        prefix = tide_write_u16 prefix 0 type;
        prefix = tide_write_u16 prefix 2 flags;
        prefix = tide_write_u16 prefix 4 (of_nat (record_header_size n sequence));
        prefix = prefix[6 := al];
        prefix = prefix[7 := 0];
        prefix = fst (tide_write_uleb128 prefix 8 (of_nat n))
     in fst (tide_write_uleb128 prefix (8 + tide_uleb128_size (of_nat n)) sequence)) =
   record_prefix_bytes type flags al sequence n @ replicate (32 - record_header_size n sequence) 0"
proof -
  have upd: "(xs @ replicate k 0)[i := b] = (xs @ [b]) @ replicate (k - 1) 0" if "i = length xs" "0 < k" for xs k i and b :: byte
    using that by (cases k) (auto simp: list_update_append)
  have a: "length (tide_uleb128_bytes (of_nat n)) \<le> 10" "length (tide_uleb128_bytes sequence) \<le> 10"
    by (rule tide_uleb128_bytes_length)+
  have "32 - (8 + length (tide_uleb128_bytes (of_nat n)) + length (tide_uleb128_bytes sequence)) =
      24 - length (tide_uleb128_bytes (of_nat n)) - length (tide_uleb128_bytes sequence)" by simp
  then show ?thesis
    using a by (simp add: Let_def tide_span tide_write_uleb128_def upd tide_uleb128_size_eq del: append_assoc)
      (simp add: record_prefix_bytes_def record_header_size_def tide_uleb128_size_eq)
qed

lemma align_up_bounds: "n \<le> align_up k n" "align_up k n < n + 2 ^ k" "2 ^ k dvd align_up k n"
proof -
  have "(n + 2 ^ k - 1) div 2 ^ k * 2 ^ k + (n + 2 ^ k - 1) mod 2 ^ k = n + 2 ^ k - 1"
    by (rule div_mult_mod_eq)
  moreover have "(n + 2 ^ k - 1) mod 2 ^ k < 2 ^ k" by simp
  moreover have "0 < (2 :: nat) ^ k" by simp
  ultimately show "n \<le> align_up k n" "align_up k n < n + 2 ^ k" unfolding align_up_def by linarith+
  show "2 ^ k dvd align_up k n" unfolding align_up_def by simp
qed

lemma tide_align_u64_up:
  assumes "k < 64" and "align_up k (unat v) < 2 ^ 64 - 2 ^ k"
  shows "\<exists>r. tide_align_u64 v (2 ^ k) = Some r \<and> unat r = align_up k (unat v)"
proof (cases "tide_align_u64 v (2 ^ k)")
  case (Some r)
  then show ?thesis using tide_align_u64_pow2 [OF assms(1) Some] by (simp add: align_up_def)
next
  case None
  then have "2 ^ 64 \<le> unat v + 2 ^ k - 1" using tide_align_u64_None [OF assms(1)] by simp
  moreover have "unat v \<le> align_up k (unat v)" by (rule align_up_bounds)
  ultimately show ?thesis using assms(2) by linarith
qed


subsection \<open>Sequences of appends\<close>

fun buffer_appends :: "(nat \<Rightarrow> bool) \<Rightarrow> tide_buffer \<Rightarrow> bytes list \<Rightarrow> tide_status \<times> tide_buffer" where
  "buffer_appends alloc b [] = (TIDE_STATUS_OK, b)"
| "buffer_appends alloc b (c # cs) =
     (case tide_buffer_append alloc b (Some c) (length c) of (status, b) \<Rightarrow>
        if status \<noteq> TIDE_STATUS_OK then (status, b) else buffer_appends alloc b cs)"

lemma tide_buffer_append_take:
  "n \<le> length d \<Longrightarrow> tide_buffer_append alloc b (Some d) n = tide_buffer_append alloc b (Some (take n d)) (length (take n d))"
  by (simp add: tide_buffer_append_def split: prod.split)

lemma tide_buffer_append_zero_eq:
  "tide_buffer_append_zero alloc b n = tide_buffer_append alloc b (Some (replicate n 0)) (length (replicate n (0 :: byte)))"
  by (simp add: tide_buffer_append_def tide_buffer_append_zero_def split: prod.split)

lemma tide_buffer_append_None: "tide_buffer_append alloc b None 0 = tide_buffer_append alloc b (Some []) 0"
  by (simp add: tide_buffer_append_def split: prod.split)

lemma buffer_appends_last:
  "buffer_appends alloc b [c] = tide_buffer_append alloc b (Some c) (length c)"
  by (auto split: prod.split)

lemma tide_buffer_fits_append:
  "tide_buffer_fits b (length xs + m) \<longleftrightarrow> tide_buffer_fits b (length xs) \<and>
     tide_buffer_fits (b\<lparr>buf_data := buf_data b @ xs, buf_capacity := c\<rparr>) m"
  by (auto simp: tide_buffer_fits_def)

lemma buffer_appends_cases:
  obtains (ok) c where "buffer_appends alloc b cs = (TIDE_STATUS_OK, b\<lparr>buf_data := buf_data b @ concat cs, buf_capacity := c\<rparr>)"
      and "cs \<noteq> [] \<longrightarrow> tide_buffer_fits b (length (concat cs)) \<and> buf_size b + length (concat cs) \<le> c"
  | (fail) xs c where "buffer_appends alloc b cs = (TIDE_STATUS_RESOURCE, b\<lparr>buf_data := buf_data b @ xs, buf_capacity := c\<rparr>)"
      and "\<not> tide_buffer_fits b (length (concat cs)) \<or> (\<exists>m. \<not> alloc m)"
proof (induction cs arbitrary: b thesis)
  case Nil
  show ?case by (rule Nil(1) [of "buf_capacity b"]) (auto simp: tide_buffer_fits_def)
next
  case (Cons x xs)
  have x: "length x \<le> length x" by simp
  show ?case
    using x
  proof (cases rule: tide_buffer_append_cases [where alloc = alloc and b = b])
    case (ok c)
    let ?b = "b\<lparr>buf_data := buf_data b @ x, buf_capacity := c\<rparr>"
    have step: "buffer_appends alloc b (x # xs) = buffer_appends alloc ?b xs" using ok by simp
    note fits = tide_buffer_fits_append [of b x "length (concat xs)" c]
    show ?thesis
    proof (rule Cons.IH [of ?b])
      fix c' assume "buffer_appends alloc ?b xs = (TIDE_STATUS_OK, ?b\<lparr>buf_data := buf_data ?b @ concat xs, buf_capacity := c'\<rparr>)"
        and "xs \<noteq> [] \<longrightarrow> tide_buffer_fits ?b (length (concat xs)) \<and> buf_size ?b + length (concat xs) \<le> c'"
      with step fits ok show ?thesis
        by (cases "xs = []") (auto intro: Cons.prems(1) [of c'] Cons.prems(1) [of c])
    next
      fix ys c' assume "buffer_appends alloc ?b xs = (TIDE_STATUS_RESOURCE, ?b\<lparr>buf_data := buf_data ?b @ ys, buf_capacity := c'\<rparr>)"
        and "\<not> tide_buffer_fits ?b (length (concat xs)) \<or> (\<exists>m. \<not> alloc m)"
      with step fits show ?thesis by (intro Cons.prems(2) [of c' "x @ ys"]) auto
    qed
  next
    case fail
    have "tide_buffer_fits b (length x + m) \<Longrightarrow> tide_buffer_fits b (length x)" for m by (auto simp: tide_buffer_fits_def)
    then show ?thesis using fail by (intro Cons.prems(2) [of "buf_capacity b" "[]"]) auto
  qed
qed

subsection \<open>What each writer appends\<close>

lemma alignment_shift: "al \<le> 4 \<Longrightarrow> push_bit (unat (al :: byte)) (1 :: u64) = 2 ^ unat al" "al \<le> 4 \<Longrightarrow> unat al \<le> 4"
  by (simp_all add: push_bit_eq_mult word_le_nat_alt)

lemma length_record_body_bytes:
  "length (record_body_bytes type flags al sequence payload) =
     align_up (unat al) (record_header_size (length payload) sequence + length payload)"
  using align_up_bounds(1) [of "record_header_size (length payload) sequence + length payload" "unat al"]
  by (simp add: record_body_bytes_def Let_def)

lemma length_tide_record_bytes:
  "length (tide_record_bytes type flags al sequence payload) =
     align_up (unat al) (record_header_size (length payload) sequence + length payload) + 4"
  by (simp add: tide_record_bytes_def length_record_body_bytes Let_def)

lemma tide_write_record_step:
  assumes al: "al \<le> 4" and n: "length d < 2 ^ 62"
  shows "tide_write_record alloc out type flags al sequence (Some d) (length d) =
    (let m = record_header_size (length d) sequence + length d;
         (status, b) = buffer_appends alloc out [record_prefix_bytes type flags al sequence (length d), d,
           replicate (align_up (unat al) m - m) 0]
     in if status \<noteq> TIDE_STATUS_OK then (status, b)
        else tide_buffer_append alloc b (Some (tide_u32_bytes (tide_crc32c (drop (buf_size out) (buf_data b))))) 4)"
proof -
  let ?h = "record_header_size (length d) sequence" and ?p = "record_prefix_bytes type flags al sequence (length d)"
  have h: "?h \<le> 28" "10 \<le> ?h" by (rule record_header_size_bounds)+
  have un: "unat (of_nat k :: u64) = k" if "k < 2 ^ 63" for k :: nat
    using that by (simp add: unat_of_nat)
  have "tide_checked_add_u64 (of_nat ?h) (of_nat (length d)) = Some (of_nat (?h + length d))"
    using h n by (simp only: tide_checked_add_u64_iff) (simp add: un del: of_nat_add)
  moreover have "align_up (unat al) (?h + length d) < ?h + length d + 2 ^ unat al" by (rule align_up_bounds)
  moreover have "(2 :: nat) ^ unat al \<le> 2 ^ 4" using alignment_shift(2) [OF al] by (intro power_increasing) auto
  ultimately have "align_up (unat al) (unat (of_nat (?h + length d) :: u64)) < 2 ^ 64 - 2 ^ unat al"
    using h n by (subst un) simp_all
  then obtain r where r: "tide_align_u64 (of_nat (?h + length d)) (2 ^ unat al) = Some r"
    and ur: "unat r = align_up (unat al) (?h + length d)"
    using tide_align_u64_up [of "unat al" "of_nat (?h + length d)"] alignment_shift(2) [OF al] h n by (auto simp: un simp del: of_nat_add)
  have "(of_nat (?h + length d) :: u64) \<le> r"
    using align_up_bounds(1) [of "?h + length d" "unat al"] h n by (simp add: word_le_nat_alt ur un del: of_nat_add)
  then have pad: "unat (r - of_nat (?h + length d)) = align_up (unat al) (?h + length d) - (?h + length d)"
    using h n by (simp only: unat_sub) (simp add: ur un del: of_nat_add)
  have crc: "take 4 (tide_write_u32 (?p @ zs) 0 c) = tide_u32_bytes c" for zs c
    by (simp add: tide_write_u32_def put_bytes_def)
  have wlen: "length (tide_write_u32 (?p @ zs) 0 c) = ?h + length zs" for zs c
    using h by (simp add: tide_write_u32_def)
  have last: "tide_buffer_append alloc b (Some (tide_write_u32 (?p @ replicate k 0) 0 c)) 4 =
      tide_buffer_append alloc b (Some (tide_u32_bytes c)) 4" for b k c
    using h by (subst tide_buffer_append_take) (simp_all add: wlen crc)
  have first: "tide_buffer_append alloc b (Some (?p @ replicate k 0)) ?h = tide_buffer_append alloc b (Some ?p) ?h" for b k
    by (subst tide_buffer_append_take) simp_all
  note arr = record_prefix_array [of type flags "length d" sequence al, unfolded Let_def]
  have al4: "\<not> 4 < al" using al by simp
  note hs = record_header_size_def [of "length d" sequence, symmetric]
  have "tide_checked_add_u64 (of_nat ?h) (of_nat (length d)) = Some (of_nat (?h + length d))"
    using h n by (simp only: tide_checked_add_u64_iff) (simp add: un del: of_nat_add)
  then show ?thesis
    unfolding tide_write_record_def Let_def hs arr
    using h al4 r pad
    by (simp add: alignment_shift(1) [OF al] last first tide_buffer_append_zero_eq split_beta split: prod.splits del: of_nat_add)
qed

text \<open>What a caller of a writer can rely on: the bytes were appended, or there was no room.\<close>

definition appended :: "(nat \<Rightarrow> bool) \<Rightarrow> tide_buffer \<Rightarrow> bytes \<Rightarrow> tide_status \<times> tide_buffer \<Rightarrow> bool" where
  "appended alloc b bs r \<longleftrightarrow>
     (\<exists>c. r = (TIDE_STATUS_OK, b\<lparr>buf_data := buf_data b @ bs, buf_capacity := c\<rparr>) \<and> tide_buffer_fits b (length bs) \<and>
       buf_size b + length bs \<le> c) \<or>
     (\<exists>xs c. r = (TIDE_STATUS_RESOURCE, b\<lparr>buf_data := buf_data b @ xs, buf_capacity := c\<rparr>) \<and>
       (\<not> tide_buffer_fits b (length bs) \<or> (\<exists>m. \<not> alloc m)))"

lemma appendedE:
  assumes "appended alloc b bs r"
  obtains (ok) c where "r = (TIDE_STATUS_OK, b\<lparr>buf_data := buf_data b @ bs, buf_capacity := c\<rparr>)"
      and "tide_buffer_fits b (length bs)" and "buf_size b + length bs \<le> c"
  | (fail) xs c where "r = (TIDE_STATUS_RESOURCE, b\<lparr>buf_data := buf_data b @ xs, buf_capacity := c\<rparr>)"
      and "\<not> tide_buffer_fits b (length bs) \<or> (\<exists>m. \<not> alloc m)"
  using assms unfolding appended_def by blast

lemma appends_appended:
  assumes "cs \<noteq> []"
  shows "appended alloc b (concat cs) (buffer_appends alloc b cs)"
  using assms by (cases rule: buffer_appends_cases [of alloc b cs]) (auto simp: appended_def)

lemma tide_write_header_appended:
  assumes "tide_rational_is_valid tb" and "length uuid = 16" and "uuid \<noteq> replicate 16 0"
  shows "appended alloc out (tide_header_bytes tb uuid) (tide_write_header alloc out tb (Some uuid))"
  using appends_appended [of "[tide_header_bytes tb uuid]" alloc out] tide_write_header_eq [OF assms] assms(2)
  by (simp only: buffer_appends_last concat.simps length_tide_header_bytes append_Nil2 list.distinct not_False_eq_True)

lemma tide_write_record_appended:
  assumes al: "al \<le> 4" and n: "length d < 2 ^ 62"
  shows "appended alloc out (tide_record_bytes type flags al sequence d)
    (tide_write_record alloc out type flags al sequence (Some d) (length d))"
proof -
  let ?m = "record_header_size (length d) sequence + length d"
  let ?cs = "[record_prefix_bytes type flags al sequence (length d), d, replicate (align_up (unat al) ?m - ?m) 0]"
  let ?body = "record_body_bytes type flags al sequence d"
  have body: "concat ?cs = ?body" by (simp add: record_body_bytes_def Let_def)
  have rec: "tide_record_bytes type flags al sequence d = ?body @ tide_u32_bytes (tide_crc32c ?body)"
    by (simp add: tide_record_bytes_def Let_def)
  note step = tide_write_record_step [OF assms, of alloc out type flags sequence, unfolded Let_def]
  have "?cs \<noteq> []" by simp
  from appends_appended [OF this, of alloc out, unfolded body]
  show ?thesis
  proof (cases rule: appendedE)
    case (ok c)
    let ?b = "out\<lparr>buf_data := buf_data out @ ?body, buf_capacity := c\<rparr>"
    have w: "tide_write_record alloc out type flags al sequence (Some d) (length d) =
        buffer_appends alloc ?b [tide_u32_bytes (tide_crc32c ?body)]"
      unfolding step ok buffer_appends_last by simp
    have "[tide_u32_bytes (tide_crc32c ?body)] \<noteq> []" by simp
    from appends_appended [OF this, of alloc ?b] show ?thesis
    proof (cases rule: appendedE)
      case inner: (ok c')
      then show ?thesis
        unfolding w rec using ok(2) tide_buffer_fits_append [of out ?body 4 c] by (auto simp: appended_def)
    next
      case inner: (fail xs c')
      then show ?thesis
        unfolding w rec using tide_buffer_fits_append [of out ?body 4 c] by (auto simp: appended_def intro!: exI [of _ "?body @ xs"])
    qed
  next
    case (fail xs c)
    have "tide_buffer_fits out (length ?body + 4) \<Longrightarrow> tide_buffer_fits out (length ?body)"
      by (auto simp: tide_buffer_fits_def)
    with fail show ?thesis unfolding step rec by (auto simp: appended_def)
  qed
qed

definition view_ok :: "bytes option \<Rightarrow> nat \<Rightarrow> bool" where
  "view_ok data n \<longleftrightarrow> n < 2 ^ 61 \<and> (case data of None \<Rightarrow> n = 0 | Some d \<Rightarrow> n \<le> length d)"

definition view_bytes :: "bytes option \<Rightarrow> nat \<Rightarrow> bytes" where
  "view_bytes data n = take n (case data of None \<Rightarrow> [] | Some d \<Rightarrow> d)"

lemma tide_buffer_append_view:
  "view_ok data n \<Longrightarrow> tide_buffer_append alloc b data n = tide_buffer_append alloc b (Some (view_bytes data n)) (length (view_bytes data n))"
  using tide_buffer_append_take [of n "the data"]
  by (cases data) (simp_all add: view_ok_def view_bytes_def tide_buffer_append_None)

lemma length_view_bytes: "view_ok data n \<Longrightarrow> length (view_bytes data n) = n"
  by (cases data) (auto simp: view_ok_def view_bytes_def)

lemma stream_payload_bytes_view:
  "view_ok (si_config s) (si_config_size s) \<Longrightarrow>
     take (si_config_size s) (the (si_config s)) = view_bytes (si_config s) (si_config_size s)"
  by (cases "si_config s") (auto simp: view_ok_def view_bytes_def)

lemma tide_encode_stream_payload_appended:
  assumes "tide_rational_is_valid (si_time_base s)" and v: "view_ok (si_config s) (si_config_size s)"
  shows "appended alloc out (stream_payload_bytes s) (tide_encode_stream_payload alloc out (Some s))"
proof -
  let ?f = "tide_u32_bytes (si_track_id s) @ tide_u32_bytes (si_generation s) @ u16_bytes (si_media_kind s) @
     u16_bytes 0 @ tide_u32_bytes (si_codec_tag s) @ tide_u32_bytes (numerator (si_time_base s)) @
     tide_u32_bytes (denominator (si_time_base s))"
  let ?v = "tide_uleb128_bytes (of_nat (si_config_size s))"
  have fixed: "tide_write_u32 (tide_write_u32 (tide_write_u32 (tide_write_u16 (tide_write_u16 (tide_write_u32 (tide_write_u32
      (replicate 24 0) 0 (si_track_id s)) 4 (si_generation s)) 8 (si_media_kind s)) 10 0) 12 (si_codec_tag s))
      16 (numerator (si_time_base s))) 20 (denominator (si_time_base s)) = ?f"
    by (simp add: tide_span del: append_assoc)
  have vl: "length ?v \<le> 10" by (rule tide_uleb128_bytes_length)
  have var: "tide_buffer_append alloc b (Some (put_bytes (replicate 10 0) 0 ?v)) (length ?v) =
      tide_buffer_append alloc b (Some ?v) (length ?v)" for b
    using vl by (subst tide_buffer_append_take) (simp_all add: tide_span)
  have guard: "(\<not> tide_rational_is_valid (si_time_base s) \<or> si_config s = None \<and> si_config_size s \<noteq> 0) = False" using assms by (auto simp: view_ok_def split: option.splits)
  have "tide_encode_stream_payload alloc out (Some s) =
      buffer_appends alloc out [?f, ?v, view_bytes (si_config s) (si_config_size s)]"
    unfolding tide_encode_stream_payload_def Let_def option.case tide_write_uleb128_def prod.case fixed var
      tide_buffer_append_view [OF v] guard if_False
    by (simp split: prod.split)
  then show ?thesis
    using appends_appended [of "[?f, ?v, view_bytes (si_config s) (si_config_size s)]" alloc out]
    by (simp add: stream_payload_bytes_def stream_payload_bytes_view [OF v])
qed

lemma tide_encode_packet_payload_appended:
  assumes "0 \<le> sint (pk_duration p)" and v: "view_ok (pv_data (pk_payload p)) (pv_size (pk_payload p))"
  shows "appended alloc out (packet_payload_bytes p) (tide_encode_packet_payload alloc out (Some p))"
proof -
  let ?f = "tide_u32_bytes (pk_track_id p) @ tide_u32_bytes (pk_generation p) @ u64_bytes (pk_packet_seq p) @
     u64_bytes (pk_dts p) @ u64_bytes (pk_pts p) @ u64_bytes (pk_duration p) @ tide_u32_bytes (pk_flags p)"
  let ?v = "tide_uleb128_bytes (of_nat (pv_size (pk_payload p)))"
  let ?d = "view_bytes (pv_data (pk_payload p)) (pv_size (pk_payload p))"
  have fixed: "tide_write_u32 (tide_write_i64 (tide_write_i64 (tide_write_i64 (tide_write_u64 (tide_write_u32 (tide_write_u32
      (replicate TIDE_PACKET_FIXED_SIZE 0) 0 (pk_track_id p)) 4 (pk_generation p)) 8 (pk_packet_seq p)) 16 (pk_dts p))
      24 (pk_pts p)) 32 (pk_duration p)) 40 (pk_flags p) = ?f"
    unfolding tide_write_i64_def TIDE_PACKET_FIXED_SIZE_def by (simp add: tide_span del: append_assoc)
  have vl: "length ?v \<le> 10" by (rule tide_uleb128_bytes_length)
  have var: "tide_buffer_append alloc b (Some (put_bytes (replicate 10 0) 0 ?v)) (length ?v) =
      tide_buffer_append alloc b (Some ?v) (length ?v)" for b
    using vl by (subst tide_buffer_append_take) (simp_all add: tide_span)
  have guard: "(pv_data (pk_payload p) = None \<and> pv_size (pk_payload p) \<noteq> 0 \<or> sint (pk_duration p) < 0) = False" using assms by (auto simp: view_ok_def split: option.splits)
  have "tide_encode_packet_payload alloc out (Some p) = buffer_appends alloc out [?f, ?v, ?d]"
    unfolding tide_encode_packet_payload_def Let_def option.case tide_write_uleb128_def prod.case fixed var
      tide_buffer_append_view [OF v] guard if_False
    by (simp add: TIDE_PACKET_FIXED_SIZE_def split: prod.split)
  moreover have "packet_payload_bytes p = concat [?f, ?v, ?d]"
    using v by (cases "pv_data (pk_payload p)") (auto simp: packet_payload_bytes_def view_ok_def view_bytes_def)
  ultimately show ?thesis using appends_appended [of "[?f, ?v, ?d]" alloc out] by simp
qed

end
