(* ===== verification/Tide_Decoder.thy ===== *)
theory Tide_Decoder
  imports Tide_Writer
begin

text \<open>
  The push decoder of \<open>src/format/decoder.c\<close>: header validation, record framing and integrity, the
  record semantics, the recursive record parser and the incremental \<open>tide_decoder_feed\<close>.

  State. \<open>tide_decoder_impl\<close> has the fields of the C struct; it is polymorphic in the state \<open>'u\<close>
  behind the C pointer \<open>user\<close>. A callback is a function that takes the user state and the event and
  returns its status with the new user state (\<open>None\<close>: the pointer is \<open>NULL\<close>). A callback cannot
  reach the decoder that calls it. The parameters \<open>error\<close> and \<open>valid_prefix\<close> of the parsing functions
  point to the fields of the same name in every incremental call, so the model keeps them in the
  state; \<open>tide_parse_tide_bytes\<close> runs on a fresh state and hands the two fields back.

  Data. A record is read from the list of bytes received so far. The C code passes the size up to
  which a function may read separately from the pointer; the model takes the span of the bytes
  between the two offsets.

  Parsing. \<open>tide_process_record\<close> and \<open>tide_parse_records\<close> are mutually recursive as in the source;
  the recursion ends because a child range lies strictly inside its group and a record is never
  empty (\<open>tide_decode_record_prefix_frame\<close>).
\<close>

subsection \<open>Events, callbacks and state\<close>

record tide_record_event =
  ev_type :: u16
  ev_flags :: u16
  ev_offset :: u64
  ev_payload_offset :: u64
  ev_payload_size :: u64
  ev_sequence :: u64
  ev_depth :: byte
  ev_skippable :: bool

record 'u tide_callbacks =
  on_record :: "('u \<Rightarrow> tide_record_event \<Rightarrow> tide_status \<times> 'u) option"
  on_stream :: "('u \<Rightarrow> tide_stream_info \<Rightarrow> tide_status \<times> 'u) option"
  on_packet :: "('u \<Rightarrow> tide_packet_info \<Rightarrow> tide_status \<times> 'u) option"
  on_error :: "('u \<Rightarrow> tide_error \<Rightarrow> 'u) option"

record tide_track_snapshot =
  ts_track_id :: u32
  ts_generation :: u32
  ts_media_kind :: u16
  ts_codec_tag :: u32
  ts_time_base :: tide_rational

record 'u tide_decoder_impl =
  di_limits :: tide_limits
  di_callbacks :: "'u tide_callbacks"
  di_user :: 'u
  di_buffer :: tide_buffer
  di_valid_prefix :: u64
  di_parse_offset :: nat
  di_cancelled :: bool
  di_terminal :: bool
  di_header_validated :: bool
  di_error :: tide_error
  di_tracks :: "tide_track_snapshot list"
  di_track_capacity :: nat

record tide_record_frame =
  fr_type :: u16
  fr_flags :: u16
  fr_header_size :: u16
  fr_alignment_log2 :: byte
  fr_payload_size :: u64
  fr_sequence :: u64
  fr_offset :: nat
  fr_payload_offset :: nat
  fr_payload_end :: nat
  fr_padding_end :: nat
  fr_crc_end :: nat
  fr_depth :: byte

definition no_callbacks :: "'u tide_callbacks" where
  "no_callbacks = \<lparr>on_record = None, on_stream = None, on_packet = None, on_error = None\<rparr>"

definition tide_set_parse_error :: "tide_status \<Rightarrow> u64 \<Rightarrow> u16 \<Rightarrow> byte \<Rightarrow> string \<Rightarrow> tide_error" where
  "tide_set_parse_error status offset type depth message =
     tide_error_value status TIDE_SEVERITY_ERROR offset type depth (Some ''decoder'') (Some message)"

subsection \<open>Header\<close>

definition tide_read_header :: "tide_reader \<Rightarrow> ((u16 \<times> u16 \<times> bytes \<times> tide_rational \<times> u64 \<times> u64 \<times> u64 \<times> u64 \<times> u32) \<times> tide_reader) option" where
  "tide_read_header r = do {
     (major, r) \<leftarrow> tide_reader_read_u16 r;
     (minor, r) \<leftarrow> tide_reader_read_u16 r;
     (uuid, r) \<leftarrow> tide_reader_read_bytes r TIDE_UUID_SIZE;
     (num, r) \<leftarrow> tide_reader_read_u32 r;
     (den, r) \<leftarrow> tide_reader_read_u32 r;
     (required_features, r) \<leftarrow> tide_reader_read_u64 r;
     (optional_features, r) \<leftarrow> tide_reader_read_u64 r;
     (max_record_hint, r) \<leftarrow> tide_reader_read_u64 r;
     (first_checkpoint_offset, r) \<leftarrow> tide_reader_read_u64 r;
     (stored_crc, r) \<leftarrow> tide_reader_read_u32 r;
     Some ((major, minor, uuid, \<lparr>numerator = num, denominator = den\<rparr>, required_features, optional_features,
            max_record_hint, first_checkpoint_offset, stored_crc), r) }"

definition tide_validate_header :: "bytes \<Rightarrow> tide_limits \<Rightarrow> tide_error \<Rightarrow> tide_status \<times> tide_error" where
  "tide_validate_header data limits error =
     (if length data < TIDE_HEADER_SIZE then
        (TIDE_STATUS_TRUNCATED, tide_set_parse_error TIDE_STATUS_TRUNCATED (of_nat (length data)) 0 0 ''incomplete header'')
      else if take 8 data \<noteq> tide_magic then
        (TIDE_STATUS_FORMAT, tide_set_parse_error TIDE_STATUS_FORMAT 0 0 0 ''bad magic'')
      else case tide_read_header (tide_reader_init (byte_span data 8 TIDE_HEADER_SIZE)) of
        None \<Rightarrow> (TIDE_STATUS_INTERNAL, tide_set_parse_error TIDE_STATUS_INTERNAL 0 0 0 ''header reader failed'')
      | Some ((major, minor, uuid, movie_base, required_features, optional_features, max_record_hint,
               first_checkpoint_offset, stored_crc), _) \<Rightarrow>
          if major \<noteq> 1 then
            (TIDE_STATUS_UNSUPPORTED, tide_set_parse_error TIDE_STATUS_UNSUPPORTED 8 0 0 ''unsupported major version'')
          else if uuid = replicate TIDE_UUID_SIZE 0 then
            (TIDE_STATUS_FORMAT, tide_set_parse_error TIDE_STATUS_FORMAT 12 0 0 ''zero file uuid'')
          else if \<not> tide_rational_is_valid movie_base then
            (TIDE_STATUS_TIMELINE, tide_set_parse_error TIDE_STATUS_TIMELINE 28 0 0 ''invalid movie time base'')
          else if required_features \<noteq> 0 then
            (TIDE_STATUS_UNSUPPORTED, tide_set_parse_error TIDE_STATUS_UNSUPPORTED 36 0 0 ''unknown required feature'')
          else if max_record_hint > max_record_size limits then
            (TIDE_STATUS_RESOURCE, tide_set_parse_error TIDE_STATUS_RESOURCE 52 0 0 ''record hint exceeds policy'')
          else if stored_crc \<noteq> tide_crc32c (take (TIDE_HEADER_SIZE - 4) data) then
            (TIDE_STATUS_INTEGRITY, tide_set_parse_error TIDE_STATUS_INTEGRITY 68 0 0 ''header crc mismatch'')
          else (TIDE_STATUS_OK, error))"

subsection \<open>Tracks\<close>

fun tide_find_track :: "tide_track_snapshot list \<Rightarrow> u32 \<Rightarrow> u32 \<Rightarrow> tide_track_snapshot option" where
  "tide_find_track [] track_id generation = None"
| "tide_find_track (t # ts) track_id generation =
     (if ts_track_id t = track_id \<and> ts_generation t = generation then Some t
      else tide_find_track ts track_id generation)"

text \<open>A \<open>tide_track_snapshot\<close> has 24 bytes.\<close>

definition tide_add_track ::
    "(nat \<Rightarrow> bool) \<Rightarrow> 'u tide_decoder_impl \<Rightarrow> tide_stream_info \<Rightarrow> u64 \<Rightarrow> tide_status \<times> 'u tide_decoder_impl" where
  "tide_add_track alloc s stream offset =
     (if tide_find_track (di_tracks s) (si_track_id stream) (si_generation stream) \<noteq> None then
        (TIDE_STATUS_FORMAT, s\<lparr>di_error := tide_set_parse_error TIDE_STATUS_FORMAT offset
           TIDE_RECORD_STREAM_DESC 0 ''duplicate stream generation''\<rparr>)
      else if length (di_tracks s) \<ge> unat (max_tracks (di_limits s)) then
        (TIDE_STATUS_RESOURCE, s\<lparr>di_error := tide_set_parse_error TIDE_STATUS_RESOURCE offset
           TIDE_RECORD_STREAM_DESC 0 ''track limit exceeded''\<rparr>)
      else let
        full = (length (di_tracks s) = di_track_capacity s);
        next = (if di_track_capacity s = 0 then 8 else di_track_capacity s * 2)
      in if full \<and> \<not> alloc (next * 24) then (TIDE_STATUS_RESOURCE, s)
         else (TIDE_STATUS_OK, s\<lparr>di_track_capacity := (if full then next else di_track_capacity s),
           di_tracks := di_tracks s @ [\<lparr>ts_track_id = si_track_id stream, ts_generation = si_generation stream,
             ts_media_kind = si_media_kind stream, ts_codec_tag = si_codec_tag stream,
             ts_time_base = si_time_base stream\<rparr>]\<rparr>))"

subsection \<open>Record framing\<close>

definition tide_read_prefix :: "tide_reader \<Rightarrow> ((u16 \<times> u16 \<times> u16 \<times> byte \<times> u64 \<times> u64) \<times> tide_reader) option" where
  "tide_read_prefix r = do {
     (type, r) \<leftarrow> tide_reader_read_u16 r;
     (flags, r) \<leftarrow> tide_reader_read_u16 r;
     (header_size, r) \<leftarrow> tide_reader_read_u16 r;
     (alignment_log2, r) \<leftarrow> tide_reader_read_u8 r;
     r \<leftarrow> tide_reader_skip r 1;
     (payload_size, r) \<leftarrow> tide_reader_read_uleb128 r;
     (sequence, r) \<leftarrow> tide_reader_read_uleb128 r;
     Some ((type, flags, header_size, alignment_log2, payload_size, sequence), r) }"

text \<open>The chain of checked additions that places the record: payload end, padding end and CRC end.\<close>

definition tide_place_record :: "nat \<Rightarrow> u16 \<Rightarrow> u64 \<Rightarrow> byte \<Rightarrow> (u64 \<times> u64 \<times> u64) option" where
  "tide_place_record offset header_size payload_size alignment_log2 = do {
     record_payload_end \<leftarrow> tide_checked_add_u64 (ucast header_size) payload_size;
     payload_end \<leftarrow> tide_checked_add_u64 (of_nat offset) record_payload_end;
     record_padded_end \<leftarrow> tide_align_u64 record_payload_end (push_bit (unat alignment_log2) 1);
     padding_end \<leftarrow> tide_checked_add_u64 (of_nat offset) record_padded_end;
     crc_end \<leftarrow> tide_checked_add_u64 padding_end 4;
     (if unat payload_end > SIZE_MAX \<or> unat padding_end > SIZE_MAX \<or> unat crc_end > SIZE_MAX then None
      else Some (payload_end, padding_end, crc_end)) }"

definition tide_decode_record_prefix ::
    "bytes \<Rightarrow> nat \<Rightarrow> nat \<Rightarrow> byte \<Rightarrow> tide_error \<Rightarrow> (tide_status \<times> tide_error) + tide_record_frame" where
  "tide_decode_record_prefix data n offset depth error =
     (if n - offset < 8 then Inl (TIDE_STATUS_TRUNCATED, error)
      else case tide_read_prefix (tide_reader_init (byte_span data offset n)) of
        None \<Rightarrow> Inl (TIDE_STATUS_TRUNCATED, error)
      | Some ((type, flags, header_size, alignment_log2, payload_size, sequence), r) \<Rightarrow>
          if unat header_size \<noteq> rd_offset r \<or> alignment_log2 > 4 then
            Inl (TIDE_STATUS_FORMAT, tide_set_parse_error TIDE_STATUS_FORMAT (of_nat offset) type depth ''invalid record prefix'')
          else case tide_place_record offset header_size payload_size alignment_log2 of
            None \<Rightarrow> Inl (TIDE_STATUS_RESOURCE, tide_set_parse_error TIDE_STATUS_RESOURCE (of_nat offset) type depth ''record size overflow'')
          | Some (payload_end, padding_end, crc_end) \<Rightarrow>
              if unat crc_end > n then Inl (TIDE_STATUS_TRUNCATED, error)
              else Inr \<lparr>fr_type = type, fr_flags = flags, fr_header_size = header_size,
                fr_alignment_log2 = alignment_log2, fr_payload_size = payload_size, fr_sequence = sequence,
                fr_offset = offset, fr_payload_offset = offset + unat header_size,
                fr_payload_end = unat payload_end, fr_padding_end = unat padding_end, fr_crc_end = unat crc_end,
                fr_depth = depth\<rparr>)"

fun tide_padding_scan :: "bytes \<Rightarrow> nat \<Rightarrow> nat \<Rightarrow> nat option" where
  "tide_padding_scan data i 0 = None"
| "tide_padding_scan data i (Suc n) = (if data ! i \<noteq> 0 then Some i else tide_padding_scan data (i + 1) n)"

definition tide_validate_record_integrity :: "bytes \<Rightarrow> tide_record_frame \<Rightarrow> tide_error \<Rightarrow> tide_status \<times> tide_error" where
  "tide_validate_record_integrity data f error =
     (case tide_padding_scan data (fr_payload_end f) (fr_padding_end f - fr_payload_end f) of
        Some i \<Rightarrow> (TIDE_STATUS_FORMAT, tide_set_parse_error TIDE_STATUS_FORMAT (of_nat i) (fr_type f) (fr_depth f) ''nonzero padding'')
      | None \<Rightarrow> let
          p = fr_padding_end f;
          stored = ucast (data ! p) OR push_bit 8 (ucast (data ! (p + 1))) OR
                   push_bit 16 (ucast (data ! (p + 2))) OR push_bit 24 (ucast (data ! (p + 3)));
          actual = tide_crc32c (byte_span data (fr_offset f) p)
        in if stored \<noteq> actual then
             (TIDE_STATUS_INTEGRITY, tide_set_parse_error TIDE_STATUS_INTEGRITY (of_nat p) (fr_type f) (fr_depth f) ''record crc mismatch'')
           else (TIDE_STATUS_OK, error))"

lemma unat_of_nat_size [simp]: "n \<le> SIZE_MAX \<Longrightarrow> unat (of_nat n :: u64) = n"
  by (simp add: SIZE_MAX_def unat_of_nat)

lemma unat_ucast_u16 [simp]: "unat (ucast (x :: u16) :: u64) = unat x"
  by (simp add: unsigned_ucast_eq take_bit_nat_eq_self_iff less_le_trans [OF unsigned_less])

lemma tide_place_record_Some:
  assumes "tide_place_record offset hs ps al = Some (pe, pad, ce)" and "al \<le> 4" and "offset \<le> SIZE_MAX"
  shows "unat pe = offset + (unat hs + unat ps)" and "unat pad = offset + align_up (unat al) (unat hs + unat ps)"
    and "unat ce = unat pad + 4"
proof -
  from assms(1) obtain w v where w: "tide_checked_add_u64 (ucast hs) ps = Some w"
    and pe: "tide_checked_add_u64 (of_nat offset) w = Some pe"
    and v: "tide_align_u64 w (push_bit (unat al) 1) = Some v"
    and pad: "tide_checked_add_u64 (of_nat offset) v = Some pad" and ce: "tide_checked_add_u64 pad 4 = Some ce"
    by (auto simp: tide_place_record_def bind_eq_Some_conv split: if_splits)
  have uw: "unat w = unat hs + unat ps" using w by (simp add: tide_checked_add_u64_iff)
  have k: "unat al < 64" using alignment_shift(2) [OF assms(2)] by simp
  have uv: "unat v = align_up (unat al) (unat w)"
    using tide_align_u64_pow2 [OF k] v alignment_shift(1) [OF assms(2)] by (simp add: align_up_def)
  show "unat pe = offset + (unat hs + unat ps)" "unat pad = offset + align_up (unat al) (unat hs + unat ps)"
    "unat ce = unat pad + 4"
    using pe pad ce assms(3) by (simp_all add: tide_checked_add_u64_iff uw uv)
qed

lemma tide_decode_record_prefix_frame:
  assumes "tide_decode_record_prefix data n offset depth error = Inr f" and "n \<le> SIZE_MAX"
  shows "fr_offset f = offset" and "fr_depth f = depth" and "fr_alignment_log2 f \<le> 4"
    and "fr_payload_offset f = offset + unat (fr_header_size f)"
    and "fr_payload_end f = fr_payload_offset f + unat (fr_payload_size f)"
    and "fr_padding_end f = offset + align_up (unat (fr_alignment_log2 f)) (unat (fr_header_size f) + unat (fr_payload_size f))"
    and "fr_crc_end f = fr_padding_end f + 4" and "fr_crc_end f \<le> n"
proof -
  from assms(1) obtain type flags hs al ps sq r pe pad ce where
    place: "tide_place_record offset hs ps al = Some (pe, pad, ce)" and al: "al \<le> 4" and n: "unat ce \<le> n" "8 \<le> n - offset"
    and f: "f = \<lparr>fr_type = type, fr_flags = flags, fr_header_size = hs, fr_alignment_log2 = al, fr_payload_size = ps,
      fr_sequence = sq, fr_offset = offset, fr_payload_offset = offset + unat hs, fr_payload_end = unat pe,
      fr_padding_end = unat pad, fr_crc_end = unat ce, fr_depth = depth\<rparr>"
    by (auto simp: tide_decode_record_prefix_def not_less split: if_splits option.splits)
  have "offset \<le> SIZE_MAX" using n(2) assms(2) by simp
  note p = tide_place_record_Some [OF place al this]
  show "fr_offset f = offset" "fr_depth f = depth" "fr_alignment_log2 f \<le> 4"
    "fr_payload_offset f = offset + unat (fr_header_size f)"
    "fr_payload_end f = fr_payload_offset f + unat (fr_payload_size f)"
    "fr_padding_end f = offset + align_up (unat (fr_alignment_log2 f)) (unat (fr_header_size f) + unat (fr_payload_size f))"
    "fr_crc_end f = fr_padding_end f + 4" "fr_crc_end f \<le> n"
    using p al n by (simp_all add: f)
qed

lemma tide_decode_record_prefix_order:
  assumes "tide_decode_record_prefix data n offset depth error = Inr f" and "n \<le> SIZE_MAX"
  shows "offset \<le> fr_payload_offset f" and "fr_payload_offset f \<le> fr_payload_end f" and "fr_payload_end f \<le> fr_padding_end f"
    and "fr_padding_end f < fr_crc_end f" and "fr_crc_end f \<le> n" and "offset < n"
proof -
  note f = tide_decode_record_prefix_frame [OF assms]
  show "offset \<le> fr_payload_offset f" "fr_payload_offset f \<le> fr_payload_end f" "fr_padding_end f < fr_crc_end f" "fr_crc_end f \<le> n"
    using f by simp_all
  show p: "fr_payload_end f \<le> fr_padding_end f"
    using f(4-6) align_up_bounds(1) [of "unat (fr_header_size f) + unat (fr_payload_size f)" "unat (fr_alignment_log2 f)"] by simp
  show "offset < n" using f p by simp
qed

subsection \<open>Stream descriptors and packets\<close>

definition tide_read_stream :: "tide_reader \<Rightarrow> (tide_stream_info \<times> tide_reader) option" where
  "tide_read_stream r = do {
     (track_id, r) \<leftarrow> tide_reader_read_u32 r;
     (generation, r) \<leftarrow> tide_reader_read_u32 r;
     (media_kind, r) \<leftarrow> tide_reader_read_u16 r;
     r \<leftarrow> tide_reader_skip r 2;
     (codec_tag, r) \<leftarrow> tide_reader_read_u32 r;
     (num, r) \<leftarrow> tide_reader_read_u32 r;
     (den, r) \<leftarrow> tide_reader_read_u32 r;
     (config_size_u64, r) \<leftarrow> tide_reader_read_uleb128 r;
     config_size \<leftarrow> tide_checked_u64_to_size config_size_u64;
     (config, r) \<leftarrow> tide_reader_read_bytes r config_size;
     Some (\<lparr>si_track_id = track_id, si_generation = generation, si_media_kind = media_kind, si_codec_tag = codec_tag,
            si_time_base = \<lparr>numerator = num, denominator = den\<rparr>, si_config = Some config, si_config_size = config_size\<rparr>, r) }"

definition tide_emit_stream ::
    "(nat \<Rightarrow> bool) \<Rightarrow> 'u tide_decoder_impl \<Rightarrow> bytes \<Rightarrow> tide_record_frame \<Rightarrow> tide_status \<times> 'u tide_decoder_impl" where
  "tide_emit_stream alloc s payload f =
     (case tide_read_stream (tide_reader_init payload) of
        Some (stream, r) \<Rightarrow>
          if rd_offset r \<noteq> length payload then
            (TIDE_STATUS_FORMAT, s\<lparr>di_error := tide_set_parse_error TIDE_STATUS_FORMAT (of_nat (fr_payload_offset f))
               (fr_type f) (fr_depth f) ''bad stream descriptor''\<rparr>)
          else if \<not> tide_rational_is_valid (si_time_base stream) then
            (TIDE_STATUS_TIMELINE, s\<lparr>di_error := tide_set_parse_error TIDE_STATUS_TIMELINE (of_nat (fr_payload_offset f))
               (fr_type f) (fr_depth f) ''invalid stream time base''\<rparr>)
          else (case tide_add_track alloc s stream (of_nat (fr_offset f)) of (status, s) \<Rightarrow>
            if status \<noteq> TIDE_STATUS_OK then (err_code (di_error s), s)
            else case on_stream (di_callbacks s) of
              None \<Rightarrow> (TIDE_STATUS_OK, s)
            | Some cb \<Rightarrow> (case cb (di_user s) stream of (status, user) \<Rightarrow> (status, s\<lparr>di_user := user\<rparr>)))
      | None \<Rightarrow>
          (TIDE_STATUS_FORMAT, s\<lparr>di_error := tide_set_parse_error TIDE_STATUS_FORMAT (of_nat (fr_payload_offset f))
             (fr_type f) (fr_depth f) ''bad stream descriptor''\<rparr>))"

definition tide_read_packet :: "tide_reader \<Rightarrow> (tide_packet_info \<times> tide_reader) option" where
  "tide_read_packet r = do {
     (track_id, r) \<leftarrow> tide_reader_read_u32 r;
     (generation, r) \<leftarrow> tide_reader_read_u32 r;
     (packet_seq, r) \<leftarrow> tide_reader_read_u64 r;
     (dts, r) \<leftarrow> tide_reader_read_i64 r;
     (pts, r) \<leftarrow> tide_reader_read_i64 r;
     (duration, r) \<leftarrow> tide_reader_read_i64 r;
     (flags, r) \<leftarrow> tide_reader_read_u32 r;
     (packet_payload_u64, r) \<leftarrow> tide_reader_read_uleb128 r;
     packet_payload_size \<leftarrow> tide_checked_u64_to_size packet_payload_u64;
     (data, r) \<leftarrow> tide_reader_read_bytes r packet_payload_size;
     Some (\<lparr>pk_track_id = track_id, pk_generation = generation, pk_packet_seq = packet_seq, pk_dts = dts, pk_pts = pts,
            pk_duration = duration, pk_flags = flags,
            pk_payload = \<lparr>pv_data = Some data, pv_size = packet_payload_size, pv_lease = None\<rparr>\<rparr>, r) }"

definition tide_emit_packet ::
    "'u tide_decoder_impl \<Rightarrow> bytes \<Rightarrow> tide_record_frame \<Rightarrow> tide_status \<times> 'u tide_decoder_impl" where
  "tide_emit_packet s payload f =
     (let fail = (\<lambda>status message. (status, s\<lparr>di_error := tide_set_parse_error status (of_nat (fr_payload_offset f))
            (fr_type f) (fr_depth f) message\<rparr>)) in
      case tide_read_packet (tide_reader_init payload) of
        Some (packet, r) \<Rightarrow>
          if rd_offset r \<noteq> length payload then fail TIDE_STATUS_FORMAT ''bad packet''
          else if sint (pk_duration packet) < 0 then fail TIDE_STATUS_TIMELINE ''negative packet duration''
          else if tide_find_track (di_tracks s) (pk_track_id packet) (pk_generation packet) = None
            then fail TIDE_STATUS_FORMAT ''packet before descriptor''
          else (case on_packet (di_callbacks s) of
              None \<Rightarrow> (TIDE_STATUS_OK, s)
            | Some cb \<Rightarrow> (case cb (di_user s) packet of (status, user) \<Rightarrow> (status, s\<lparr>di_user := user\<rparr>)))
      | None \<Rightarrow> fail TIDE_STATUS_FORMAT ''bad packet'')"

subsection \<open>Records without events\<close>

text \<open>
  Each check returns \<open>None\<close> when the record is accepted, or the status and message of the error that
  the C code sets at the payload offset. The loops run over the remaining number of entries, with the
  index \<open>i\<close> of the entry; they return the reader behind the entries, or the message.
\<close>

definition tide_read_table_entry :: "tide_reader \<Rightarrow> ((u64 \<times> i64 \<times> u64 \<times> u64) \<times> tide_reader) option" where
  "tide_read_table_entry r = do {
     (packet_seq, r) \<leftarrow> tide_reader_read_u64 r;
     (dts, r) \<leftarrow> tide_reader_read_i64 r;
     (pts, r) \<leftarrow> tide_reader_read_i64 r;
     (duration, r) \<leftarrow> tide_reader_read_i64 r;
     (flags, r) \<leftarrow> tide_reader_read_u32 r;
     (range_offset, r) \<leftarrow> tide_reader_read_u64 r;
     (range_size, r) \<leftarrow> tide_reader_read_u64 r;
     Some ((packet_seq, duration, range_offset, range_size), r) }"

fun tide_packet_table_loop :: "nat \<Rightarrow> nat \<Rightarrow> u64 \<Rightarrow> u64 \<Rightarrow> tide_reader \<Rightarrow> string + tide_reader" where
  "tide_packet_table_loop 0 i previous_seq previous_end r = Inr r"
| "tide_packet_table_loop (Suc n) i previous_seq previous_end r =
     (case tide_read_table_entry r of
        None \<Rightarrow> Inl ''bad packet table entry''
      | Some ((packet_seq, duration, range_offset, range_size), r) \<Rightarrow>
          if sint duration < 0 then Inl ''bad packet table entry''
          else (case tide_checked_add_u64 range_offset range_size of
              None \<Rightarrow> Inl ''bad packet table entry''
            | Some range_end \<Rightarrow>
                if i \<noteq> 0 \<and> packet_seq \<le> previous_seq \<or> range_offset < previous_end then Inl ''bad packet table entry''
                else tide_packet_table_loop n (i + 1) packet_seq range_end r))"

definition tide_read_table_header :: "tide_reader \<Rightarrow> ((u32 \<times> u32 \<times> u64) \<times> tide_reader) option" where
  "tide_read_table_header r = do {
     (track_id, r) \<leftarrow> tide_reader_read_u32 r;
     (generation, r) \<leftarrow> tide_reader_read_u32 r;
     (cnt, r) \<leftarrow> tide_reader_read_uleb128 r;
     Some ((track_id, generation, cnt), r) }"

definition tide_check_packet_table ::
    "tide_limits \<Rightarrow> tide_track_snapshot list \<Rightarrow> bytes \<Rightarrow> (tide_status \<times> string) option" where
  "tide_check_packet_table limits tracks payload =
     (case tide_read_table_header (tide_reader_init payload) of
        None \<Rightarrow> Some (TIDE_STATUS_RESOURCE, ''packet table limit'')
      | Some ((track_id, generation, cnt), r) \<Rightarrow>
          if unat cnt > unat (max_packet_table_entries limits) \<or> tide_find_track tracks track_id generation = None
          then Some (TIDE_STATUS_RESOURCE, ''packet table limit'')
          else (case tide_packet_table_loop (unat cnt) 0 0 0 r of
              Inl message \<Rightarrow> Some (TIDE_STATUS_FORMAT, message)
            | Inr r \<Rightarrow> if rd_offset r \<noteq> length payload then Some (TIDE_STATUS_FORMAT, ''packet table trailing bytes'') else None))"

definition tide_read_edit_entry :: "tide_reader \<Rightarrow> (tide_edit_entry \<times> tide_reader) option" where
  "tide_read_edit_entry r = do {
     (start, r) \<leftarrow> tide_reader_read_i64 r;
     (duration, r) \<leftarrow> tide_reader_read_i64 r;
     (source, r) \<leftarrow> tide_reader_read_i64 r;
     (num, r) \<leftarrow> tide_reader_read_u32 r;
     (den, r) \<leftarrow> tide_reader_read_u32 r;
     Some (\<lparr>output_start = start, output_duration = duration, source_start = source,
            edit_rate = \<lparr>numerator = num, denominator = den\<rparr>\<rparr>, r) }"

fun tide_edit_list_loop :: "nat \<Rightarrow> nat \<Rightarrow> int \<Rightarrow> tide_reader \<Rightarrow> string + tide_reader" where
  "tide_edit_list_loop 0 i previous_end r = Inr r"
| "tide_edit_list_loop (Suc n) i previous_end r =
     (case tide_read_edit_entry r of
        None \<Rightarrow> Inl ''bad edit entry''
      | Some (e, r) \<Rightarrow>
          if sint (output_duration e) < 0 \<or> sint (output_start e) > INT64_MAX - sint (output_duration e) \<or>
             \<not> tide_rational_is_valid (edit_rate e) then Inl ''bad edit entry''
          else let output_end = sint (output_start e) + sint (output_duration e) in
            if i \<noteq> 0 \<and> sint (output_start e) < previous_end then Inl ''overlapping edit entries''
            else tide_edit_list_loop n (i + 1) output_end r)"

definition tide_check_edit_list ::
    "tide_limits \<Rightarrow> tide_track_snapshot list \<Rightarrow> bytes \<Rightarrow> (tide_status \<times> string) option" where
  "tide_check_edit_list limits tracks payload =
     (case tide_read_table_header (tide_reader_init payload) of
        None \<Rightarrow> Some (TIDE_STATUS_TIMELINE, ''bad edit list'')
      | Some ((track_id, generation, cnt), r) \<Rightarrow>
          if unat cnt > unat (max_edit_entries limits) \<or> tide_find_track tracks track_id generation = None
          then Some (TIDE_STATUS_TIMELINE, ''bad edit list'')
          else (case tide_edit_list_loop (unat cnt) 0 INT64_MIN r of
              Inl message \<Rightarrow> Some (TIDE_STATUS_TIMELINE, message)
            | Inr r \<Rightarrow> if rd_offset r \<noteq> length payload then Some (TIDE_STATUS_FORMAT, ''edit list trailing bytes'') else None))"

definition tide_check_discontinuity :: "tide_track_snapshot list \<Rightarrow> bytes \<Rightarrow> (tide_status \<times> string) option" where
  "tide_check_discontinuity tracks payload =
     (case do {
        (track_id, r) \<leftarrow> tide_reader_read_u32 (tide_reader_init payload);
        (generation, r) \<leftarrow> tide_reader_read_u32 r;
        (epoch, r) \<leftarrow> tide_reader_read_u64 r;
        (reason, r) \<leftarrow> tide_reader_read_u32 r;
        (if epoch = 0 \<or> rd_offset r \<noteq> length payload \<or>
            track_id \<noteq> 0 \<and> tide_find_track tracks track_id generation = None then None else Some ()) } of
        None \<Rightarrow> Some (TIDE_STATUS_FORMAT, ''bad discontinuity'')
      | Some _ \<Rightarrow> None)"

definition tide_seek_sort_key :: "u32 \<Rightarrow> i64 \<Rightarrow> u64" where
  "tide_seek_sort_key track_id pts = push_bit 32 (ucast track_id) XOR (if sint pts < 0 then 0 else pts)"

definition tide_read_seek_entry :: "tide_reader \<Rightarrow> ((u32 \<times> u32 \<times> u64 \<times> i64 \<times> u64 \<times> u64) \<times> tide_reader) option" where
  "tide_read_seek_entry r = do {
     (track_id, r) \<leftarrow> tide_reader_read_u32 r;
     (generation, r) \<leftarrow> tide_reader_read_u32 r;
     (packet_seq, r) \<leftarrow> tide_reader_read_u64 r;
     (pts, r) \<leftarrow> tide_reader_read_i64 r;
     (group_offset, r) \<leftarrow> tide_reader_read_u64 r;
     (record_offset, r) \<leftarrow> tide_reader_read_u64 r;
     Some ((track_id, generation, packet_seq, pts, group_offset, record_offset), r) }"

fun tide_seek_index_loop ::
    "tide_track_snapshot list \<Rightarrow> u64 \<Rightarrow> nat \<Rightarrow> nat \<Rightarrow> u64 \<Rightarrow> tide_reader \<Rightarrow> string + tide_reader" where
  "tide_seek_index_loop tracks frame_offset 0 i previous_sort_key r = Inr r"
| "tide_seek_index_loop tracks frame_offset (Suc n) i previous_sort_key r =
     (case tide_read_seek_entry r of
        None \<Rightarrow> Inl ''bad seek index entry''
      | Some ((track_id, generation, packet_seq, pts, group_offset, record_offset), r) \<Rightarrow>
          if tide_find_track tracks track_id generation = None \<or> group_offset < of_nat TIDE_HEADER_SIZE \<or>
             record_offset < group_offset \<or> record_offset \<ge> frame_offset then Inl ''bad seek index entry''
          else let sort_key = tide_seek_sort_key track_id pts in
            if i \<noteq> 0 \<and> sort_key < previous_sort_key then Inl ''unsorted seek index''
            else tide_seek_index_loop tracks frame_offset n (i + 1) sort_key r)"

definition tide_check_seek_index ::
    "tide_track_snapshot list \<Rightarrow> u64 \<Rightarrow> bytes \<Rightarrow> (tide_status \<times> string) option" where
  "tide_check_seek_index tracks frame_offset payload =
     (case do {
        (index_generation, r) \<leftarrow> tide_reader_read_u64 (tide_reader_init payload);
        tide_reader_read_uleb128 r } of
        None \<Rightarrow> Some (TIDE_STATUS_INDEX, ''bad seek index header'')
      | Some (cnt, r) \<Rightarrow>
          (case tide_seek_index_loop tracks frame_offset (unat cnt) 0 0 r of
             Inl message \<Rightarrow> Some (TIDE_STATUS_INDEX, message)
           | Inr r \<Rightarrow> if rd_offset r \<noteq> length payload then Some (TIDE_STATUS_INDEX, ''seek index trailing bytes'') else None))"

fun tide_checkpoint_loop :: "tide_track_snapshot list \<Rightarrow> nat \<Rightarrow> tide_reader \<Rightarrow> string + tide_reader" where
  "tide_checkpoint_loop tracks 0 r = Inr r"
| "tide_checkpoint_loop tracks (Suc n) r =
     (case do {
        (track_id, r) \<leftarrow> tide_reader_read_u32 r;
        (generation, r) \<leftarrow> tide_reader_read_u32 r;
        (if tide_find_track tracks track_id generation = None then None else Some r) } of
        None \<Rightarrow> Inl ''bad checkpoint descriptor''
      | Some r \<Rightarrow> tide_checkpoint_loop tracks n r)"

definition tide_check_checkpoint ::
    "tide_limits \<Rightarrow> tide_track_snapshot list \<Rightarrow> u64 \<Rightarrow> bytes \<Rightarrow> (tide_status \<times> string) option" where
  "tide_check_checkpoint limits tracks frame_offset payload =
     (case do {
        (group_sequence, r) \<leftarrow> tide_reader_read_u64 (tide_reader_init payload);
        (prefix_offset, r) \<leftarrow> tide_reader_read_u64 r;
        (digest, r) \<leftarrow> tide_reader_read_bytes r TIDE_DIGEST_SIZE;
        (cnt, r) \<leftarrow> tide_reader_read_uleb128 r;
        (if prefix_offset > frame_offset \<or> unat cnt > unat (max_tracks limits) then None else Some (cnt, r)) } of
        None \<Rightarrow> Some (TIDE_STATUS_FORMAT, ''bad checkpoint'')
      | Some (cnt, r) \<Rightarrow>
          (case tide_checkpoint_loop tracks (unat cnt) r of
             Inl message \<Rightarrow> Some (TIDE_STATUS_FORMAT, message)
           | Inr r \<Rightarrow> if rd_offset r \<noteq> length payload then Some (TIDE_STATUS_FORMAT, ''checkpoint trailing bytes'') else None))"

definition tide_read_directory_entry :: "tide_reader \<Rightarrow> ((u64 \<times> i64 \<times> i64 \<times> u64) \<times> tide_reader) option" where
  "tide_read_directory_entry r = do {
     (generation, r) \<leftarrow> tide_reader_read_u64 r;
     (start_time, r) \<leftarrow> tide_reader_read_i64 r;
     (end_time, r) \<leftarrow> tide_reader_read_i64 r;
     (offset, r) \<leftarrow> tide_reader_read_u64 r;
     Some ((generation, start_time, end_time, offset), r) }"

fun tide_index_directory_loop :: "u64 \<Rightarrow> nat \<Rightarrow> nat \<Rightarrow> u64 \<Rightarrow> u64 \<Rightarrow> tide_reader \<Rightarrow> string + tide_reader" where
  "tide_index_directory_loop frame_offset 0 i previous_generation previous_end r = Inr r"
| "tide_index_directory_loop frame_offset (Suc n) i previous_generation previous_end r =
     (case tide_read_directory_entry r of
        None \<Rightarrow> Inl ''bad index directory entry''
      | Some ((generation, start_time, end_time, offset), r) \<Rightarrow>
          if sint start_time < 0 \<or> sint end_time < sint start_time \<or> offset < of_nat TIDE_HEADER_SIZE \<or>
             offset \<ge> frame_offset \<or> i \<noteq> 0 \<and> generation \<le> previous_generation \<or> i \<noteq> 0 \<and> start_time < previous_end
          then Inl ''bad index directory entry''
          else tide_index_directory_loop frame_offset n (i + 1) generation end_time r)"

definition tide_check_index_directory :: "u64 \<Rightarrow> bytes \<Rightarrow> (tide_status \<times> string) option" where
  "tide_check_index_directory frame_offset payload =
     (case tide_reader_read_uleb128 (tide_reader_init payload) of
        None \<Rightarrow> Some (TIDE_STATUS_INDEX, ''bad index directory'')
      | Some (cnt, r) \<Rightarrow>
          (case tide_index_directory_loop frame_offset (unat cnt) 0 0 0 r of
             Inl message \<Rightarrow> Some (TIDE_STATUS_INDEX, message)
           | Inr r \<Rightarrow> if rd_offset r \<noteq> length payload then Some (TIDE_STATUS_INDEX, ''index directory trailing bytes'') else None))"

definition tide_check_footer :: "bytes \<Rightarrow> tide_record_frame \<Rightarrow> bytes \<Rightarrow> (tide_status \<times> string) option" where
  "tide_check_footer file_data f payload =
     (case do {
        (file_length, r) \<leftarrow> tide_reader_read_u64 (tide_reader_init payload);
        (index_directory_offset, r) \<leftarrow> tide_reader_read_u64 r;
        (last_checkpoint_sequence, r) \<leftarrow> tide_reader_read_uleb128 r;
        (digest, r) \<leftarrow> tide_reader_read_bytes r TIDE_DIGEST_SIZE;
        (if rd_offset r \<noteq> length payload \<or> file_length \<noteq> of_nat (fr_crc_end f) \<or>
            index_directory_offset \<noteq> 0 \<and>
              (index_directory_offset < of_nat TIDE_HEADER_SIZE \<or> index_directory_offset \<ge> of_nat (fr_offset f))
         then None else Some digest) } of
        None \<Rightarrow> Some (TIDE_STATUS_FORMAT, ''bad footer'')
      | Some digest \<Rightarrow>
          if digest \<noteq> tide_digest_adapter32 (byte_span file_data 0 (fr_offset f))
          then Some (TIDE_STATUS_INTEGRITY, ''footer digest mismatch'') else None)"

definition tide_check_simple_record ::
    "'u tide_decoder_impl \<Rightarrow> bytes \<Rightarrow> bytes \<Rightarrow> tide_record_frame \<Rightarrow> (tide_status \<times> string) option" where
  "tide_check_simple_record s file_data payload f =
     (if fr_type f = TIDE_RECORD_PACKET_TABLE then tide_check_packet_table (di_limits s) (di_tracks s) payload
      else if fr_type f = TIDE_RECORD_EDIT_LIST then tide_check_edit_list (di_limits s) (di_tracks s) payload
      else if fr_type f = TIDE_RECORD_DISCONTINUITY then tide_check_discontinuity (di_tracks s) payload
      else if fr_type f = TIDE_RECORD_SEEK_INDEX then tide_check_seek_index (di_tracks s) (of_nat (fr_offset f)) payload
      else if fr_type f = TIDE_RECORD_CHECKPOINT then tide_check_checkpoint (di_limits s) (di_tracks s) (of_nat (fr_offset f)) payload
      else if fr_type f = TIDE_RECORD_INDEX_DIRECTORY then tide_check_index_directory (of_nat (fr_offset f)) payload
      else if fr_type f = TIDE_RECORD_FOOTER then tide_check_footer file_data f payload
      else None)"

definition tide_emit_simple_record ::
    "'u tide_decoder_impl \<Rightarrow> bytes \<Rightarrow> bytes \<Rightarrow> tide_record_frame \<Rightarrow> tide_status \<times> 'u tide_decoder_impl" where
  "tide_emit_simple_record s file_data payload f =
     (case tide_check_simple_record s file_data payload f of
        None \<Rightarrow> (TIDE_STATUS_OK, s)
      | Some (status, message) \<Rightarrow>
          (status, s\<lparr>di_error := tide_set_parse_error status (of_nat (fr_payload_offset f)) (fr_type f) (fr_depth f) message\<rparr>))"

subsection \<open>Records and groups\<close>

definition tide_event :: "tide_record_frame \<Rightarrow> tide_record_event" where
  "tide_event f = \<lparr>ev_type = fr_type f, ev_flags = fr_flags f, ev_offset = of_nat (fr_offset f),
     ev_payload_offset = of_nat (fr_payload_offset f), ev_payload_size = fr_payload_size f,
     ev_sequence = fr_sequence f, ev_depth = fr_depth f,
     ev_skippable = (fr_type f AND TIDE_RECORD_SKIPPABLE_BIT \<noteq> 0)\<rparr>"

definition tide_notify_record :: "'u tide_decoder_impl \<Rightarrow> tide_record_event \<Rightarrow> tide_status \<times> 'u tide_decoder_impl" where
  "tide_notify_record s event =
     (case on_record (di_callbacks s) of
        None \<Rightarrow> (TIDE_STATUS_OK, s)
      | Some cb \<Rightarrow> (case cb (di_user s) event of (status, user) \<Rightarrow> (status, s\<lparr>di_user := user\<rparr>)))"

definition tide_read_group :: "tide_reader \<Rightarrow> ((u16 \<times> u64 \<times> u64) \<times> tide_reader) option" where
  "tide_read_group r = do {
     (group_kind, r) \<leftarrow> tide_reader_read_u16 r;
     r \<leftarrow> tide_reader_skip r 2;
     (child_bytes, r) \<leftarrow> tide_reader_read_u64 r;
     (group_sequence, r) \<leftarrow> tide_reader_read_u64 r;
     Some ((group_kind, child_bytes, group_sequence), r) }"

text \<open>
  The checks of a group before its children are parsed: \<open>Inl\<close> the status, offset and message of the
  error. The depth is compared as the \<open>uint8_t\<close> it is, widened to 32 bits.
\<close>

definition tide_check_group :: "tide_limits \<Rightarrow> bytes \<Rightarrow> tide_record_frame \<Rightarrow> (tide_status \<times> nat \<times> string) option" where
  "tide_check_group limits payload f =
     (if length payload < TIDE_GROUP_META_SIZE then Some (TIDE_STATUS_FORMAT, fr_payload_offset f, ''short group'')
      else case tide_read_group (tide_reader_init payload) of
        None \<Rightarrow> Some (TIDE_STATUS_FORMAT, fr_payload_offset f, ''bad group child length'')
      | Some ((group_kind, child_bytes, group_sequence), r) \<Rightarrow>
          if child_bytes \<noteq> of_nat (length payload - TIDE_GROUP_META_SIZE)
          then Some (TIDE_STATUS_FORMAT, fr_payload_offset f, ''bad group child length'')
          else if ucast (fr_depth f) \<ge> max_depth limits
          then Some (TIDE_STATUS_RESOURCE, fr_offset f, ''group depth limit'')
          else None)"

text \<open>
  A \<open>size_t\<close> is at most \<open>SIZE_MAX\<close>; the conjunct \<open>stop \<le> SIZE_MAX\<close> of the loop condition only makes
  the recursion total. The two early returns of \<open>tide_process_record\<close> on a skippable record and on a
  callback that does not return \<open>OK\<close> are the first branches.
\<close>

lemma tide_check_group_length:
  "tide_check_group limits (byte_span data b e) f = None \<Longrightarrow> TIDE_GROUP_META_SIZE \<le> e - b"
  by (auto simp: tide_check_group_def split: if_splits)

function tide_process_record ::
    "(nat \<Rightarrow> bool) \<Rightarrow> 'u tide_decoder_impl \<Rightarrow> bytes \<Rightarrow> tide_record_frame \<Rightarrow> tide_status \<times> 'u tide_decoder_impl"
and tide_parse_records ::
    "(nat \<Rightarrow> bool) \<Rightarrow> 'u tide_decoder_impl \<Rightarrow> bytes \<Rightarrow> nat \<Rightarrow> nat \<Rightarrow> byte \<Rightarrow> tide_status \<times> 'u tide_decoder_impl" where
  "tide_process_record alloc s data f =
     (let payload = byte_span data (fr_payload_offset f) (fr_payload_end f);
          (status, s1) = tide_notify_record s (tide_event f)
      in if fr_type f AND TIDE_RECORD_SKIPPABLE_BIT \<noteq> 0 then (status, s1)
         else if status \<noteq> TIDE_STATUS_OK then (status, s1)
         else if fr_type f = TIDE_RECORD_GROUP then
           (case tide_check_group (di_limits s1) payload f of
              Some (status, offset, message) \<Rightarrow>
                (status, s1\<lparr>di_error := tide_set_parse_error status (of_nat offset) (fr_type f) (fr_depth f) message\<rparr>)
            | None \<Rightarrow>
                let
                  child_begin = fr_payload_offset f + TIDE_GROUP_META_SIZE;
                  (status, s2) = tide_parse_records alloc s1 data child_begin (fr_payload_end f) (fr_depth f + 1)
                in if status = TIDE_STATUS_TRUNCATED then
                     (TIDE_STATUS_FORMAT, s2\<lparr>di_error := tide_set_parse_error TIDE_STATUS_FORMAT (of_nat child_begin)
                        (fr_type f) (fr_depth f) ''complete group contains incomplete child''\<rparr>)
                   else (status, s2))
         else if fr_type f = TIDE_RECORD_STREAM_DESC then tide_emit_stream alloc s1 payload f
         else if fr_type f = TIDE_RECORD_PACKET then tide_emit_packet s1 payload f
         else if fr_type f \<in> {TIDE_RECORD_PACKET_TABLE, TIDE_RECORD_EDIT_LIST, TIDE_RECORD_DISCONTINUITY,
             TIDE_RECORD_SEEK_INDEX, TIDE_RECORD_CHECKPOINT, TIDE_RECORD_INDEX_DIRECTORY, TIDE_RECORD_FOOTER}
           then tide_emit_simple_record s1 data payload f
         else (TIDE_STATUS_UNSUPPORTED, s1\<lparr>di_error := tide_set_parse_error TIDE_STATUS_UNSUPPORTED (of_nat (fr_offset f))
           (fr_type f) (fr_depth f) ''unknown required record''\<rparr>))"
| "tide_parse_records alloc s data cursor stop depth =
     (if cursor < stop \<and> stop \<le> SIZE_MAX then
        (case tide_decode_record_prefix data stop cursor depth (di_error s) of
           Inl (status, error) \<Rightarrow>
             if status = TIDE_STATUS_TRUNCATED
             then (TIDE_STATUS_TRUNCATED, s\<lparr>di_error := error, di_valid_prefix := of_nat cursor\<rparr>)
             else (status, s\<lparr>di_error := error\<rparr>)
         | Inr f \<Rightarrow>
             if fr_payload_size f > max_payload_size (di_limits s) \<or>
                of_nat (fr_crc_end f - fr_offset f) > max_record_size (di_limits s) then
               (TIDE_STATUS_RESOURCE, s\<lparr>di_error := tide_set_parse_error TIDE_STATUS_RESOURCE (of_nat cursor)
                  (fr_type f) depth ''record exceeds limit''\<rparr>)
             else (case tide_validate_record_integrity data f (di_error s) of (status, error) \<Rightarrow>
               if status \<noteq> TIDE_STATUS_OK then (status, s\<lparr>di_error := error\<rparr>)
               else let (status, s1) = tide_process_record alloc s data f in
                 if status \<noteq> TIDE_STATUS_OK then (status, s1)
                 else tide_parse_records alloc (s1\<lparr>di_valid_prefix := of_nat (fr_crc_end f)\<rparr>) data (fr_crc_end f) stop depth))
      else if cursor \<noteq> stop then
        (TIDE_STATUS_FORMAT, s\<lparr>di_error := tide_set_parse_error TIDE_STATUS_FORMAT (of_nat cursor) 0 depth ''record boundary mismatch''\<rparr>)
      else (TIDE_STATUS_OK, s))"
  by pat_completeness auto

termination
proof (relation "measure (\<lambda>x. case x of
      Inl (alloc, s, data, f) \<Rightarrow> 2 * (fr_payload_end f - fr_payload_offset f)
    | Inr (alloc, s, data, cursor, stop, depth) \<Rightarrow> 2 * (stop - cursor) + 1)", goal_cases)
  case (2 alloc s data f)
  then have "TIDE_GROUP_META_SIZE \<le> fr_payload_end f - fr_payload_offset f" by (metis tide_check_group_length)
  then show ?case using 2 by (simp add: TIDE_GROUP_META_SIZE_def)
next
  case (3 alloc s data cursor stop depth f)
  then show ?case using tide_decode_record_prefix_order [of data stop cursor depth "di_error s" f] by auto
next
  case (4 alloc s data cursor stop depth f)
  then show ?case using tide_decode_record_prefix_order [of data stop cursor depth "di_error s" f] by auto
qed simp

declare tide_process_record.simps [simp del] tide_parse_records.simps [simp del]

subsection \<open>Whole byte strings\<close>

definition tide_decoder_fresh :: "tide_limits \<Rightarrow> 'u tide_callbacks \<Rightarrow> 'u \<Rightarrow> 'u tide_decoder_impl" where
  "tide_decoder_fresh limits callbacks user = \<lparr>di_limits = limits, di_callbacks = callbacks, di_user = user,
     di_buffer = \<lparr>buf_data = [], buf_capacity = 0, buf_limit = 0\<rparr>, di_valid_prefix = 0, di_parse_offset = 0,
     di_cancelled = False, di_terminal = False, di_header_validated = False, di_error = tide_error_clear,
     di_tracks = [], di_track_capacity = 0\<rparr>"

text \<open>
  The result is the status with what the call stores through its pointers \<open>error\<close>, \<open>valid_prefix\<close>
  and \<open>user\<close>; the first two are given so that an early return leaves them as they were. Every caller
  in the library passes non-\<open>NULL\<close> pointers for both.
\<close>

definition tide_parse_tide_bytes ::
    "(nat \<Rightarrow> bool) \<Rightarrow> bytes option \<Rightarrow> nat \<Rightarrow> bool \<Rightarrow> tide_limits option \<Rightarrow> 'u tide_callbacks option \<Rightarrow> 'u \<Rightarrow>
     tide_error \<Rightarrow> u64 \<Rightarrow> tide_status \<times> tide_error \<times> u64 \<times> 'u" where
  "tide_parse_tide_bytes alloc data n end limits callbacks user error valid_prefix =
     (if data = None \<and> n \<noteq> 0 then (TIDE_STATUS_INVALID_ARGUMENT, error, valid_prefix, user)
      else let
        bs = take n (case data of None \<Rightarrow> [] | Some d \<Rightarrow> d);
        effective_limits = (case limits of None \<Rightarrow> tide_limits_default | Some l \<Rightarrow> l);
        s = tide_decoder_fresh effective_limits (case callbacks of None \<Rightarrow> no_callbacks | Some c \<Rightarrow> c) user;
        (status, err) = tide_validate_header bs effective_limits (di_error s)
      in if status \<noteq> TIDE_STATUS_OK then
           ((if status = TIDE_STATUS_TRUNCATED \<and> end then TIDE_STATUS_PARTIAL else status), err, 0, user)
         else let
           (status, s) = tide_parse_records alloc (s\<lparr>di_error := err, di_valid_prefix := of_nat TIDE_HEADER_SIZE\<rparr>)
             bs TIDE_HEADER_SIZE n 0
         in ((if status = TIDE_STATUS_TRUNCATED \<and> end then TIDE_STATUS_PARTIAL else status),
             di_error s, di_valid_prefix s, di_user s))"

subsection \<open>Incremental decoding\<close>

text \<open>A \<open>tide_decoder\<close> is the pointer to its state; the struct has 384 bytes on the 64-bit targets.\<close>

type_synonym 'u tide_decoder = "'u tide_decoder_impl option"

definition sizeof_decoder_impl :: nat where "sizeof_decoder_impl = 384"

definition tide_impl :: "'u tide_decoder option \<Rightarrow> 'u tide_decoder_impl option" where
  "tide_impl decoder = (case decoder of None \<Rightarrow> None | Some d \<Rightarrow> d)"

definition tide_decoder_init ::
    "(nat \<Rightarrow> bool) \<Rightarrow> 'u tide_decoder option \<Rightarrow> tide_limits option \<Rightarrow> 'u tide_callbacks option \<Rightarrow> 'u \<Rightarrow>
     tide_status \<times> 'u tide_decoder option" where
  "tide_decoder_init alloc decoder limits callbacks user =
     (if decoder = None then (TIDE_STATUS_INVALID_ARGUMENT, None)
      else if \<not> alloc sizeof_decoder_impl then (TIDE_STATUS_RESOURCE, Some None)
      else let
        l = (case limits of None \<Rightarrow> tide_limits_default | Some l \<Rightarrow> l);
        s = tide_decoder_fresh l (case callbacks of None \<Rightarrow> no_callbacks | Some c \<Rightarrow> c) user
      in (TIDE_STATUS_OK, Some (Some (s\<lparr>di_buffer := \<lparr>buf_data = [], buf_capacity = 0, buf_limit = max_aggregate_alloc l\<rparr>\<rparr>))))"

definition tide_notify_error :: "'u tide_decoder_impl \<Rightarrow> 'u tide_decoder_impl" where
  "tide_notify_error s =
     (case on_error (di_callbacks s) of None \<Rightarrow> s | Some cb \<Rightarrow> s\<lparr>di_user := cb (di_user s) (di_error s)\<rparr>)"

text \<open>The header step shared by both halves of \<open>tide_decoder_feed\<close>.\<close>

definition tide_feed_header :: "'u tide_decoder_impl \<Rightarrow> tide_status \<times> 'u tide_decoder_impl" where
  "tide_feed_header s =
     (if di_header_validated s then (TIDE_STATUS_OK, s)
      else case tide_validate_header (buf_data (di_buffer s)) (di_limits s) (di_error s) of (status, error) \<Rightarrow>
        if status \<noteq> TIDE_STATUS_OK then (status, s\<lparr>di_error := error\<rparr>)
        else (TIDE_STATUS_OK, s\<lparr>di_error := error, di_header_validated := True, di_parse_offset := TIDE_HEADER_SIZE,
          di_valid_prefix := of_nat TIDE_HEADER_SIZE\<rparr>))"

definition tide_feed_more :: "(nat \<Rightarrow> bool) \<Rightarrow> 'u tide_decoder_impl \<Rightarrow> tide_status \<times> 'u tide_decoder_impl" where
  "tide_feed_more alloc s =
     (if \<not> di_header_validated s \<and> buf_size (di_buffer s) < TIDE_HEADER_SIZE then (TIDE_STATUS_OK, s)
      else case tide_feed_header s of (status, s) \<Rightarrow>
        if status \<noteq> TIDE_STATUS_OK then (status, (tide_notify_error s)\<lparr>di_terminal := True\<rparr>)
        else case tide_parse_records alloc s (buf_data (di_buffer s)) (di_parse_offset s) (buf_size (di_buffer s)) 0 of (status, s) \<Rightarrow>
          if status = TIDE_STATUS_TRUNCATED then (TIDE_STATUS_OK, s\<lparr>di_parse_offset := unat (di_valid_prefix s)\<rparr>)
          else if status \<noteq> TIDE_STATUS_OK then (status, (tide_notify_error s)\<lparr>di_terminal := True\<rparr>)
          else (TIDE_STATUS_OK, s\<lparr>di_parse_offset := buf_size (di_buffer s)\<rparr>))"

definition tide_feed_end :: "(nat \<Rightarrow> bool) \<Rightarrow> 'u tide_decoder_impl \<Rightarrow> tide_status \<times> 'u tide_decoder_impl" where
  "tide_feed_end alloc s =
     (case tide_feed_header s of (status, s) \<Rightarrow>
        if status \<noteq> TIDE_STATUS_OK then
          ((if status = TIDE_STATUS_TRUNCATED then TIDE_STATUS_PARTIAL else status), s\<lparr>di_terminal := True\<rparr>)
        else case tide_parse_records alloc s (buf_data (di_buffer s)) (di_parse_offset s) (buf_size (di_buffer s)) 0 of (status, s) \<Rightarrow>
          let status = (if status = TIDE_STATUS_TRUNCATED then TIDE_STATUS_PARTIAL else status);
              s = (if status = TIDE_STATUS_OK then s\<lparr>di_parse_offset := buf_size (di_buffer s)\<rparr> else s);
              s = (if status \<noteq> TIDE_STATUS_OK \<and> status \<noteq> TIDE_STATUS_PARTIAL then tide_notify_error s else s)
          in (status, s\<lparr>di_terminal := True\<rparr>))"

definition tide_decoder_feed ::
    "(nat \<Rightarrow> bool) \<Rightarrow> 'u tide_decoder option \<Rightarrow> bytes option \<Rightarrow> nat \<Rightarrow> bool \<Rightarrow> tide_status \<times> nat \<times> 'u tide_decoder option" where
  "tide_decoder_feed alloc decoder data n end =
     (case tide_impl decoder of
        None \<Rightarrow> (TIDE_STATUS_INVALID_ARGUMENT, 0, decoder)
      | Some s \<Rightarrow>
          if data = None \<and> n \<noteq> 0 then (TIDE_STATUS_INVALID_ARGUMENT, 0, decoder)
          else if di_cancelled s then (TIDE_STATUS_CANCELLED, 0, decoder)
          else if di_terminal s then (TIDE_STATUS_INVALID_ARGUMENT, 0, decoder)
          else case tide_buffer_append alloc (di_buffer s) data n of (status, b) \<Rightarrow>
            let s = s\<lparr>di_buffer := b\<rparr> in
            if status \<noteq> TIDE_STATUS_OK then (status, 0, Some (Some s))
            else case (if end then tide_feed_end alloc s else tide_feed_more alloc s) of (status, s) \<Rightarrow>
              (status, n, Some (Some s)))"

definition tide_decoder_cancel :: "'u tide_decoder option \<Rightarrow> 'u tide_decoder option" where
  "tide_decoder_cancel decoder =
     (case tide_impl decoder of None \<Rightarrow> decoder | Some s \<Rightarrow> Some (Some (s\<lparr>di_cancelled := True\<rparr>)))"

definition tide_decoder_destroy :: "'u tide_decoder option \<Rightarrow> 'u tide_decoder option" where
  "tide_decoder_destroy decoder = (case tide_impl decoder of None \<Rightarrow> decoder | Some s \<Rightarrow> Some None)"

definition tide_decoder_last_error :: "'u tide_decoder option \<Rightarrow> tide_error option" where
  "tide_decoder_last_error decoder = map_option di_error (tide_impl decoder)"

definition tide_decoder_valid_prefix :: "'u tide_decoder option \<Rightarrow> u64" where
  "tide_decoder_valid_prefix decoder = (case tide_impl decoder of None \<Rightarrow> 0 | Some s \<Rightarrow> di_valid_prefix s)"

end
