(* ===== verification/Tide_Decoder_Laws.thy ===== *)
theory Tide_Decoder_Laws
  imports Tide_Decoder
begin

text \<open>
  Laws of the record parser.

  \<open>record_valid\<close> says what the framing and integrity checks establish of a record. The case rule
  \<open>tide_parse_records_cases\<close> unfolds one iteration of the parsing loop. These interfaces carry the
  proofs about whole parses, each proved once by induction on the length of the range:

  \<^item> \<open>record_walk\<close>: a predicate on the decoder state that every elementary step keeps, where the callbacks are
    only run on records that passed the checks, keep the limits and stand where the walk may be, holds after every
    parse; \<open>decoder_invariant\<close> is the special case that does not look at the position;
  \<^item> \<open>decoder_morphism\<close>: an update of the state that commutes with the elementary steps commutes with
    every parse;
  \<^item> \<open>tide_parse_records_append\<close>: a parse depends on no byte behind the end of its range.
\<close>

subsection \<open>Unfolding one record\<close>

text \<open>
  What the framing and integrity checks establish of the record that a frame describes, over the bytes alone: the prefix
  in the input spells out the fields of the frame (only the reserved byte is free), the fields place payload, padding
  and CRC, the padding is zero and the stored CRC is that of the bytes before it.
\<close>

definition frame_prefix_bytes :: "tide_record_frame \<Rightarrow> byte \<Rightarrow> bytes" where
  "frame_prefix_bytes f reserved = u16_bytes (fr_type f) @ u16_bytes (fr_flags f) @ u16_bytes (fr_header_size f) @
     [fr_alignment_log2 f, reserved] @ tide_uleb128_bytes (fr_payload_size f) @ tide_uleb128_bytes (fr_sequence f)"

definition record_framed :: "bytes \<Rightarrow> tide_record_frame \<Rightarrow> bool" where
  "record_framed data f \<longleftrightarrow> fr_alignment_log2 f \<le> 4 \<and>
     fr_payload_offset f = fr_offset f + unat (fr_header_size f) \<and> fr_payload_end f = fr_payload_offset f + unat (fr_payload_size f) \<and>
     fr_padding_end f = fr_offset f + align_up (unat (fr_alignment_log2 f)) (unat (fr_header_size f) + unat (fr_payload_size f)) \<and>
     (\<exists>reserved. byte_span data (fr_offset f) (fr_payload_offset f) = frame_prefix_bytes f reserved)"

definition record_valid :: "bytes \<Rightarrow> tide_record_frame \<Rightarrow> bool" where
  "record_valid data f \<longleftrightarrow> record_framed data f \<and>
     fr_offset f \<le> fr_payload_offset f \<and> fr_payload_offset f \<le> fr_payload_end f \<and> fr_payload_end f \<le> fr_padding_end f \<and>
     fr_crc_end f = fr_padding_end f + 4 \<and> fr_crc_end f \<le> length data \<and>
     (\<forall>i. fr_payload_end f \<le> i \<longrightarrow> i < fr_padding_end f \<longrightarrow> data ! i = 0) \<and>
     byte_span data (fr_padding_end f) (fr_crc_end f) = tide_u32_bytes (tide_crc32c (byte_span data (fr_offset f) (fr_padding_end f)))"

lemma tide_padding_scan_None: "tide_padding_scan data i n = None \<longleftrightarrow> (\<forall>j. i \<le> j \<longrightarrow> j < i + n \<longrightarrow> data ! j = 0)"
proof (induction data i n rule: tide_padding_scan.induct)
  case (2 data i n)
  have "(\<forall>j. i \<le> j \<longrightarrow> j < i + Suc n \<longrightarrow> data ! j = 0) \<longleftrightarrow>
      data ! i = 0 \<and> (\<forall>j. Suc i \<le> j \<longrightarrow> j < Suc i + n \<longrightarrow> data ! j = 0)" (is "?L \<longleftrightarrow> ?R")
  proof
    assume R: ?R
    show ?L
    proof (intro allI impI)
      fix j assume "i \<le> j" "j < i + Suc n"
      then show "data ! j = 0" using R by (cases "j = i") auto
    qed
  qed auto
  with 2 show ?case by simp
qed simp

lemma split_join_u32:
  fixes a b c d :: byte
  shows "tide_u32_bytes (ucast a OR push_bit 8 (ucast b) OR push_bit 16 (ucast c) OR push_bit 24 (ucast d)) = [a, b, c, d]"
proof -
  have hi: "8 \<le> n \<Longrightarrow> \<not> bit (x :: byte) n" for x n using bit_imp_le_length [of x n] by auto
  show ?thesis
    unfolding tide_u32_bytes_def by (auto intro!: bit_word_eqI simp: tide_bits bit_simps hi)
qed

lemma tide_validate_record_integrity_iff:
  assumes "fr_padding_end f + 4 \<le> length data"
  shows "fst (tide_validate_record_integrity data f e) = TIDE_STATUS_OK \<longleftrightarrow>
     (\<forall>i. fr_payload_end f \<le> i \<longrightarrow> i < fr_padding_end f \<longrightarrow> data ! i = 0) \<and>
     byte_span data (fr_padding_end f) (fr_padding_end f + 4) = tide_u32_bytes (tide_crc32c (byte_span data (fr_offset f) (fr_padding_end f)))"
proof -
  let ?p = "fr_padding_end f"
  let ?w = "ucast (data ! ?p) OR push_bit 8 (ucast (data ! (?p + 1))) OR
    push_bit 16 (ucast (data ! (?p + 2))) OR push_bit 24 (ucast (data ! (?p + 3))) :: u32"
  have "byte_span data ?p (?p + 4) = [data ! ?p, data ! (?p + 1), data ! (?p + 2), data ! (?p + 3)]"
    using assms by (intro nth_equalityI) (auto simp: byte_span_def less_Suc_eq numeral_eq_Suc)
  then have sp: "byte_span data ?p (?p + 4) = tide_u32_bytes ?w" by (simp only: split_join_u32)
  have inj: "tide_u32_bytes x = tide_u32_bytes y \<longleftrightarrow> x = y" for x y
    using u32c.enc_inj [of x "[]" y "[]"] by auto
  have scan: "tide_padding_scan data (fr_payload_end f) (?p - fr_payload_end f) = None \<longleftrightarrow>
      (\<forall>i. fr_payload_end f \<le> i \<longrightarrow> i < ?p \<longrightarrow> data ! i = 0)"
    unfolding tide_padding_scan_None by (intro all_cong1) (auto simp: less_diff_conv)
  show ?thesis
    unfolding sp inj scan [symmetric] tide_validate_record_integrity_def Let_def
    by (auto split: option.split)
qed

text \<open>The part of \<open>tide_process_record\<close> that does not recurse, with the parser of the children as a parameter.\<close>

definition process_with ::
    "(nat \<Rightarrow> bool) \<Rightarrow> ('u tide_decoder_impl \<Rightarrow> nat \<Rightarrow> nat \<Rightarrow> byte \<Rightarrow> tide_status \<times> 'u tide_decoder_impl) \<Rightarrow>
     'u tide_decoder_impl \<Rightarrow> bytes \<Rightarrow> tide_record_frame \<Rightarrow> tide_status \<times> 'u tide_decoder_impl" where
  "process_with alloc children s data f =
     (let payload = byte_span data (fr_payload_offset f) (fr_payload_end f);
          (status, s1) = tide_notify_record s (tide_event f)
      in if fr_type f AND TIDE_RECORD_SKIPPABLE_BIT \<noteq> 0 then (status, s1)
         else if status \<noteq> TIDE_STATUS_OK then (status, s1)
         else if fr_type f = TIDE_RECORD_GROUP then
           (case tide_check_group (di_limits s1) payload f of
              Some (status, offset, message) \<Rightarrow>
                (status, s1\<lparr>di_error := tide_set_parse_error status (of_nat offset) (fr_type f) (fr_depth f) message\<rparr>)
            | None \<Rightarrow> let
                child_begin = fr_payload_offset f + TIDE_GROUP_META_SIZE;
                (status, s2) = children s1 child_begin (fr_payload_end f) (fr_depth f + 1)
              in if status = TIDE_STATUS_TRUNCATED then
                   (TIDE_STATUS_FORMAT, s2\<lparr>di_error := tide_set_parse_error TIDE_STATUS_FORMAT (of_nat child_begin)
                      (fr_type f) (fr_depth f) ''complete group contains incomplete child''\<rparr>)
                 else (status, s2))
         else if fr_type f = TIDE_RECORD_STREAM_DESC then tide_emit_stream alloc s1 payload f
         else if fr_type f = TIDE_RECORD_PACKET then tide_emit_packet s1 payload f
         else if fr_type f \<in> {TIDE_RECORD_PACKET_TABLE, TIDE_RECORD_EDIT_LIST, TIDE_RECORD_DISCONTINUITY,
             TIDE_RECORD_SEEK_INDEX, TIDE_RECORD_CHECKPOINT, TIDE_RECORD_INDEX_DIRECTORY, TIDE_RECORD_FOOTER}
           then tide_emit_simple_record s1 data payload f
         else (TIDE_STATUS_UNSUPPORTED, s1\<lparr>di_error := tide_set_parse_error TIDE_STATUS_UNSUPPORTED (of_nat (fr_offset f))
           (fr_type f) (fr_depth f) ''unknown required record''\<rparr>))"

lemma tide_process_record_with:
  "tide_process_record alloc s data f = process_with alloc (\<lambda>s. tide_parse_records alloc s data) s data f"
  by (simp only: tide_process_record.simps process_with_def)

lemma tide_read_prefix_canonical:
  assumes "tide_read_prefix r = Some ((type, flags, hs, al, ps, sq), r')" and "rd_ok r"
  shows "\<exists>reserved. rd_rest r = (u16_bytes type @ u16_bytes flags @ u16_bytes hs @ [al, reserved] @ tide_uleb128_bytes ps @ tide_uleb128_bytes sq) @ rd_rest r'"
    and "rd_offset r' = rd_offset r + 8 + length (tide_uleb128_bytes ps) + length (tide_uleb128_bytes sq)"
proof -
  from assms(1) obtain r1 r2 r3 r4 r5 r6 where
    "tide_reader_read_u16 r = Some (type, r1)" "tide_reader_read_u16 r1 = Some (flags, r2)" "tide_reader_read_u16 r2 = Some (hs, r3)"
    "tide_reader_read_u8 r3 = Some (al, r4)" "tide_reader_skip r4 1 = Some r5" "tide_reader_read_uleb128 r5 = Some (ps, r6)"
    "tide_reader_read_uleb128 r6 = Some (sq, r')"
    by (auto simp: tide_read_prefix_def bind_eq_Some_conv)
  note reads = this
  have 1: "rd_ok r1" "rd_rest r = u16_bytes type @ rd_rest r1" "rd_offset r1 = rd_offset r + 2"
    using u16k.consumed [OF assms(2) reads(1)] by auto
  have 2: "rd_ok r2" "rd_rest r1 = u16_bytes flags @ rd_rest r2" "rd_offset r2 = rd_offset r1 + 2"
    using u16k.consumed [OF 1(1) reads(2)] by auto
  have 3: "rd_ok r3" "rd_rest r2 = u16_bytes hs @ rd_rest r3" "rd_offset r3 = rd_offset r2 + 2"
    using u16k.consumed [OF 2(1) reads(3)] by auto
  have 4: "rd_ok r4" "rd_rest r3 = [al] @ rd_rest r4" "rd_offset r4 = rd_offset r3 + 1"
    using u8k.consumed [OF 3(1) reads(4)] by auto
  obtain b where 5: "rd_ok r5" "rd_rest r4 = [b] @ rd_rest r5" "rd_offset r5 = rd_offset r4 + 1"
    using tide_reader_skip_Some [OF 4(1) reads(5)] by auto
  have 6: "rd_ok r6" "rd_rest r5 = tide_uleb128_bytes ps @ rd_rest r6" "rd_offset r6 = rd_offset r5 + length (tide_uleb128_bytes ps)"
    using uleb128k.consumed [OF 5(1) reads(6)] by auto
  have 7: "rd_ok r'" "rd_rest r6 = tide_uleb128_bytes sq @ rd_rest r'" "rd_offset r' = rd_offset r6 + length (tide_uleb128_bytes sq)"
    using uleb128k.consumed [OF 6(1) reads(7)] by auto
  show "\<exists>reserved. rd_rest r = (u16_bytes type @ u16_bytes flags @ u16_bytes hs @ [al, reserved] @ tide_uleb128_bytes ps @ tide_uleb128_bytes sq) @ rd_rest r'"
    using 1(2) 2(2) 3(2) 4(2) 5(2) 6(2) 7(2) by (intro exI [of _ b]) simp
  show "rd_offset r' = rd_offset r + 8 + length (tide_uleb128_bytes ps) + length (tide_uleb128_bytes sq)"
    using 1(3) 2(3) 3(3) 4(3) 5(3) 6(3) 7(3) by simp
qed

lemma byte_span_prefix:
  assumes "byte_span data offset n = xs @ ys" and "n \<le> length data"
  shows "byte_span data offset (offset + length xs) = xs"
  using arg_cong [OF assms(1), of "take (length xs)"] arg_cong [OF assms(1), of length] assms(2)
  by (simp add: byte_span_def min_def split: if_splits)

lemma tide_decode_record_prefix_framed:
  assumes "tide_decode_record_prefix data n offset depth e = Inr f" and "n \<le> SIZE_MAX" and "n \<le> length data"
  shows "record_framed data f"
proof -
  from assms(1) obtain r where
    read: "tide_read_prefix (tide_reader_init (byte_span data offset n)) = Some ((fr_type f, fr_flags f, fr_header_size f,
      fr_alignment_log2 f, fr_payload_size f, fr_sequence f), r)" and hs: "unat (fr_header_size f) = rd_offset r"
    by (auto simp: tide_decode_record_prefix_def split: if_splits option.splits)
  note c = tide_read_prefix_canonical [OF read rd_ok_init]
  obtain x where x: "byte_span data offset n = frame_prefix_bytes f x @ rd_rest r"
    using c(1) by (auto simp: frame_prefix_bytes_def)
  have "unat (fr_header_size f) = length (frame_prefix_bytes f x)" using hs c(2) by (simp add: frame_prefix_bytes_def)
  with byte_span_prefix [OF x assms(3)] show ?thesis
    using tide_decode_record_prefix_frame [OF assms(1,2)] by (auto simp: record_framed_def)
qed

lemma tide_decode_record_prefix_valid:
  assumes "tide_decode_record_prefix data n offset depth e = Inr f" and "n \<le> SIZE_MAX" and "n \<le> length data"
    and "fst (tide_validate_record_integrity data f e') = TIDE_STATUS_OK"
  shows "record_valid data f"
proof -
  note o = tide_decode_record_prefix_order [OF assms(1,2)] and fr = tide_decode_record_prefix_frame [OF assms(1,2)]
  have "fr_padding_end f + 4 \<le> length data" using o fr(7) assms(3) by simp
  from tide_validate_record_integrity_iff [OF this] assms(4) show ?thesis
    using o fr(1,7) assms(3) tide_decode_record_prefix_framed [OF assms(1-3)] by (simp add: record_valid_def)
qed

subsection \<open>Induction over a parse\<close>

text \<open>
  A parse of the range from \<open>cursor\<close> to \<open>stop\<close> only starts parses of shorter ranges: of the children
  of a group in it, and of the rest behind a record.
\<close>

lemma tide_parse_records_cases:
  assumes "stop \<le> SIZE_MAX" and "cursor \<le> stop" and "stop \<le> length data"
  obtains (finished) "cursor = stop" and "tide_parse_records alloc s data cursor stop depth = (TIDE_STATUS_OK, s)"
  | (prefix) status error where "cursor < stop" and "tide_decode_record_prefix data stop cursor depth (di_error s) = Inl (status, error)"
      and "tide_parse_records alloc s data cursor stop depth =
        (if status = TIDE_STATUS_TRUNCATED then (TIDE_STATUS_TRUNCATED, s\<lparr>di_error := error, di_valid_prefix := of_nat cursor\<rparr>)
         else (status, s\<lparr>di_error := error\<rparr>))"
  | (limit) f where "cursor < stop" and "tide_decode_record_prefix data stop cursor depth (di_error s) = Inr f"
      and "tide_parse_records alloc s data cursor stop depth =
        (TIDE_STATUS_RESOURCE, s\<lparr>di_error := tide_set_parse_error TIDE_STATUS_RESOURCE (of_nat cursor) (fr_type f) depth ''record exceeds limit''\<rparr>)"
      and "max_payload_size (di_limits s) < fr_payload_size f \<or> max_record_size (di_limits s) < of_nat (fr_crc_end f - fr_offset f)"
  | (integrity) f status error where "cursor < stop" and "tide_decode_record_prefix data stop cursor depth (di_error s) = Inr f"
      and "\<not> (max_payload_size (di_limits s) < fr_payload_size f \<or> max_record_size (di_limits s) < of_nat (fr_crc_end f - fr_offset f))"
      and "tide_validate_record_integrity data f (di_error s) = (status, error)" and "status \<noteq> TIDE_STATUS_OK"
      and "tide_parse_records alloc s data cursor stop depth = (status, s\<lparr>di_error := error\<rparr>)"
  | (framed) f status s1 where "cursor < stop" and "tide_decode_record_prefix data stop cursor depth (di_error s) = Inr f"
      and "\<not> (max_payload_size (di_limits s) < fr_payload_size f \<or> max_record_size (di_limits s) < of_nat (fr_crc_end f - fr_offset f))"
      and "tide_validate_record_integrity data f (di_error s) = (TIDE_STATUS_OK, di_error s)" and "record_valid data f"
      and "cursor < fr_crc_end f" and "fr_crc_end f \<le> stop" and "fr_offset f = cursor"
      and "process_with alloc (\<lambda>s. tide_parse_records alloc s data) s data f = (status, s1)"
      and "tide_parse_records alloc s data cursor stop depth =
        (if status \<noteq> TIDE_STATUS_OK then (status, s1)
         else tide_parse_records alloc (s1\<lparr>di_valid_prefix := of_nat (fr_crc_end f)\<rparr>) data (fr_crc_end f) stop depth)"
proof (cases "cursor = stop")
  case True
  then show thesis by (intro finished) (simp_all add: tide_parse_records.simps [of alloc s])
next
  case False
  with assms have lt: "cursor < stop" by simp
  note unf = tide_parse_records.simps [of alloc s data cursor stop depth]
  show thesis
  proof (cases "tide_decode_record_prefix data stop cursor depth (di_error s)")
    case (Inl e)
    then show thesis using lt assms(1) unf by (cases e) (auto intro: prefix)
  next
    case (Inr f)
    note o = tide_decode_record_prefix_order [OF Inr assms(1)] and fr = tide_decode_record_prefix_frame [OF Inr assms(1)]
    obtain st e where v: "tide_validate_record_integrity data f (di_error s) = (st, e)" by (cases "tide_validate_record_integrity data f (di_error s)")
    obtain st' s1 where p: "tide_process_record alloc s data f = (st', s1)" by (cases "tide_process_record alloc s data f")
    have e: "st = TIDE_STATUS_OK \<Longrightarrow> e = di_error s"
      using v by (auto simp: tide_validate_record_integrity_def Let_def split: option.splits if_splits)
    show thesis
    proof (cases "max_payload_size (di_limits s) < fr_payload_size f \<or> max_record_size (di_limits s) < of_nat (fr_crc_end f - fr_offset f)")
      case True
      then show thesis using lt assms(1) unf Inr by (intro limit) auto
    next
      case small: False
      show thesis
      proof (cases "st = TIDE_STATUS_OK")
        case True
        then have "record_valid data f" using tide_decode_record_prefix_valid [OF Inr assms(1,3), of "di_error s"] v by simp
        then show thesis
          using lt assms(1) unf Inr small v p True o fr(1) e tide_process_record_with [of alloc s data f]
          by (intro framed [of f st' s1]) auto
      next
        case False
        then show thesis using lt assms(1) unf Inr small v by (intro integrity) auto
      qed
    qed
  qed
qed
lemma tide_emit_simple_record_state:
  "\<exists>e. snd (tide_emit_simple_record s data payload f) = s\<lparr>di_error := e\<rparr>"
  by (cases "tide_check_simple_record s data payload f")
     (auto simp: tide_emit_simple_record_def intro: exI [of _ "di_error s"])

lemma group_children_range:
  assumes "tide_check_group limits (byte_span data (fr_payload_offset f) (fr_payload_end f)) f = None" and "record_valid data f"
  shows "fr_payload_offset f + TIDE_GROUP_META_SIZE \<le> fr_payload_end f"
    and "fr_payload_end f - (fr_payload_offset f + TIDE_GROUP_META_SIZE) < fr_crc_end f - fr_offset f"
    and "fr_payload_end f < fr_crc_end f" and "fr_payload_end f \<le> length data"
  using tide_check_group_length [OF assms(1)] assms(2) by (auto simp: record_valid_def TIDE_GROUP_META_SIZE_def)

text \<open>
  The limits a record has to keep, and where it may stand: \<open>L b e d\<close> says that a parse of the range from \<open>b\<close> to \<open>e\<close> at
  depth \<open>d\<close> may start, and a record is located if it starts at the beginning of such a range and ends inside it.
\<close>

abbreviation fr_payload :: "bytes \<Rightarrow> tide_record_frame \<Rightarrow> bytes" where
  "fr_payload data f \<equiv> byte_span data (fr_payload_offset f) (fr_payload_end f)"

definition record_within :: "tide_limits \<Rightarrow> tide_record_frame \<Rightarrow> bool" where
  "record_within limits f \<longleftrightarrow> fr_payload_size f \<le> max_payload_size limits \<and>
     of_nat (fr_crc_end f - fr_offset f) \<le> max_record_size limits"

definition record_located :: "(nat \<Rightarrow> nat \<Rightarrow> byte \<Rightarrow> bool) \<Rightarrow> bytes \<Rightarrow> tide_limits \<Rightarrow> nat \<Rightarrow> tide_record_frame \<Rightarrow> bool" where
  "record_located L data limits stop f \<longleftrightarrow> record_valid data f \<and> record_within limits f \<and>
     L (fr_offset f) stop (fr_depth f) \<and> fr_crc_end f \<le> stop"

lemma tide_notify_record_state: "\<exists>u. snd (tide_notify_record s ev) = s\<lparr>di_user := u\<rparr>"
  by (cases "on_record (di_callbacks s)") (auto simp: tide_notify_record_def intro: exI [of _ "di_user s"] split: prod.split)

lemma tide_notify_record_limits [simp]: "di_limits (snd (tide_notify_record s ev)) = di_limits s"
  using tide_notify_record_state [of s ev] by auto

locale record_walk =
  fixes alloc :: "nat \<Rightarrow> bool" and data :: bytes and L :: "nat \<Rightarrow> nat \<Rightarrow> byte \<Rightarrow> bool" and I :: "'u tide_decoder_impl \<Rightarrow> bool"
  assumes error_walk: "I s \<Longrightarrow> I (s\<lparr>di_error := e\<rparr>)"
    and prefix_walk: "I s \<Longrightarrow> I (s\<lparr>di_valid_prefix := v\<rparr>)"
    and rest_located: "I s \<Longrightarrow> record_located L data (di_limits s) stop f \<Longrightarrow> L (fr_crc_end f) stop (fr_depth f)"
    and child_located: "I s \<Longrightarrow> record_located L data (di_limits s) stop f \<Longrightarrow> fr_type f = TIDE_RECORD_GROUP \<Longrightarrow>
      tide_check_group (di_limits s) (fr_payload data f) f = None \<Longrightarrow>
      L (fr_payload_offset f + TIDE_GROUP_META_SIZE) (fr_payload_end f) (fr_depth f + 1)"
    and record_walk: "I s \<Longrightarrow> record_located L data (di_limits s) stop f \<Longrightarrow> I (snd (tide_notify_record s (tide_event f)))"
    and stream_walk: "I s \<Longrightarrow> record_located L data (di_limits s) stop f \<Longrightarrow> fr_type f = TIDE_RECORD_STREAM_DESC \<Longrightarrow>
      I (snd (tide_emit_stream alloc s (fr_payload data f) f))"
    and packet_walk: "I s \<Longrightarrow> record_located L data (di_limits s) stop f \<Longrightarrow> fr_type f = TIDE_RECORD_PACKET \<Longrightarrow>
      I (snd (tide_emit_packet s (fr_payload data f) f))"
begin

lemma process_walk:
  assumes "I s" and located: "record_located L data (di_limits s) stop f"
    and children: "\<And>s b e d. I s \<Longrightarrow> L b e d \<Longrightarrow> b \<le> e \<Longrightarrow> e < fr_crc_end f \<Longrightarrow> e - b < fr_crc_end f - fr_offset f \<Longrightarrow> I (snd (children s b e d))"
  shows "I (snd (process_with alloc children s data f))"
proof -
  obtain status s1 where n: "tide_notify_record s (tide_event f) = (status, s1)" by (cases "tide_notify_record s (tide_event f)")
  have I1: "I s1" using record_walk [OF assms(1,2)] n by simp
  have "di_limits s1 = di_limits s" using tide_notify_record_limits [of s "tide_event f"] n by simp
  then have l1: "record_located L data (di_limits s1) stop f" using located by simp
  then have valid: "record_valid data f" by (simp add: record_located_def)
  have simple: "I (snd (tide_emit_simple_record s1 data (fr_payload data f) f))"
    using tide_emit_simple_record_state [of s1 data "fr_payload data f" f] I1 by (auto intro: error_walk)
  consider (group) "fr_type f = TIDE_RECORD_GROUP" | (other) "fr_type f \<noteq> TIDE_RECORD_GROUP" by blast
  then show ?thesis
  proof cases
    case group
    show ?thesis
    proof (cases "tide_check_group (di_limits s1) (fr_payload data f) f")
      case None
      let ?c = "children s1 (fr_payload_offset f + TIDE_GROUP_META_SIZE) (fr_payload_end f) (fr_depth f + 1)"
      have "I (snd ?c)"
        using group_children_range [OF None valid] I1 child_located [OF I1 l1 group None] by (intro children)
      then show ?thesis
        using n I1 None group by (cases ?c) (auto simp: process_with_def Let_def intro: error_walk)
    next
      case (Some x)
      then show ?thesis
        using n I1 group by (cases x) (auto simp: process_with_def Let_def intro: error_walk)
    qed
  next
    case other
    have "process_with alloc children s data f \<in> {(status, s1), tide_emit_stream alloc s1 (fr_payload data f) f, tide_emit_packet s1 (fr_payload data f) f,
        tide_emit_simple_record s1 data (fr_payload data f) f} \<or> (\<exists>e. process_with alloc children s data f = (TIDE_STATUS_UNSUPPORTED, s1\<lparr>di_error := e\<rparr>))"
      using n other by (auto simp: process_with_def Let_def)
    then show ?thesis
      using n other I1 simple stream_walk [OF I1 l1] packet_walk [OF I1 l1]
      by (auto simp: process_with_def Let_def intro: error_walk)
  qed
qed

lemma parse_walk:
  assumes "I s" and "L cursor stop depth" and "stop \<le> SIZE_MAX" and "cursor \<le> stop" and "stop \<le> length data"
  shows "I (snd (tide_parse_records alloc s data cursor stop depth))"
  using assms
proof (induction "stop - cursor" arbitrary: s cursor stop depth rule: less_induct)
  case less
  from less.prems(3-5) show ?case
  proof (cases rule: tide_parse_records_cases [where alloc = alloc and s = s and depth = depth])
    case finished
    then show ?thesis using less.prems by simp
  next
    case prefix
    then show ?thesis using less.prems by (auto intro: error_walk prefix_walk dest: prefix_walk)
  next
    case limit
    then show ?thesis using less.prems by (auto intro: error_walk)
  next
    case integrity
    then show ?thesis using less.prems by (auto intro: error_walk)
  next
    case (framed f status s1)
    have d: "fr_depth f = depth" using tide_decode_record_prefix_frame(2) [OF framed(2) less.prems(3)] .
    have l: "record_located L data (di_limits s) stop f"
      using framed(3,5,7,8) less.prems(2) d by (auto simp: record_located_def record_within_def)
    have "I s1"
      using process_walk [OF less.prems(1) l, of "\<lambda>s. tide_parse_records alloc s data"] framed less
      by fastforce
    moreover have "L (fr_crc_end f) stop depth" using rest_located [OF less.prems(1) l] d by simp
    ultimately have "I (snd (tide_parse_records alloc (s1\<lparr>di_valid_prefix := of_nat (fr_crc_end f)\<rparr>) data (fr_crc_end f) stop depth))"
      using framed less.prems by (intro less.hyps prefix_walk) auto
    with \<open>I s1\<close> framed show ?thesis by simp
  qed
qed

end

text \<open>Most invariants do not depend on where a record stands.\<close>

locale decoder_invariant =
  fixes alloc :: "nat \<Rightarrow> bool" and data :: bytes and I :: "'u tide_decoder_impl \<Rightarrow> bool"
  assumes error_kept: "I s \<Longrightarrow> I (s\<lparr>di_error := e\<rparr>)"
    and prefix_kept: "I s \<Longrightarrow> I (s\<lparr>di_valid_prefix := v\<rparr>)"
    and record_kept: "I s \<Longrightarrow> record_valid data f \<Longrightarrow> I (snd (tide_notify_record s (tide_event f)))"
    and stream_kept: "I s \<Longrightarrow> record_valid data f \<Longrightarrow> fr_type f = TIDE_RECORD_STREAM_DESC \<Longrightarrow>
      I (snd (tide_emit_stream alloc s (fr_payload data f) f))"
    and packet_kept: "I s \<Longrightarrow> record_valid data f \<Longrightarrow> fr_type f = TIDE_RECORD_PACKET \<Longrightarrow>
      I (snd (tide_emit_packet s (fr_payload data f) f))"

sublocale decoder_invariant \<subseteq> anywhere: record_walk alloc data "\<lambda>_ _ _. True" I
  by unfold_locales (auto simp: record_located_def intro: error_kept prefix_kept record_kept stream_kept packet_kept)

context decoder_invariant
begin

lemma process_kept:
  assumes "I s" and "record_valid data f" and "record_within (di_limits s) f"
    and "\<And>s b e d. I s \<Longrightarrow> b \<le> e \<Longrightarrow> e < fr_crc_end f \<Longrightarrow> e - b < fr_crc_end f - fr_offset f \<Longrightarrow> I (snd (children s b e d))"
  shows "I (snd (process_with alloc children s data f))"
  using assms by (intro anywhere.process_walk [where stop = "fr_crc_end f"]) (simp_all add: record_located_def)

lemma parse_kept:
  assumes "I s" and "stop \<le> SIZE_MAX" and "cursor \<le> stop" and "stop \<le> length data"
  shows "I (snd (tide_parse_records alloc s data cursor stop depth))"
  by (rule anywhere.parse_walk [OF assms(1) TrueI assms(2-4)])

end

locale decoder_morphism =
  fixes alloc :: "nat \<Rightarrow> bool" and g :: "'u tide_decoder_impl \<Rightarrow> 'u tide_decoder_impl"
  assumes reads: "di_limits (g s) = di_limits s" "di_error (g s) = di_error s" "di_tracks (g s) = di_tracks s"
    and sets: "g (s\<lparr>di_error := e\<rparr>) = (g s)\<lparr>di_error := e\<rparr>" "g (s\<lparr>di_valid_prefix := v\<rparr>) = (g s)\<lparr>di_valid_prefix := v\<rparr>"
    and notify: "tide_notify_record (g s) ev = apsnd g (tide_notify_record s ev)"
    and stream: "tide_emit_stream alloc (g s) payload f = apsnd g (tide_emit_stream alloc s payload f)"
    and packet: "tide_emit_packet (g s) payload f = apsnd g (tide_emit_packet s payload f)"
begin

lemma simple: "tide_emit_simple_record (g s) data payload f = apsnd g (tide_emit_simple_record s data payload f)"
proof -
  have "tide_check_simple_record (g s) data payload f = tide_check_simple_record s data payload f"
    by (simp add: tide_check_simple_record_def reads)
  then show ?thesis by (auto simp: tide_emit_simple_record_def sets split: option.split)
qed

lemma process_commutes:
  assumes valid: "record_valid data f"
    and children: "\<And>s b e d. b \<le> e \<Longrightarrow> e < fr_crc_end f \<Longrightarrow> e - b < fr_crc_end f - fr_offset f \<Longrightarrow>
      children (g s) b e d = apsnd g (children s b e d)"
  shows "process_with alloc children (g s) data f = apsnd g (process_with alloc children s data f)"
proof -
  let ?payload = "byte_span data (fr_payload_offset f) (fr_payload_end f)"
  let ?b = "fr_payload_offset f + TIDE_GROUP_META_SIZE"
  obtain status s1 where n: "tide_notify_record s (tide_event f) = (status, s1)" by (cases "tide_notify_record s (tide_event f)")
  have ng: "tide_notify_record (g s) (tide_event f) = (status, g s1)" by (simp add: notify n)
  have ch: "tide_check_group (di_limits s1) ?payload f = None \<Longrightarrow>
      children (g s1) ?b (fr_payload_end f) (fr_depth f + 1) = apsnd g (children s1 ?b (fr_payload_end f) (fr_depth f + 1))"
    using group_children_range [OF _ valid, of "di_limits s1"] by (intro children) auto
  obtain st2 s2 where c: "children s1 ?b (fr_payload_end f) (fr_depth f + 1) = (st2, s2)"
    by (cases "children s1 ?b (fr_payload_end f) (fr_depth f + 1)")
  show ?thesis
    unfolding process_with_def n ng Let_def prod.case reads stream packet simple
    using ch c by (auto simp: sets split: option.split)
qed

lemma parse_commutes:
  assumes "stop \<le> SIZE_MAX" and "cursor \<le> stop" and "stop \<le> length data"
  shows "tide_parse_records alloc (g s) data cursor stop depth = apsnd g (tide_parse_records alloc s data cursor stop depth)"
  using assms
proof (induction "stop - cursor" arbitrary: s cursor stop depth rule: less_induct)
  case less
  note unf = tide_parse_records.simps [of alloc "g s" data cursor stop depth]
  from less.prems show ?case
  proof (cases rule: tide_parse_records_cases [where alloc = alloc and s = s and depth = depth])
    case finished
    then show ?thesis using unf by simp
  next
    case prefix
    then show ?thesis using less.prems by (simp add: unf reads sets)
  next
    case limit
    then show ?thesis using less.prems by (simp add: unf reads sets)
  next
    case integrity
    then show ?thesis using less.prems by (simp add: unf reads sets)
  next
    case (framed f status s1)
    have p: "process_with alloc (\<lambda>s. tide_parse_records alloc s data) (g s) data f = (status, g s1)"
      using process_commutes [OF framed(5), of "\<lambda>s. tide_parse_records alloc s data" s] framed less by fastforce
    have "tide_parse_records alloc (g (s1\<lparr>di_valid_prefix := of_nat (fr_crc_end f)\<rparr>)) data (fr_crc_end f) stop depth =
        apsnd g (tide_parse_records alloc (s1\<lparr>di_valid_prefix := of_nat (fr_crc_end f)\<rparr>) data (fr_crc_end f) stop depth)"
      using framed less.prems by (intro less.hyps) auto
    then show ?thesis
      using framed less.prems p by (simp add: unf reads sets tide_process_record_with)
  qed
qed

end

subsection \<open>No byte behind the range matters\<close>

lemma tide_decode_record_prefix_append:
  "n \<le> length xs \<Longrightarrow> tide_decode_record_prefix (xs @ ys) n offset depth e = tide_decode_record_prefix xs n offset depth e"
  by (simp add: tide_decode_record_prefix_def span_append_left)

lemma tide_padding_scan_append: "i + n \<le> length xs \<Longrightarrow> tide_padding_scan (xs @ ys) i n = tide_padding_scan xs i n"
  by (induction xs i n rule: tide_padding_scan.induct) (auto simp: nth_append)

lemma tide_validate_record_integrity_append:
  assumes "fr_payload_end f \<le> fr_padding_end f" and "fr_padding_end f + 4 \<le> length xs"
  shows "tide_validate_record_integrity (xs @ ys) f e = tide_validate_record_integrity xs f e"
proof -
  have "tide_padding_scan (xs @ ys) (fr_payload_end f) (fr_padding_end f - fr_payload_end f) =
      tide_padding_scan xs (fr_payload_end f) (fr_padding_end f - fr_payload_end f)"
    using assms by (intro tide_padding_scan_append) simp
  then show ?thesis
    using assms by (simp add: tide_validate_record_integrity_def span_append_left nth_append Let_def split: option.split)
qed

lemma tide_emit_simple_record_append:
  assumes "fr_offset f \<le> length xs"
  shows "tide_emit_simple_record s (xs @ ys) payload f = tide_emit_simple_record s xs payload f"
proof -
  have "tide_check_footer (xs @ ys) f payload = tide_check_footer xs f payload"
    unfolding tide_check_footer_def span_append_left [OF assms] ..
  then show ?thesis by (simp add: tide_emit_simple_record_def tide_check_simple_record_def)
qed

lemma process_with_append:
  assumes valid: "record_valid xs f"
    and children: "\<And>s b e d. b \<le> e \<Longrightarrow> e < fr_crc_end f \<Longrightarrow> e - b < fr_crc_end f - fr_offset f \<Longrightarrow> c' s b e d = c s b e d"
  shows "process_with alloc c' s (xs @ ys) f = process_with alloc c s xs f"
proof -
  have o: "fr_payload_end f \<le> length xs" "fr_offset f \<le> length xs" using valid by (auto simp: record_valid_def)
  have pl: "byte_span (xs @ ys) (fr_payload_offset f) (fr_payload_end f) = byte_span xs (fr_payload_offset f) (fr_payload_end f)"
    using o by (simp add: span_append_left)
  let ?b = "fr_payload_offset f + TIDE_GROUP_META_SIZE"
  obtain status s1 where n: "tide_notify_record s (tide_event f) = (status, s1)" by (cases "tide_notify_record s (tide_event f)")
  have ch: "tide_check_group (di_limits s1) (byte_span xs (fr_payload_offset f) (fr_payload_end f)) f = None \<Longrightarrow>
      c' s1 ?b (fr_payload_end f) (fr_depth f + 1) = c s1 ?b (fr_payload_end f) (fr_depth f + 1)"
    using group_children_range [OF _ valid, of "di_limits s1"] by (intro children) auto
  show ?thesis
    unfolding process_with_def pl tide_emit_simple_record_append [OF o(2)] n Let_def prod.case
    using ch by (auto split: option.split)
qed

lemma tide_parse_records_append:
  assumes "stop \<le> SIZE_MAX" and "cursor \<le> stop" and "stop \<le> length xs"
  shows "tide_parse_records alloc s (xs @ ys) cursor stop depth = tide_parse_records alloc s xs cursor stop depth"
  using assms
proof (induction "stop - cursor" arbitrary: s cursor stop depth rule: less_induct)
  case less
  note unf = tide_parse_records.simps [of alloc s "xs @ ys" cursor stop depth]
  note dec = tide_decode_record_prefix_append [OF less.prems(3)]
  from less.prems show ?case
  proof (cases rule: tide_parse_records_cases [where alloc = alloc and s = s and depth = depth])
    case finished
    then show ?thesis using unf by simp
  next
    case prefix
    then show ?thesis using less.prems by (simp add: unf dec)
  next
    case limit
    then show ?thesis using less.prems by (simp add: unf dec)
  next
    case (integrity f)
    note o = tide_decode_record_prefix_order [OF integrity(2) less.prems(1)]
      tide_decode_record_prefix_frame [OF integrity(2) less.prems(1)]
    have "tide_validate_record_integrity (xs @ ys) f (di_error s) = tide_validate_record_integrity xs f (di_error s)"
      using o less.prems(3) by (intro tide_validate_record_integrity_append) simp_all
    then show ?thesis using integrity less.prems by (simp add: unf dec)
  next
    case (framed f status s1)
    have v: "tide_validate_record_integrity (xs @ ys) f (di_error s) = tide_validate_record_integrity xs f (di_error s)"
      using framed(5) by (intro tide_validate_record_integrity_append) (auto simp: record_valid_def)
    have p: "process_with alloc (\<lambda>s. tide_parse_records alloc s (xs @ ys)) s (xs @ ys) f = (status, s1)"
      using process_with_append [OF framed(5), of "\<lambda>s. tide_parse_records alloc s (xs @ ys)" "\<lambda>s. tide_parse_records alloc s xs" alloc s ys]
        framed less by fastforce
    have "tide_parse_records alloc t (xs @ ys) (fr_crc_end f) stop depth = tide_parse_records alloc t xs (fr_crc_end f) stop depth" for t :: "'a tide_decoder_impl"
      using framed less.prems by (intro less.hyps) auto
    then show ?thesis
      using framed less.prems p v by (simp add: unf dec tide_process_record_with)
  qed
qed

subsection \<open>Outcomes of a stream descriptor and of a packet\<close>

lemma tide_emit_stream_cases:
  obtains (bad) status e where "tide_emit_stream alloc s payload f = (status, s\<lparr>di_error := e\<rparr>)"
      and "status = TIDE_STATUS_FORMAT \<or> status = TIDE_STATUS_TIMELINE"
  | (refused) stream r status s1 where "tide_read_stream (tide_reader_init payload) = Some (stream, r)"
      and "tide_rational_is_valid (si_time_base stream)"
      and "tide_add_track alloc s stream (of_nat (fr_offset f)) = (status, s1)" and "status \<noteq> TIDE_STATUS_OK"
      and "tide_emit_stream alloc s payload f = (err_code (di_error s1), s1)"
  | (added) stream r s1 where "tide_read_stream (tide_reader_init payload) = Some (stream, r)" and "rd_offset r = length payload"
      and "tide_rational_is_valid (si_time_base stream)"
      and "tide_add_track alloc s stream (of_nat (fr_offset f)) = (TIDE_STATUS_OK, s1)"
      and "tide_emit_stream alloc s payload f = (case on_stream (di_callbacks s1) of
          None \<Rightarrow> (TIDE_STATUS_OK, s1)
        | Some cb \<Rightarrow> (case cb (di_user s1) stream of (status, user) \<Rightarrow> (status, s1\<lparr>di_user := user\<rparr>)))"
proof (cases "tide_read_stream (tide_reader_init payload)")
  case None
  then show thesis by (intro bad) (auto simp: tide_emit_stream_def)
next
  case (Some x)
  obtain stream r where x: "x = (stream, r)" by (cases x)
  obtain status s1 where a: "tide_add_track alloc s stream (of_nat (fr_offset f)) = (status, s1)"
    by (cases "tide_add_track alloc s stream (of_nat (fr_offset f))")
  consider "rd_offset r \<noteq> length payload" | "rd_offset r = length payload" "\<not> tide_rational_is_valid (si_time_base stream)"
    | "rd_offset r = length payload" "tide_rational_is_valid (si_time_base stream)" "status \<noteq> TIDE_STATUS_OK"
    | "rd_offset r = length payload" "tide_rational_is_valid (si_time_base stream)" "status = TIDE_STATUS_OK" by blast
  then show thesis
  proof cases
    case 1
    then show thesis using Some x by (intro bad) (auto simp: tide_emit_stream_def)
  next
    case 2
    then show thesis using Some x by (intro bad) (auto simp: tide_emit_stream_def)
  next
    case 3
    then show thesis using Some x a by (intro refused [of stream r status s1]) (auto simp: tide_emit_stream_def)
  next
    case 4
    then show thesis using Some x a by (intro added [of stream r s1]) (auto simp: tide_emit_stream_def)
  qed
qed

lemma tide_emit_packet_cases:
  obtains (bad) status e where "tide_emit_packet s payload f = (status, s\<lparr>di_error := e\<rparr>)"
      and "status = TIDE_STATUS_FORMAT \<or> status = TIDE_STATUS_TIMELINE"
  | (good) packet r where "tide_read_packet (tide_reader_init payload) = Some (packet, r)" and "rd_offset r = length payload"
      and "0 \<le> sint (pk_duration packet)" and "tide_find_track (di_tracks s) (pk_track_id packet) (pk_generation packet) \<noteq> None"
      and "tide_emit_packet s payload f = (case on_packet (di_callbacks s) of
          None \<Rightarrow> (TIDE_STATUS_OK, s)
        | Some cb \<Rightarrow> (case cb (di_user s) packet of (status, user) \<Rightarrow> (status, s\<lparr>di_user := user\<rparr>)))"
proof (cases "tide_read_packet (tide_reader_init payload)")
  case None
  then show thesis by (intro bad) (auto simp: tide_emit_packet_def)
next
  case (Some x)
  obtain packet r where x: "x = (packet, r)" by (cases x)
  show thesis
  proof (cases "rd_offset r = length payload \<and> 0 \<le> sint (pk_duration packet) \<and>
      tide_find_track (di_tracks s) (pk_track_id packet) (pk_generation packet) \<noteq> None")
    case True
    then show thesis using Some x by (intro good [of packet r]) (auto simp: tide_emit_packet_def)
  next
    case False
    then have "\<exists>status e. tide_emit_packet s payload f = (status, s\<lparr>di_error := e\<rparr>) \<and>
        (status = TIDE_STATUS_FORMAT \<or> status = TIDE_STATUS_TIMELINE)"
      using Some x by (auto simp: tide_emit_packet_def Let_def not_le)
    then show thesis using bad by blast
  qed
qed

subsection \<open>What a parse leaves alone\<close>

lemma tide_emit_stream_state:
  "(\<exists>e. snd (tide_emit_stream alloc s payload f) = s\<lparr>di_error := e\<rparr>) \<or>
   (\<exists>stream s1 u. tide_rational_is_valid (si_time_base stream) \<and> s1 = snd (tide_add_track alloc s stream (of_nat (fr_offset f))) \<and>
      snd (tide_emit_stream alloc s payload f) = s1\<lparr>di_user := u\<rparr>)"
proof (cases rule: tide_emit_stream_cases [of alloc s payload f])
  case (refused stream r status s1)
  then have "snd (tide_emit_stream alloc s payload f) = s1\<lparr>di_user := di_user s1\<rparr>" by simp
  then show ?thesis using refused by (metis snd_conv)
next
  case (added stream r s1)
  then have "\<exists>u. snd (tide_emit_stream alloc s payload f) = s1\<lparr>di_user := u\<rparr>"
    by (cases "on_stream (di_callbacks s1)") (auto intro: exI [of _ "di_user s1"] split: prod.split)
  then show ?thesis using added by (metis snd_conv)
qed auto

lemma tide_emit_packet_state:
  "(\<exists>e. snd (tide_emit_packet s payload f) = s\<lparr>di_error := e\<rparr>) \<or> (\<exists>u. snd (tide_emit_packet s payload f) = s\<lparr>di_user := u\<rparr>)"
proof (cases rule: tide_emit_packet_cases [of s payload f])
  case (good packet r)
  then have "\<exists>u. snd (tide_emit_packet s payload f) = s\<lparr>di_user := u\<rparr>"
    by (cases "on_packet (di_callbacks s)") (auto intro: exI [of _ "di_user s"] split: prod.split)
  then show ?thesis ..
qed auto

definition with_input :: "tide_buffer \<Rightarrow> nat \<Rightarrow> bool \<Rightarrow> 'u tide_decoder_impl \<Rightarrow> 'u tide_decoder_impl" where
  "with_input b p h s = s\<lparr>di_buffer := b, di_parse_offset := p, di_header_validated := h\<rparr>"

lemma tide_add_track_input:
  "tide_add_track alloc (with_input b p h s) stream off = apsnd (with_input b p h) (tide_add_track alloc s stream off)"
  by (cases s) (auto simp: tide_add_track_def with_input_def Let_def)

lemma tide_emit_stream_input:
  "tide_emit_stream alloc (with_input b p h s) payload f = apsnd (with_input b p h) (tide_emit_stream alloc s payload f)"
proof (cases "tide_read_stream (tide_reader_init payload)")
  case (Some x)
  obtain stream r where x: "x = (stream, r)" by (cases x)
  obtain st s1 where a: "tide_add_track alloc s stream (of_nat (fr_offset f)) = (st, s1)"
    by (cases "tide_add_track alloc s stream (of_nat (fr_offset f))")
  then have "tide_add_track alloc (with_input b p h s) stream (of_nat (fr_offset f)) = (st, with_input b p h s1)"
    by (simp add: tide_add_track_input)
  then show ?thesis
    unfolding tide_emit_stream_def Some x option.case prod.case a
    by (cases "on_stream (di_callbacks s1)") (simp_all add: with_input_def split: prod.split)
qed (simp add: tide_emit_stream_def with_input_def)

lemma tide_emit_packet_input:
  "tide_emit_packet (with_input b p h s) payload f = apsnd (with_input b p h) (tide_emit_packet s payload f)"
proof (cases "tide_read_packet (tide_reader_init payload)")
  case (Some x)
  obtain packet r where "x = (packet, r)" by (cases x)
  then show ?thesis using Some by (simp add: tide_emit_packet_def with_input_def Let_def split: option.split prod.split)
qed (simp add: tide_emit_packet_def with_input_def Let_def)

interpretation input: decoder_morphism alloc "with_input b p h" for alloc b p h
proof
  fix s :: "'a tide_decoder_impl" and ev
  show "tide_notify_record (with_input b p h s) ev = apsnd (with_input b p h) (tide_notify_record s ev)"
    by (auto simp: tide_notify_record_def with_input_def split: option.split prod.split)
qed (simp_all add: tide_emit_stream_input tide_emit_packet_input, simp_all add: with_input_def)

definition same_config :: "'u tide_decoder_impl \<Rightarrow> 'u tide_decoder_impl \<Rightarrow> bool" where
  "same_config t s \<longleftrightarrow> di_limits s = di_limits t \<and> di_callbacks s = di_callbacks t \<and> di_buffer s = di_buffer t \<and>
     di_parse_offset s = di_parse_offset t \<and> di_header_validated s = di_header_validated t \<and>
     di_terminal s = di_terminal t \<and> di_cancelled s = di_cancelled t"

lemma same_config_updates [simp]:
  "same_config t (s\<lparr>di_user := u\<rparr>) = same_config t s" "same_config t (s\<lparr>di_error := e\<rparr>) = same_config t s"
  "same_config t (s\<lparr>di_valid_prefix := v\<rparr>) = same_config t s"
  by (simp_all add: same_config_def)

lemma tide_add_track_config [simp]: "same_config t (snd (tide_add_track alloc s stream off)) = same_config t s"
  by (simp add: tide_add_track_def same_config_def Let_def)

interpretation config: decoder_invariant alloc data "same_config t" for alloc data t
proof
  fix s :: "'a tide_decoder_impl" and f :: tide_record_frame
  assume c: "same_config t s"
  let ?p = "byte_span data (fr_payload_offset f) (fr_payload_end f)"
  show "same_config t (snd (tide_notify_record s (tide_event f)))"
    using c tide_notify_record_state [of s "tide_event f"] by auto
  show "same_config t (snd (tide_emit_stream alloc s ?p f))"
    using c tide_emit_stream_state [of alloc s ?p f] by auto
  show "same_config t (snd (tide_emit_packet s ?p f))"
    using c tide_emit_packet_state [of s ?p f] by auto
qed simp_all

subsection \<open>Tracks\<close>

definition track_key :: "tide_track_snapshot \<Rightarrow> u32 \<times> u32" where
  "track_key t = (ts_track_id t, ts_generation t)"

definition tracks_ok :: "'u tide_decoder_impl \<Rightarrow> bool" where
  "tracks_ok s \<longleftrightarrow> distinct (map track_key (di_tracks s)) \<and> length (di_tracks s) \<le> unat (max_tracks (di_limits s)) \<and>
     length (di_tracks s) \<le> di_track_capacity s \<and> (\<forall>t \<in> set (di_tracks s). tide_rational_is_valid (ts_time_base t))"

lemma tide_find_track_None: "tide_find_track ts a b = None \<longleftrightarrow> (a, b) \<notin> track_key ` set ts"
  by (induction ts) (auto simp: track_key_def)

lemma tracks_ok_updates [simp]:
  "tracks_ok (s\<lparr>di_user := u\<rparr>) = tracks_ok s" "tracks_ok (s\<lparr>di_error := e\<rparr>) = tracks_ok s"
  "tracks_ok (s\<lparr>di_valid_prefix := v\<rparr>) = tracks_ok s"
  by (simp_all add: tracks_ok_def)

lemma tide_add_track_ok:
  assumes "tracks_ok s" and "tide_rational_is_valid (si_time_base stream)"
  shows "tracks_ok (snd (tide_add_track alloc s stream off))"
  using assms by (auto simp: tide_add_track_def tracks_ok_def Let_def tide_find_track_None track_key_def)

interpretation tracks: decoder_invariant alloc data tracks_ok for alloc data
proof
  fix s :: "'a tide_decoder_impl" and f :: tide_record_frame
  assume c: "tracks_ok s"
  let ?p = "byte_span data (fr_payload_offset f) (fr_payload_end f)"
  show "tracks_ok (snd (tide_notify_record s (tide_event f)))"
    using c tide_notify_record_state [of s "tide_event f"] by auto
  show "tracks_ok (snd (tide_emit_stream alloc s ?p f))"
    using c tide_emit_stream_state [of alloc s ?p f] tide_add_track_ok [OF c] by auto
  show "tracks_ok (snd (tide_emit_packet s ?p f))"
    using c tide_emit_packet_state [of s ?p f] by auto
qed simp_all

subsection \<open>What the callbacks are told\<close>

datatype tide_emitted = Emit_Record tide_record_event | Emit_Stream tide_stream_info | Emit_Packet tide_packet_info

text \<open>Any callbacks, with a log of their arguments (the latest first) kept beside their own state.\<close>

definition logged :: "'u tide_callbacks \<Rightarrow> (tide_emitted list \<times> 'u) tide_callbacks" where
  "logged cb = \<lparr>
     on_record = Some (\<lambda>(log, u) ev. let (status, u) = (case on_record cb of None \<Rightarrow> (TIDE_STATUS_OK, u) | Some f \<Rightarrow> f u ev) in
       (status, (Emit_Record ev # log, u))),
     on_stream = Some (\<lambda>(log, u) si. let (status, u) = (case on_stream cb of None \<Rightarrow> (TIDE_STATUS_OK, u) | Some f \<Rightarrow> f u si) in
       (status, (Emit_Stream si # log, u))),
     on_packet = Some (\<lambda>(log, u) pk. let (status, u) = (case on_packet cb of None \<Rightarrow> (TIDE_STATUS_OK, u) | Some f \<Rightarrow> f u pk) in
       (status, (Emit_Packet pk # log, u))),
     on_error = map_option (\<lambda>f (log, u) e. (log, f u e)) (on_error cb)\<rparr>"

fun declared :: "tide_emitted list \<Rightarrow> (u32 \<times> u32) list" where
  "declared [] = []"
| "declared (Emit_Stream si # es) = (si_track_id si, si_generation si) # declared es"
| "declared (_ # es) = declared es"

text \<open>
  The ranges that hold records, over the bytes alone: the input behind the file header at depth 0, what follows a valid
  record inside its range, and the payload behind the metadata of a valid group, one level deeper and only below the
  depth limit. A record is accepted if it stands at the beginning of such a range, ends inside it and keeps the limits.
\<close>

inductive record_range :: "tide_limits \<Rightarrow> bytes \<Rightarrow> nat \<Rightarrow> nat \<Rightarrow> byte \<Rightarrow> bool" for limits :: tide_limits and data :: bytes where
  top: "record_range limits data TIDE_HEADER_SIZE (length data) 0"
| rest: "record_range limits data (fr_offset f) stop (fr_depth f) \<Longrightarrow> record_valid data f \<Longrightarrow> record_within limits f \<Longrightarrow>
    fr_crc_end f \<le> stop \<Longrightarrow> record_range limits data (fr_crc_end f) stop (fr_depth f)"
| child: "record_range limits data (fr_offset f) stop (fr_depth f) \<Longrightarrow> record_valid data f \<Longrightarrow> record_within limits f \<Longrightarrow>
    fr_crc_end f \<le> stop \<Longrightarrow> fr_type f = TIDE_RECORD_GROUP \<Longrightarrow> ucast (fr_depth f) < max_depth limits \<Longrightarrow>
    fr_payload_offset f + TIDE_GROUP_META_SIZE \<le> fr_payload_end f \<Longrightarrow>
    record_range limits data (fr_payload_offset f + TIDE_GROUP_META_SIZE) (fr_payload_end f) (fr_depth f + 1)"

definition record_accepted :: "tide_limits \<Rightarrow> bytes \<Rightarrow> tide_record_frame \<Rightarrow> bool" where
  "record_accepted limits data f \<longleftrightarrow> (\<exists>stop. record_located (record_range limits data) data limits stop f)"

text \<open>
  A log is in order: every event describes an accepted record, every stream and packet is what the whole payload of an
  accepted record decodes to, a stream is announced once, with a valid time base, and before its packets, and no packet
  has a negative duration.
\<close>

fun log_ok :: "tide_limits \<Rightarrow> bytes \<Rightarrow> tide_emitted list \<Rightarrow> bool" where
  "log_ok limits data [] = True"
| "log_ok limits data (Emit_Record ev # es) = ((\<exists>f. record_accepted limits data f \<and> ev = tide_event f) \<and> log_ok limits data es)"
| "log_ok limits data (Emit_Stream si # es) =
     ((\<exists>f r. record_accepted limits data f \<and> fr_type f = TIDE_RECORD_STREAM_DESC \<and>
         tide_read_stream (tide_reader_init (fr_payload data f)) = Some (si, r) \<and> rd_offset r = length (fr_payload data f)) \<and>
      tide_rational_is_valid (si_time_base si) \<and> (si_track_id si, si_generation si) \<notin> set (declared es) \<and> log_ok limits data es)"
| "log_ok limits data (Emit_Packet pk # es) =
     ((\<exists>f r. record_accepted limits data f \<and> fr_type f = TIDE_RECORD_PACKET \<and>
         tide_read_packet (tide_reader_init (fr_payload data f)) = Some (pk, r) \<and> rd_offset r = length (fr_payload data f)) \<and>
      0 \<le> sint (pk_duration pk) \<and> (pk_track_id pk, pk_generation pk) \<in> set (declared es) \<and> log_ok limits data es)"

definition log_inv :: "tide_limits \<Rightarrow> bytes \<Rightarrow> 'u tide_callbacks \<Rightarrow> (tide_emitted list \<times> 'u) tide_decoder_impl \<Rightarrow> bool" where
  "log_inv limits data cb s \<longleftrightarrow> di_limits s = limits \<and> di_callbacks s = logged cb \<and> log_ok limits data (fst (di_user s)) \<and>
     set (declared (fst (di_user s))) = track_key ` set (di_tracks s)"

lemma log_inv_updates [simp]:
  "log_inv limits data cb (s\<lparr>di_error := e\<rparr>) = log_inv limits data cb s" "log_inv limits data cb (s\<lparr>di_valid_prefix := v\<rparr>) = log_inv limits data cb s"
  by (simp_all add: log_inv_def)

lemma tide_add_track_OK:
  assumes "tide_add_track alloc s stream off = (TIDE_STATUS_OK, s1)"
  shows "(si_track_id stream, si_generation stream) \<notin> track_key ` set (di_tracks s)"
    and "track_key ` set (di_tracks s1) = insert (si_track_id stream, si_generation stream) (track_key ` set (di_tracks s))"
    and "di_user s1 = di_user s" and "di_callbacks s1 = di_callbacks s" and "di_limits s1 = di_limits s"
  using assms by (auto simp: tide_add_track_def Let_def tide_find_track_None track_key_def split: if_splits)

lemma tide_add_track_fail:
  assumes "tide_add_track alloc s stream off = (status, s1)" and "status \<noteq> TIDE_STATUS_OK"
  shows "\<exists>e. s1 = s\<lparr>di_error := e\<rparr>"
  using assms by (auto simp: tide_add_track_def Let_def split: if_splits intro: exI [of _ "di_error s"])

lemma tide_check_group_None:
  "tide_check_group limits (byte_span data b e) f = None \<Longrightarrow> ucast (fr_depth f) < max_depth limits"
  by (auto simp: tide_check_group_def not_le split: if_splits option.splits)

interpretation log: record_walk alloc data "record_range limits data" "log_inv limits data cb" for alloc data limits cb
proof
  fix s :: "(tide_emitted list \<times> 'a) tide_decoder_impl" and f :: tide_record_frame and stop
  assume c: "log_inv limits data cb s" and l: "record_located (record_range limits data) data (di_limits s) stop f"
  have v: "record_accepted limits data f" using c l by (auto simp: log_inv_def record_accepted_def)
  have r: "record_valid data f" "record_within limits f" "record_range limits data (fr_offset f) stop (fr_depth f)" "fr_crc_end f \<le> stop"
    using c l by (auto simp: log_inv_def record_located_def)
  obtain log u where u: "di_user s = (log, u)" by (cases "di_user s")
  show "record_range limits data (fr_crc_end f) stop (fr_depth f)"
    using r by (intro record_range.rest)
  show "record_range limits data (fr_payload_offset f + TIDE_GROUP_META_SIZE) (fr_payload_end f) (fr_depth f + 1)"
    if "fr_type f = TIDE_RECORD_GROUP" and "tide_check_group (di_limits s) (fr_payload data f) f = None"
    using r that c group_children_range(1) [OF that(2) r(1)] tide_check_group_None [OF that(2)]
    by (intro record_range.child) (simp_all add: log_inv_def)
  show "log_inv limits data cb (snd (tide_notify_record s (tide_event f)))"
    using c v u by (auto simp: tide_notify_record_def log_inv_def logged_def split: prod.split)
  show "log_inv limits data cb (snd (tide_emit_stream alloc s (fr_payload data f) f))" if t: "fr_type f = TIDE_RECORD_STREAM_DESC"
  proof (cases rule: tide_emit_stream_cases [of alloc s "fr_payload data f" f])
    case bad
    then show ?thesis using c by simp
  next
    case (refused stream r status s1)
    then show ?thesis using c tide_add_track_fail [OF refused(3,4)] by auto
  next
    case (added stream r s1)
    note a = tide_add_track_OK [OF added(4)]
    have "on_stream (di_callbacks s1) = on_stream (logged cb)" using c a by (simp add: log_inv_def)
    then show ?thesis
      using c v t u a added by (auto simp: log_inv_def logged_def split: prod.splits)
  qed
  show "log_inv limits data cb (snd (tide_emit_packet s (fr_payload data f) f))" if t: "fr_type f = TIDE_RECORD_PACKET"
  proof (cases rule: tide_emit_packet_cases [of s "fr_payload data f" f])
    case bad
    then show ?thesis using c by simp
  next
    case (good packet r)
    have "(pk_track_id packet, pk_generation packet) \<in> track_key ` set (di_tracks s)"
      using good(4) by (simp only: tide_find_track_None not_not)
    then show ?thesis
      using c v t u good by (auto simp: log_inv_def logged_def split: prod.splits)
  qed
qed simp_all

subsection \<open>The valid prefix\<close>

lemma tide_add_track_prefix [simp]: "di_valid_prefix (snd (tide_add_track alloc s stream off)) = di_valid_prefix s"
  by (simp add: tide_add_track_def Let_def)

definition prefix_within :: "nat \<Rightarrow> nat \<Rightarrow> u64 \<Rightarrow> u64 \<Rightarrow> bool" where
  "prefix_within a b v w \<longleftrightarrow> w = v \<or> (\<exists>k. a \<le> k \<and> k \<le> b \<and> w = of_nat k)"

lemma prefix_within_mono: "prefix_within a b v w \<Longrightarrow> a' \<le> a \<Longrightarrow> b \<le> b' \<Longrightarrow> prefix_within a' b' v w"
  unfolding prefix_within_def by (metis order_trans)

lemma prefix_within_trans:
  "prefix_within a b (of_nat k) w \<Longrightarrow> a' \<le> a \<Longrightarrow> b \<le> b' \<Longrightarrow> a' \<le> k \<Longrightarrow> k \<le> b' \<Longrightarrow> prefix_within a' b' v w"
  unfolding prefix_within_def by (metis order_trans)

lemma process_with_prefix:
  assumes valid: "record_valid data f"
    and children: "\<And>s b e d. b \<le> e \<Longrightarrow> e < fr_crc_end f \<Longrightarrow> e - b < fr_crc_end f - fr_offset f \<Longrightarrow>
      prefix_within b e (di_valid_prefix s) (di_valid_prefix (snd (children s b e d)))"
  shows "prefix_within (fr_offset f) (fr_crc_end f) (di_valid_prefix s) (di_valid_prefix (snd (process_with alloc children s data f)))"
proof -
  let ?p = "fr_payload data f" and ?b = "fr_payload_offset f + TIDE_GROUP_META_SIZE"
  obtain status s1 where n: "tide_notify_record s (tide_event f) = (status, s1)" by (cases "tide_notify_record s (tide_event f)")
  have s1: "di_valid_prefix s1 = di_valid_prefix s" using tide_notify_record_state [of s "tide_event f"] n by auto
  have st: "di_valid_prefix (snd (tide_emit_stream alloc s1 ?p f)) = di_valid_prefix s"
    using tide_emit_stream_state [of alloc s1 ?p f] s1 by auto
  have pk: "di_valid_prefix (snd (tide_emit_packet s1 ?p f)) = di_valid_prefix s"
    using tide_emit_packet_state [of s1 ?p f] s1 by auto
  have si: "di_valid_prefix (snd (tide_emit_simple_record s1 data ?p f)) = di_valid_prefix s"
    using tide_emit_simple_record_state [of s1 data ?p f] s1 by auto
  have same: "prefix_within a b v v" for a b v by (simp add: prefix_within_def)
  obtain st2 s2 where c: "children s1 ?b (fr_payload_end f) (fr_depth f + 1) = (st2, s2)"
    by (cases "children s1 ?b (fr_payload_end f) (fr_depth f + 1)")
  have ch: "prefix_within (fr_offset f) (fr_crc_end f) (di_valid_prefix s) (di_valid_prefix s2)"
    if "tide_check_group (di_limits s1) ?p f = None"
  proof -
    note g = group_children_range [OF that valid]
    have "prefix_within ?b (fr_payload_end f) (di_valid_prefix s1) (di_valid_prefix s2)"
      using children [of ?b "fr_payload_end f" s1 "fr_depth f + 1"] g c by simp
    moreover have "fr_offset f \<le> ?b" using valid by (simp add: record_valid_def)
    ultimately show ?thesis using s1 g(3) by (auto intro: prefix_within_mono)
  qed
  show ?thesis
    unfolding process_with_def n Let_def prod.case using s1 st pk si same c ch
    by (auto split: option.split)
qed

lemma tide_parse_records_prefix:
  assumes "stop \<le> SIZE_MAX" and "cursor \<le> stop" and "stop \<le> length data"
  shows "prefix_within cursor stop (di_valid_prefix s) (di_valid_prefix (snd (tide_parse_records alloc s data cursor stop depth)))"
  using assms
proof (induction "stop - cursor" arbitrary: s cursor stop depth rule: less_induct)
  case less
  from less.prems show ?case
  proof (cases rule: tide_parse_records_cases [where alloc = alloc and s = s and depth = depth])
    case (framed f status s1)
    have "prefix_within (fr_offset f) (fr_crc_end f) (di_valid_prefix s)
        (di_valid_prefix (snd (process_with alloc (\<lambda>s. tide_parse_records alloc s data) s data f)))"
      using framed less.prems by (intro process_with_prefix less.hyps) auto
    then have p: "prefix_within cursor stop (di_valid_prefix s) (di_valid_prefix s1)"
      using framed by (auto intro: prefix_within_mono)
    let ?s = "s1\<lparr>di_valid_prefix := of_nat (fr_crc_end f)\<rparr>"
    have "prefix_within (fr_crc_end f) stop (di_valid_prefix ?s)
        (di_valid_prefix (snd (tide_parse_records alloc ?s data (fr_crc_end f) stop depth)))"
      using framed less.prems by (intro less.hyps) auto
    then have "prefix_within cursor stop (di_valid_prefix s)
        (di_valid_prefix (snd (tide_parse_records alloc ?s data (fr_crc_end f) stop depth)))"
      using framed by (auto intro: prefix_within_trans)
    then show ?thesis using p framed by simp
  qed (use less.prems in \<open>auto simp: prefix_within_def\<close>)
qed

lemma tide_parse_records_OK_prefix:
  assumes "stop \<le> SIZE_MAX" and "cursor \<le> stop" and "stop \<le> length data"
    and "tide_parse_records alloc s data cursor stop depth = (TIDE_STATUS_OK, s')"
  shows "di_valid_prefix s' = (if cursor = stop then di_valid_prefix s else of_nat stop)"
  using assms
proof (induction "stop - cursor" arbitrary: s cursor stop depth rule: less_induct)
  case less
  from less.prems(1-3) show ?case
  proof (cases rule: tide_parse_records_cases [where alloc = alloc and s = s and depth = depth])
    case (framed f status s1)
    let ?s = "s1\<lparr>di_valid_prefix := of_nat (fr_crc_end f)\<rparr>"
    have "tide_parse_records alloc ?s data (fr_crc_end f) stop depth = (TIDE_STATUS_OK, s')"
      using framed less.prems(4) by (auto split: if_splits)
    then have "di_valid_prefix s' = (if fr_crc_end f = stop then di_valid_prefix ?s else of_nat stop)"
      using framed less.prems by (intro less.hyps) auto
    then show ?thesis using framed by auto
  next
    case (prefix status error)
    then show ?thesis
      using less.prems by (auto simp: tide_decode_record_prefix_def split: if_splits option.splits)
  qed (use less.prems in \<open>auto split: if_splits\<close>)
qed

subsection \<open>Composite reads are field readers\<close>

lemma field_reader_skip_bind:
  assumes "field_reader g"
  shows "field_reader (\<lambda>r. do { r \<leftarrow> tide_reader_skip r n; g r })"
proof -
  have "(\<lambda>r. do { r \<leftarrow> tide_reader_skip r n; g r }) = (\<lambda>r. do { (x, r) \<leftarrow> tide_reader_read_bytes r n; g r })"
    by (auto simp: tide_reader_skip_def fun_eq_iff split: option.split Option.bind_split)
  then show ?thesis using field_reader_bind [OF raw.field_reader_axioms assms] by simp
qed

lemma field_reader_option_bind:
  assumes "\<And>x. field_reader (g x)"
  shows "field_reader (\<lambda>r. do { x \<leftarrow> v; g x r })"
  using assms field_reader_fail by (cases v) simp_all

lemmas field_reader_intros = field_reader_bind field_reader_skip_bind field_reader_option_bind field_reader_return
  u8.field_reader_axioms u16.field_reader_axioms u32.field_reader_axioms u64.field_reader_axioms i64.field_reader_axioms
  uleb128.field_reader_axioms raw.field_reader_axioms

interpretation stream_fields: field_reader tide_read_stream
  unfolding tide_read_stream_def by (intro field_reader_intros)

interpretation packet_fields: field_reader tide_read_packet
  unfolding tide_read_packet_def by (intro field_reader_intros)

interpretation prefix_fields: field_reader tide_read_prefix
  unfolding tide_read_prefix_def by (intro field_reader_intros)

lemma tide_reader_read_bytes_Some:
  "tide_reader_read_bytes r n = Some (bs, r') \<Longrightarrow> length bs = n \<and> n \<le> rd_size r' \<and> rd_data r' = rd_data r"
  by (auto simp: tide_reader_read_bytes_def tide_reader_has_def rd_rest_def split: if_splits)

lemma tide_read_stream_view:
  assumes "tide_read_stream (tide_reader_init payload) = Some (si, r)"
  shows "\<exists>c. si_config si = Some c \<and> length c = si_config_size si \<and> si_config_size si \<le> length payload"
proof -
  have "rd_data r = payload" using stream_fields.data_kept [OF rd_ok_init assms] by simp
  moreover obtain c q where "tide_reader_read_bytes q (si_config_size si) = Some (c, r)" "si_config si = Some c"
    using assms by (auto simp: tide_read_stream_def bind_eq_Some_conv)
  ultimately show ?thesis using tide_reader_read_bytes_Some by fastforce
qed

lemma tide_read_packet_view:
  assumes "tide_read_packet (tide_reader_init payload) = Some (p, r)"
  shows "\<exists>c. pv_data (pk_payload p) = Some c \<and> length c = pv_size (pk_payload p) \<and> pv_size (pk_payload p) \<le> length payload"
proof -
  have "rd_data r = payload" using packet_fields.data_kept [OF rd_ok_init assms] by simp
  moreover obtain c q where "tide_reader_read_bytes q (pv_size (pk_payload p)) = Some (c, r)" "pv_data (pk_payload p) = Some c"
    using assms by (auto simp: tide_read_packet_def bind_eq_Some_conv)
  ultimately show ?thesis using tide_reader_read_bytes_Some by fastforce
qed

end
