(* ===== verification/Tide_Roundtrip.thy ===== *)
theory Tide_Roundtrip
  imports Tide_Decoder_Laws
begin

text \<open>
  The decoder reads back what the writer wrote.

  \<open>decode_step\<close> turns the laws of the field codecs into rewrite steps for a sequence of reads. With
  them a written header is accepted, a written record is framed, passes its integrity check and
  yields its payload (\<open>written_record_frame\<close>), and the payloads of streams and packets decode to the
  information they were encoded from. \<open>parse_items\<close> puts this together for a file of streams and
  packets in any order in which every packet follows its stream.
\<close>

subsection \<open>Reading back a sequence of fields\<close>

context field_codec begin

lemma decode_step:
  assumes "rd_ok r" and "rd_rest r = enc x @ ys"
  shows "Option.bind (read r) (case_prod k) = k x (rd_advance (length (enc x)) r)"
    and "rd_ok (rd_advance (length (enc x)) r)" and "rd_rest (rd_advance (length (enc x)) r) = ys"
  using assms by (simp_all add: decodes)

end

lemma skip_step:
  assumes "length xs = n" and "rd_ok r" and "rd_rest r = xs @ ys"
  shows "Option.bind (tide_reader_skip r n) k = k (rd_advance n r)"
    and "rd_ok (rd_advance n r)" and "rd_rest (rd_advance n r) = ys"
  using assms by (auto simp: tide_reader_skip_rest)

lemma bytes_step:
  assumes "length xs = n" and "rd_ok r" and "rd_rest r = xs @ ys"
  shows "Option.bind (tide_reader_read_bytes r n) (case_prod k) = k xs (rd_advance n r)"
    and "rd_ok (rd_advance n r)" and "rd_rest (rd_advance n r) = ys"
  using assms by (auto simp: tide_reader_read_bytes_rest)

lemma size_step:
  assumes "n \<le> SIZE_MAX"
  shows "Option.bind (tide_checked_u64_to_size (of_nat n)) k = k n"
  using assms by (simp add: tide_checked_u64_to_size_def)

lemma length_1: "length [b :: byte] = 1" by simp

lemma tide_read_prefix_decodes:
  assumes "rd_ok r" and "rd_rest r = u16_bytes type @ u16_bytes flags @ u16_bytes hs @ [al] @ [0] @
    tide_uleb128_bytes ps @ tide_uleb128_bytes sq @ ys"
  shows "tide_read_prefix r = Some ((type, flags, hs, al, ps, sq),
    rd_advance (8 + length (tide_uleb128_bytes ps) + length (tide_uleb128_bytes sq)) r)"
proof -
  note 1 = u16c.decode_step [OF assms]
  note 2 = u16c.decode_step [OF 1(2,3)]
  note 3 = u16c.decode_step [OF 2(2,3)]
  note 4 = u8c.decode_step [OF 3(2,3)]
  note 5 = skip_step [OF length_1 4(2,3)]
  note 6 = uleb128c.decode_step [OF 5(2,3)]
  note 7 = uleb128c.decode_step [OF 6(2,3)]
  show ?thesis
    unfolding tide_read_prefix_def 1(1) 2(1) 3(1) 4(1) 5(1) 6(1) 7(1) by simp
qed

lemma tide_read_stream_decodes:
  assumes v: "view_ok (si_config s) (si_config_size s)" and "rd_ok r" and "rd_rest r = stream_payload_bytes s @ ys"
  shows "tide_read_stream r = Some (s\<lparr>si_config := Some (view_bytes (si_config s) (si_config_size s))\<rparr>,
    rd_advance (length (stream_payload_bytes s)) r)"
proof -
  have rest: "rd_rest r = tide_u32_bytes (si_track_id s) @ tide_u32_bytes (si_generation s) @ u16_bytes (si_media_kind s) @
      u16_bytes 0 @ tide_u32_bytes (si_codec_tag s) @ tide_u32_bytes (numerator (si_time_base s)) @
      tide_u32_bytes (denominator (si_time_base s)) @ tide_uleb128_bytes (of_nat (si_config_size s)) @
      view_bytes (si_config s) (si_config_size s) @ ys"
    using assms(3) by (simp add: stream_payload_bytes_def stream_payload_bytes_view [OF v])
  have size: "si_config_size s \<le> SIZE_MAX" using v by (auto simp: view_ok_def SIZE_MAX_def)
  note 1 = u32c.decode_step [OF assms(2) rest]
  note 2 = u32c.decode_step [OF 1(2,3)]
  note 3 = u16c.decode_step [OF 2(2,3)]
  note 4 = skip_step [OF length_u16_bytes 3(2,3)]
  note 5 = u32c.decode_step [OF 4(2,3)]
  note 6 = u32c.decode_step [OF 5(2,3)]
  note 7 = u32c.decode_step [OF 6(2,3)]
  note 8 = uleb128c.decode_step [OF 7(2,3)]
  note 9 = bytes_step [OF length_view_bytes [OF v] 8(2,3)]
  have len: "length (stream_payload_bytes s) = 24 + length (tide_uleb128_bytes (of_nat (si_config_size s))) + si_config_size s"
    using length_view_bytes [OF v] by (simp add: stream_payload_bytes_def stream_payload_bytes_view [OF v])
  show ?thesis
    unfolding tide_read_stream_def 1(1) 2(1) 3(1) 4(1) 5(1) 6(1) 7(1) 8(1) size_step [OF size] 9(1) len
    by (simp add: add.commute add.left_commute)
qed

lemma packet_payload_bytes_view:
  "view_ok (pv_data v) (pv_size v) \<Longrightarrow> take (pv_size v) (the (pv_data v)) = view_bytes (pv_data v) (pv_size v)"
  by (cases "pv_data v") (auto simp: view_ok_def view_bytes_def)

lemma tide_read_packet_decodes:
  assumes v: "view_ok (pv_data (pk_payload p)) (pv_size (pk_payload p))" and "rd_ok r" and "rd_rest r = packet_payload_bytes p @ ys"
  shows "tide_read_packet r = Some (p\<lparr>pk_payload := \<lparr>pv_data = Some (view_bytes (pv_data (pk_payload p)) (pv_size (pk_payload p))),
      pv_size = pv_size (pk_payload p), pv_lease = None\<rparr>\<rparr>,
    rd_advance (length (packet_payload_bytes p)) r)"
proof -
  let ?n = "pv_size (pk_payload p)" and ?d = "view_bytes (pv_data (pk_payload p)) (pv_size (pk_payload p))"
  have rest: "rd_rest r = tide_u32_bytes (pk_track_id p) @ tide_u32_bytes (pk_generation p) @ u64_bytes (pk_packet_seq p) @
      u64_bytes (pk_dts p) @ u64_bytes (pk_pts p) @ u64_bytes (pk_duration p) @ tide_u32_bytes (pk_flags p) @
      tide_uleb128_bytes (of_nat ?n) @ ?d @ ys"
    using assms(3) by (simp add: packet_payload_bytes_def packet_payload_bytes_view [OF v])
  have size: "?n \<le> SIZE_MAX" using v by (auto simp: view_ok_def SIZE_MAX_def)
  note 1 = u32c.decode_step [OF assms(2) rest]
  note 2 = u32c.decode_step [OF 1(2,3)]
  note 3 = u64c.decode_step [OF 2(2,3)]
  note 4 = i64c.decode_step [OF 3(2,3)]
  note 5 = i64c.decode_step [OF 4(2,3)]
  note 6 = i64c.decode_step [OF 5(2,3)]
  note 7 = u32c.decode_step [OF 6(2,3)]
  note 8 = uleb128c.decode_step [OF 7(2,3)]
  note 9 = bytes_step [OF length_view_bytes [OF v] 8(2,3)]
  have len: "length (packet_payload_bytes p) = 44 + length (tide_uleb128_bytes (of_nat ?n)) + ?n"
    using length_view_bytes [OF v] by (simp add: packet_payload_bytes_def packet_payload_bytes_view [OF v])
  show ?thesis
    unfolding tide_read_packet_def 1(1) 2(1) 3(1) 4(1) 5(1) 6(1) 7(1) 8(1) size_step [OF size] 9(1) len
    by (simp add: add.commute add.left_commute)
qed

subsection \<open>A written header is accepted\<close>

lemma tide_read_header_written:
  assumes u: "length uuid = 16"
  shows "\<exists>q. tide_read_header (tide_reader_init (byte_span (tide_header_bytes tb uuid @ ys) 8 TIDE_HEADER_SIZE)) =
    Some ((1, 0, uuid, tb, 0, 0, 64 * 1024 * 1024, 0, tide_crc32c (tide_header_prefix tb uuid)), q)"
proof -
  let ?h = "tide_header_bytes tb uuid" and ?p = "tide_header_prefix tb uuid"
  let ?r = "tide_reader_init (byte_span (?h @ ys) 8 TIDE_HEADER_SIZE)"
  have len: "length ?h = 72" using u by (simp add: TIDE_HEADER_SIZE_def)
  have "byte_span (?h @ ys) 8 72 = drop 8 ?h" using len by (simp add: byte_span_def)
  also have "\<dots> = u16_bytes 1 @ u16_bytes 0 @ uuid @ tide_u32_bytes (numerator tb) @ tide_u32_bytes (denominator tb) @
      u64_bytes 0 @ u64_bytes 0 @ u64_bytes (64 * 1024 * 1024) @ u64_bytes 0 @ tide_u32_bytes (tide_crc32c ?p) @ []"
    unfolding tide_header_bytes_def by (subst (1) tide_header_prefix_def) simp
  finally have rest: "rd_rest ?r = u16_bytes 1 @ u16_bytes 0 @ uuid @ tide_u32_bytes (numerator tb) @ tide_u32_bytes (denominator tb) @
      u64_bytes 0 @ u64_bytes 0 @ u64_bytes (64 * 1024 * 1024) @ u64_bytes 0 @ tide_u32_bytes (tide_crc32c ?p) @ []"
    by (simp add: TIDE_HEADER_SIZE_def)
  have uu: "length uuid = TIDE_UUID_SIZE" using u by (simp add: TIDE_UUID_SIZE_def)
  note 1 = u16c.decode_step [OF rd_ok_init rest]
  note 2 = u16c.decode_step [OF 1(2,3)]
  note 3 = bytes_step [OF uu 2(2,3)]
  note 4 = u32c.decode_step [OF 3(2,3)]
  note 5 = u32c.decode_step [OF 4(2,3)]
  note 6 = u64c.decode_step [OF 5(2,3)]
  note 7 = u64c.decode_step [OF 6(2,3)]
  note 8 = u64c.decode_step [OF 7(2,3)]
  note 9 = u64c.decode_step [OF 8(2,3)]
  note 10 = u32c.decode_step [OF 9(2,3)]
  show ?thesis
    unfolding tide_read_header_def 1(1) 2(1) 3(1) 4(1) 5(1) 6(1) 7(1) 8(1) 9(1) 10(1) by simp
qed

lemma tide_validate_header_written_eq:
  assumes "tide_rational_is_valid tb" and u: "length uuid = 16" and "uuid \<noteq> replicate 16 0"
  shows "tide_validate_header (tide_header_bytes tb uuid @ ys) limits e =
    (if max_record_size limits < 64 * 1024 * 1024
     then (TIDE_STATUS_RESOURCE, tide_set_parse_error TIDE_STATUS_RESOURCE 52 0 0 ''record hint exceeds policy'')
     else (TIDE_STATUS_OK, e))"
proof -
  let ?h = "tide_header_bytes tb uuid" and ?p = "tide_header_prefix tb uuid"
  have magic: "take 8 (?h @ ys) = tide_magic" by (simp add: tide_header_bytes_def tide_header_prefix_def)
  have body: "take (TIDE_HEADER_SIZE - 4) (?h @ ys) = ?p"
    using u by (simp add: tide_header_bytes_def TIDE_HEADER_SIZE_def)
  obtain q where q: "tide_read_header (tide_reader_init (byte_span (?h @ ys) 8 TIDE_HEADER_SIZE)) =
      Some ((1, 0, uuid, tb, 0, 0, 64 * 1024 * 1024, 0, tide_crc32c ?p), q)"
    using tide_read_header_written [OF u, of tb ys] ..
  have n: "\<not> length (?h @ ys) < TIDE_HEADER_SIZE" using u by simp
  show ?thesis
    unfolding tide_validate_header_def q option.case prod.case body
    using n magic assms(1,3) by (simp add: TIDE_UUID_SIZE_def)
qed

lemma tide_validate_header_written:
  assumes "tide_rational_is_valid tb" and "length uuid = 16" and "uuid \<noteq> replicate 16 0" and "64 * 1024 * 1024 \<le> max_record_size limits"
  shows "tide_validate_header (tide_header_bytes tb uuid @ ys) limits e = (TIDE_STATUS_OK, e)"
  using assms(4) by (simp add: tide_validate_header_written_eq [OF assms(1-3)] not_less)

subsection \<open>A written record is framed and passes its checks\<close>

definition written_frame :: "nat \<Rightarrow> u16 \<Rightarrow> u16 \<Rightarrow> byte \<Rightarrow> u64 \<Rightarrow> bytes \<Rightarrow> byte \<Rightarrow> tide_record_frame" where
  "written_frame off type flags al sq payload depth = (let
     hs = record_header_size (length payload) sq; pad = off + align_up (unat al) (hs + length payload) in
     \<lparr>fr_type = type, fr_flags = flags, fr_header_size = of_nat hs, fr_alignment_log2 = al, fr_payload_size = of_nat (length payload),
      fr_sequence = sq, fr_offset = off, fr_payload_offset = off + hs, fr_payload_end = off + hs + length payload,
      fr_padding_end = pad, fr_crc_end = pad + 4, fr_depth = depth\<rparr>)"

lemma unat_header_size: "unat (of_nat (record_header_size n sq) :: u16) = record_header_size n sq"
  using record_header_size_bounds [of n sq] by (simp add: unat_of_nat)

lemma tide_place_record_written:
  assumes "al \<le> 4" and "off + align_up (unat al) (hs + n) + 4 \<le> SIZE_MAX" and "hs < 2 ^ 16" and "n < 2 ^ 62"
  shows "tide_place_record off (of_nat hs) (of_nat n) al = Some (of_nat (off + hs + n),
    of_nat (off + align_up (unat al) (hs + n)), of_nat (off + align_up (unat al) (hs + n) + 4))"
proof -
  have le: "hs + n \<le> align_up (unat al) (hs + n)" by (rule align_up_bounds)
  have b: "n \<le> SIZE_MAX" "off \<le> SIZE_MAX" "hs + n \<le> SIZE_MAX" "off + (hs + n) \<le> SIZE_MAX" "align_up (unat al) (hs + n) \<le> SIZE_MAX"
    "off + align_up (unat al) (hs + n) \<le> SIZE_MAX" using assms(2) le by simp_all
  have hs: "unat (ucast (of_nat hs :: u16) :: u64) = hs" using assms(3) by (simp add: unat_of_nat)
  have 1: "tide_checked_add_u64 (ucast (of_nat hs :: u16)) (of_nat n) = Some (of_nat (hs + n))"
    using b by (simp only: tide_checked_add_u64_iff hs) (simp del: of_nat_add)
  have 2: "tide_checked_add_u64 (of_nat off) (of_nat (hs + n)) = Some (of_nat (off + hs + n))"
    using b by (simp only: tide_checked_add_u64_iff) (simp del: of_nat_add add: add.assoc)
  have k: "unat al < 64" using alignment_shift(2) [OF assms(1)] by simp
  have "(2 :: nat) ^ unat al \<le> 2 ^ 4" using alignment_shift(2) [OF assms(1)] by (intro power_increasing) auto
  then have "\<not> 2 ^ 64 \<le> hs + n + 2 ^ unat al - 1" using assms(3,4) by simp
  then obtain v where v: "tide_align_u64 (of_nat (hs + n)) (2 ^ unat al) = Some v"
    using tide_align_u64_None [OF k, of "of_nat (hs + n)"] b by (cases "tide_align_u64 (of_nat (hs + n)) (2 ^ unat al)") (auto simp del: of_nat_add)
  then have uv: "unat v = align_up (unat al) (hs + n)"
    using tide_align_u64_pow2 [OF k v] b by (simp add: align_up_def del: of_nat_add)
  have 4: "tide_checked_add_u64 (of_nat off) v = Some (of_nat (off + align_up (unat al) (hs + n)))"
    using b by (simp only: tide_checked_add_u64_iff uv) (simp del: of_nat_add)
  have 5: "tide_checked_add_u64 (of_nat (off + align_up (unat al) (hs + n))) 4 = Some (of_nat (off + align_up (unat al) (hs + n) + 4))"
    using b assms(2) by (simp only: tide_checked_add_u64_iff) (simp del: of_nat_add)
  have "off + hs + n \<le> SIZE_MAX" using b by simp
  then show ?thesis
    unfolding tide_place_record_def 1 alignment_shift(1) [OF assms(1)] bind.bind_lunit 2 v 4 5
    using b assms(2) by (simp del: of_nat_add)
qed

lemma written_record_frame:
  fixes depth :: byte
  assumes al: "al \<le> 4" and n: "length payload < 2 ^ 62" and data: "data = pre @ tide_record_bytes type flags al sq payload @ post"
    and stop: "length pre + length (tide_record_bytes type flags al sq payload) \<le> stop" "stop \<le> length data" "stop \<le> SIZE_MAX"
  defines "f \<equiv> written_frame (length pre) type flags al sq payload depth"
  shows "tide_decode_record_prefix data stop (length pre) depth e = Inr f" and "record_valid data f"
    and "fr_payload data f = payload" and "fr_crc_end f = length pre + length (tide_record_bytes type flags al sq payload)"
proof -
  let ?R = "tide_record_bytes type flags al sq payload" and ?hs = "record_header_size (length payload) sq"
  let ?body = "record_body_bytes type flags al sq payload" and ?m = "align_up (unat al) (record_header_size (length payload) sq + length payload)"
  have hs: "10 \<le> ?hs" "?hs \<le> 28" by (rule record_header_size_bounds)+
  have lenR: "length ?R = ?m + 4" by (rule length_tide_record_bytes)
  have lenB: "length ?body = ?m" by (rule length_record_body_bytes)
  have R: "?R = ?body @ tide_u32_bytes (tide_crc32c ?body)" by (simp add: tide_record_bytes_def Let_def)
  have body: "?body = record_prefix_bytes type flags al sq (length payload) @ payload @ replicate (?m - (?hs + length payload)) 0"
    by (simp add: record_body_bytes_def Let_def)
  have m: "?hs + length payload \<le> ?m" by (rule align_up_bounds)
  let ?r = "tide_reader_init (byte_span data (length pre) stop)"
  have "\<exists>zs. byte_span data (length pre) stop = ?R @ zs"
    using stop data by (simp add: byte_span_def)
  then obtain zs where "rd_rest ?r = u16_bytes type @ u16_bytes flags @ u16_bytes (of_nat ?hs) @ [al] @ [0] @
      tide_uleb128_bytes (of_nat (length payload)) @ tide_uleb128_bytes sq @ zs"
    unfolding R body record_prefix_bytes_def by auto
  from tide_read_prefix_decodes [OF rd_ok_init this]
  have read: "tide_read_prefix ?r = Some ((type, flags, of_nat ?hs, al, of_nat (length payload), sq), rd_advance ?hs ?r)"
    by (simp add: record_header_size_def tide_uleb128_size_eq)
  have place: "tide_place_record (length pre) (of_nat ?hs) (of_nat (length payload)) al = Some (of_nat (length pre + ?hs + length payload),
      of_nat (length pre + ?m), of_nat (length pre + ?m + 4))"
    using stop lenR hs n by (intro tide_place_record_written [OF al]) simp_all
  have sz: "length pre + ?hs + length payload \<le> SIZE_MAX" "length pre + ?m \<le> SIZE_MAX" "length pre + ?m + 4 \<le> SIZE_MAX"
    using stop lenR m by simp_all
  have al4: "\<not> 4 < al" using al by simp
  have "8 \<le> stop - length pre" using stop(1) lenR m hs by simp
  then show dec: "tide_decode_record_prefix data stop (length pre) depth e = Inr f"
    unfolding tide_decode_record_prefix_def read option.case prod.case place f_def written_frame_def Let_def
    using sz stop(1) lenR al4 by (simp add: unat_header_size del: of_nat_add)
  show crc: "fr_crc_end f = length pre + length ?R" by (simp add: f_def written_frame_def Let_def lenR)
  show pl: "fr_payload data f = payload"
    using hs by (simp add: f_def written_frame_def Let_def data R body byte_span_def)
  have sp: "byte_span data (length pre) (length pre + ?m) = ?body" "byte_span data (length pre + ?m) (length pre + ?m + 4) = tide_u32_bytes (tide_crc32c ?body)"
    using lenB by (simp_all add: data R byte_span_def)
  have "data ! i = 0" if "length pre + ?hs + length payload \<le> i" "i < length pre + ?m" for i
  proof -
    have "i - length pre < ?m" "length pre \<le> i" using that by simp_all
    then have "data ! i = ?body ! (i - length pre)" using lenB by (simp add: data R nth_append)
    also have "\<dots> = 0"
    proof -
      have "?body ! j = 0" if j: "?hs + length payload \<le> j" "j < ?m" for j
      proof -
        have "\<not> j < ?hs" "\<not> j - ?hs < length payload" "j - ?hs - length payload < ?m - (?hs + length payload)" using j by simp_all
        then show ?thesis by (simp add: body nth_append)
      qed
      then show ?thesis using that by simp
    qed
    finally show ?thesis .
  qed
  then show "record_valid data f"
    using tide_decode_record_prefix_framed [OF dec stop(3,2)] sp m data lenR
    by (simp add: record_valid_def) (simp add: f_def written_frame_def Let_def)
qed

lemma written_frame_simps [simp]:
  "fr_type (written_frame off type flags al sq payload depth) = type"
  "fr_offset (written_frame off type flags al sq payload depth) = off"
  "fr_depth (written_frame off type flags al sq payload depth) = depth"
  by (simp_all add: written_frame_def Let_def)

lemma parse_written_record:
  assumes al: "al \<le> 4" and n: "length payload < 2 ^ 62" and data: "data = pre @ tide_record_bytes type flags al sq payload @ post"
    and stop: "length pre + length (tide_record_bytes type flags al sq payload) \<le> stop" "stop \<le> length data" "stop \<le> SIZE_MAX"
    and lim: "of_nat (length payload) \<le> max_payload_size (di_limits s)"
      "of_nat (length (tide_record_bytes type flags al sq payload)) \<le> max_record_size (di_limits s)"
    and proc: "process_with alloc (\<lambda>s. tide_parse_records alloc s data) s data (written_frame (length pre) type flags al sq payload depth) =
      (TIDE_STATUS_OK, s1)"
  defines "k \<equiv> length (pre @ tide_record_bytes type flags al sq payload)"
  shows "tide_parse_records alloc s data (length pre) stop depth =
    tide_parse_records alloc (s1\<lparr>di_valid_prefix := of_nat k\<rparr>) data k stop depth"
proof -
  let ?f = "written_frame (length pre) type flags al sq payload depth" and ?R = "tide_record_bytes type flags al sq payload"
  note w = written_record_frame [OF al n data stop, of depth]
  have int: "tide_validate_record_integrity data ?f (di_error s) = (TIDE_STATUS_OK, di_error s)"
  proof -
    have "fst (tide_validate_record_integrity data ?f (di_error s)) = TIDE_STATUS_OK"
      using w(2) by (subst tide_validate_record_integrity_iff) (auto simp: record_valid_def)
    then show ?thesis by (auto simp: tide_validate_record_integrity_def Let_def split: option.splits if_splits)
  qed
  have fl: "fr_payload_size ?f = of_nat (length payload)" by (simp add: written_frame_def Let_def)
  have kl: "k - length pre = length ?R" by (simp add: k_def)
  have kk: "fr_crc_end ?f = k" using w(4) by (simp add: k_def)
  have lt: "length pre < stop" using stop(1) length_tide_record_bytes [of type flags al sq payload] by simp
  show ?thesis
    unfolding tide_parse_records.simps [of alloc s data "length pre" stop depth] w(1) [of "di_error s"] sum.case int prod.case
      tide_process_record_with proc Let_def fl kk
    using lt stop(3) lim kl by (simp add: not_less [symmetric])
qed

lemma not_skippable:
  "TIDE_RECORD_STREAM_DESC AND TIDE_RECORD_SKIPPABLE_BIT = 0" "TIDE_RECORD_PACKET AND TIDE_RECORD_SKIPPABLE_BIT = 0"
  "TIDE_RECORD_FOOTER AND TIDE_RECORD_SKIPPABLE_BIT = 0" "TIDE_RECORD_GROUP AND TIDE_RECORD_SKIPPABLE_BIT = 0"
  by (simp_all add: TIDE_RECORD_STREAM_DESC_def TIDE_RECORD_PACKET_def TIDE_RECORD_FOOTER_def TIDE_RECORD_GROUP_def
      TIDE_RECORD_SKIPPABLE_BIT_def)

lemma record_types_distinct:
  "TIDE_RECORD_STREAM_DESC \<noteq> TIDE_RECORD_GROUP" "TIDE_RECORD_PACKET \<noteq> TIDE_RECORD_GROUP" "TIDE_RECORD_PACKET \<noteq> TIDE_RECORD_STREAM_DESC"
  "TIDE_RECORD_FOOTER \<noteq> TIDE_RECORD_GROUP" "TIDE_RECORD_FOOTER \<noteq> TIDE_RECORD_STREAM_DESC" "TIDE_RECORD_FOOTER \<noteq> TIDE_RECORD_PACKET"
  "TIDE_RECORD_FOOTER \<noteq> TIDE_RECORD_PACKET_TABLE" "TIDE_RECORD_FOOTER \<noteq> TIDE_RECORD_EDIT_LIST"
  "TIDE_RECORD_FOOTER \<noteq> TIDE_RECORD_DISCONTINUITY" "TIDE_RECORD_FOOTER \<noteq> TIDE_RECORD_SEEK_INDEX"
  "TIDE_RECORD_FOOTER \<noteq> TIDE_RECORD_CHECKPOINT" "TIDE_RECORD_FOOTER \<noteq> TIDE_RECORD_INDEX_DIRECTORY"
  by (simp_all add: TIDE_RECORD_STREAM_DESC_def TIDE_RECORD_PACKET_def TIDE_RECORD_GROUP_def TIDE_RECORD_FOOTER_def
      TIDE_RECORD_PACKET_TABLE_def TIDE_RECORD_EDIT_LIST_def TIDE_RECORD_DISCONTINUITY_def TIDE_RECORD_SEEK_INDEX_def
      TIDE_RECORD_CHECKPOINT_def TIDE_RECORD_INDEX_DIRECTORY_def)

subsection \<open>Streams and packets come back\<close>

definition stream_read_back :: "tide_stream_info \<Rightarrow> tide_stream_info" where
  "stream_read_back si = si\<lparr>si_config := Some (view_bytes (si_config si) (si_config_size si))\<rparr>"

definition packet_read_back :: "tide_packet_info \<Rightarrow> tide_packet_info" where
  "packet_read_back p = p\<lparr>pk_payload := \<lparr>pv_data = Some (view_bytes (pv_data (pk_payload p)) (pv_size (pk_payload p))),
     pv_size = pv_size (pk_payload p), pv_lease = None\<rparr>\<rparr>"

text \<open>A callback that is not set accepts everything.\<close>

definition stream_handler :: "'u tide_callbacks \<Rightarrow> 'u \<Rightarrow> tide_stream_info \<Rightarrow> tide_status \<times> 'u" where
  "stream_handler cbs = (case on_stream cbs of None \<Rightarrow> (\<lambda>u _. (TIDE_STATUS_OK, u)) | Some cb \<Rightarrow> cb)"

definition packet_handler :: "'u tide_callbacks \<Rightarrow> 'u \<Rightarrow> tide_packet_info \<Rightarrow> tide_status \<times> 'u" where
  "packet_handler cbs = (case on_packet cbs of None \<Rightarrow> (\<lambda>u _. (TIDE_STATUS_OK, u)) | Some cb \<Rightarrow> cb)"

lemma emit_written_stream:
  assumes "view_ok (si_config si) (si_config_size si)" and "tide_rational_is_valid (si_time_base si)"
    and "tide_add_track alloc s (stream_read_back si) (of_nat (fr_offset f)) = (TIDE_STATUS_OK, s1)"
    and "stream_handler (di_callbacks s) (di_user s) (stream_read_back si) = (status, u)"
  shows "tide_emit_stream alloc s (stream_payload_bytes si) f = (status, s1\<lparr>di_user := u\<rparr>)"
proof -
  have "tide_read_stream (tide_reader_init (stream_payload_bytes si)) = Some (stream_read_back si,
      rd_advance (length (stream_payload_bytes si)) (tide_reader_init (stream_payload_bytes si)))"
    using tide_read_stream_decodes [OF assms(1) rd_ok_init, of "stream_payload_bytes si" "[]"] by (simp add: stream_read_back_def)
  then show ?thesis
    using assms tide_add_track_OK [OF assms(3)]
    by (cases "on_stream (di_callbacks s)") (auto simp: tide_emit_stream_def stream_read_back_def stream_handler_def)
qed

lemma emit_written_packet:
  assumes "view_ok (pv_data (pk_payload p)) (pv_size (pk_payload p))" and "0 \<le> sint (pk_duration p)"
    and "(pk_track_id p, pk_generation p) \<in> track_key ` set (di_tracks s)"
    and "packet_handler (di_callbacks s) (di_user s) (packet_read_back p) = (status, u)"
  shows "tide_emit_packet s (packet_payload_bytes p) f = (status, s\<lparr>di_user := u\<rparr>)"
proof -
  have "tide_read_packet (tide_reader_init (packet_payload_bytes p)) = Some (packet_read_back p,
      rd_advance (length (packet_payload_bytes p)) (tide_reader_init (packet_payload_bytes p)))"
    using tide_read_packet_decodes [OF assms(1) rd_ok_init, of "packet_payload_bytes p" "[]"] by (simp add: packet_read_back_def)
  moreover have "tide_find_track (di_tracks s) (pk_track_id p) (pk_generation p) \<noteq> None"
    using assms(3) by (simp only: tide_find_track_None not_not)
  ultimately show ?thesis
    using assms by (cases "on_packet (di_callbacks s)") (auto simp: tide_emit_packet_def packet_read_back_def packet_handler_def)
qed
subsection \<open>A file of streams and packets\<close>

datatype mux_item = Mux_Stream tide_stream_info | Mux_Packet tide_packet_info

fun item_type :: "mux_item \<Rightarrow> u16" where
  "item_type (Mux_Stream si) = TIDE_RECORD_STREAM_DESC"
| "item_type (Mux_Packet p) = TIDE_RECORD_PACKET"

fun item_payload :: "mux_item \<Rightarrow> bytes" where
  "item_payload (Mux_Stream si) = stream_payload_bytes si"
| "item_payload (Mux_Packet p) = packet_payload_bytes p"

fun written_items :: "u64 \<Rightarrow> mux_item list \<Rightarrow> bytes" where
  "written_items sq [] = []"
| "written_items sq (it # its) = tide_record_bytes (item_type it) 0 3 sq (item_payload it) @ written_items (sq + 1) its"

definition payload_fits :: "tide_limits \<Rightarrow> nat \<Rightarrow> bool" where
  "payload_fits lims n \<longleftrightarrow> n \<le> unat (max_payload_size lims) \<and> n + 48 \<le> unat (max_record_size lims) \<and> n < 2 ^ 62"

fun items_ok :: "tide_limits \<Rightarrow> (u32 \<times> u32) list \<Rightarrow> mux_item list \<Rightarrow> bool" where
  "items_ok lims ks [] = True"
| "items_ok lims ks (Mux_Stream si # its) =
     (view_ok (si_config si) (si_config_size si) \<and> tide_rational_is_valid (si_time_base si) \<and>
      (si_track_id si, si_generation si) \<notin> set ks \<and> length ks < unat (max_tracks lims) \<and>
      payload_fits lims (length (stream_payload_bytes si)) \<and> items_ok lims ((si_track_id si, si_generation si) # ks) its)"
| "items_ok lims ks (Mux_Packet p # its) =
     (view_ok (pv_data (pk_payload p)) (pv_size (pk_payload p)) \<and> 0 \<le> sint (pk_duration p) \<and>
      (pk_track_id p, pk_generation p) \<in> set ks \<and>
      payload_fits lims (length (packet_payload_bytes p)) \<and> items_ok lims ks its)"

fun deliver ::
    "('u \<Rightarrow> tide_stream_info \<Rightarrow> tide_status \<times> 'u) \<Rightarrow> ('u \<Rightarrow> tide_packet_info \<Rightarrow> tide_status \<times> 'u) \<Rightarrow> 'u \<Rightarrow> mux_item list \<Rightarrow> 'u option" where
  "deliver fs fp u [] = Some u"
| "deliver fs fp u (Mux_Stream si # its) =
     (case fs u (stream_read_back si) of (status, u) \<Rightarrow> if status = TIDE_STATUS_OK then deliver fs fp u its else None)"
| "deliver fs fp u (Mux_Packet p # its) =
     (case fp u (packet_read_back p) of (status, u) \<Rightarrow> if status = TIDE_STATUS_OK then deliver fs fp u its else None)"

lemma record_bytes_bound: "al \<le> 4 \<Longrightarrow> length (tide_record_bytes type flags al sq payload) \<le> length payload + 48"
proof -
  assume al: "al \<le> 4"
  have "(2 :: nat) ^ unat al \<le> 2 ^ 4" using alignment_shift(2) [OF al] by (intro power_increasing) auto
  then show ?thesis
    using align_up_bounds(2) [of "unat al" "record_header_size (length payload) sq + length payload"]
      record_header_size_bounds(2) [of "length payload" sq] length_tide_record_bytes [of type flags al sq payload] by simp
qed

lemma payload_fits_limits:
  assumes "payload_fits lims (length payload)" and "al \<le> 4"
  shows "of_nat (length payload) \<le> max_payload_size lims" and "of_nat (length (tide_record_bytes type flags al sq payload)) \<le> max_record_size lims"
    and "length payload < 2 ^ 62"
proof -
  have u: "unat (of_nat k :: u64) = k" if "k < 2 ^ 63" for k :: nat using that by (simp add: unat_of_nat)
  have b: "length (tide_record_bytes type flags al sq payload) \<le> length payload + 48" by (rule record_bytes_bound [OF assms(2)])
  show "of_nat (length payload) \<le> max_payload_size lims"
    using assms(1) by (simp add: word_le_nat_alt u payload_fits_def)
  show "of_nat (length (tide_record_bytes type flags al sq payload)) \<le> max_record_size lims"
    using assms(1) b by (simp add: word_le_nat_alt u payload_fits_def)
  show "length payload < 2 ^ 62" using assms(1) by (simp add: payload_fits_def)
qed

definition knows :: "'u tide_decoder_impl \<Rightarrow> (u32 \<times> u32) list \<Rightarrow> bool" where
  "knows s ks \<longleftrightarrow> track_key ` set (di_tracks s) = set ks \<and> length (di_tracks s) = length ks"

lemma tide_add_track_new:
  assumes "\<And>m. alloc m" and "knows s ks" and "(si_track_id si, si_generation si) \<notin> set ks" and "length ks < unat (max_tracks (di_limits s))"
  shows "\<exists>s1. tide_add_track alloc s (stream_read_back si) off = (TIDE_STATUS_OK, s1) \<and>
    knows s1 ((si_track_id si, si_generation si) # ks) \<and> same_config s s1 \<and> di_user s1 = di_user s"
proof -
  have "tide_find_track (di_tracks s) (si_track_id si) (si_generation si) = None"
    using assms(2,3) by (simp add: tide_find_track_None knows_def)
  then show ?thesis
    using assms by (auto simp: tide_add_track_def stream_read_back_def Let_def knows_def track_key_def same_config_def)
qed

lemma process_written_item:
  fixes s :: "'u tide_decoder_impl"
  assumes alloc: "\<And>m. alloc m" and kn: "knows s ks" and ok: "items_ok (di_limits s) ks (it # its)"
    and cb: "on_record (di_callbacks s) = None" "stream_handler (di_callbacks s) = fs" "packet_handler (di_callbacks s) = fp"
    and del: "deliver fs fp (di_user s) (it # its) = Some u'"
    and f: "fr_type f = item_type it" and pl: "fr_payload data f = item_payload it"
  shows "\<exists>s1 ks1. process_with alloc children s data f = (TIDE_STATUS_OK, s1) \<and> knows s1 ks1 \<and> same_config s s1 \<and>
    items_ok (di_limits s) ks1 its \<and> deliver fs fp (di_user s1) its = Some u'"
proof -
  have n: "tide_notify_record s (tide_event f) = (TIDE_STATUS_OK, s)" using cb by (simp add: tide_notify_record_def)
  show ?thesis
  proof (cases it)
    case (Mux_Stream si)
    obtain s1 where s1: "tide_add_track alloc s (stream_read_back si) (of_nat (fr_offset f)) = (TIDE_STATUS_OK, s1)"
        "knows s1 ((si_track_id si, si_generation si) # ks)" "same_config s s1" "di_user s1 = di_user s"
      using tide_add_track_new [of alloc s ks si "of_nat (fr_offset f)"] alloc kn ok Mux_Stream by auto
    obtain u1 where u1: "fs (di_user s) (stream_read_back si) = (TIDE_STATUS_OK, u1)" and d: "deliver fs fp u1 its = Some u'"
      using del Mux_Stream by (auto split: prod.splits if_splits)
    have "tide_emit_stream alloc s (stream_payload_bytes si) f = (TIDE_STATUS_OK, s1\<lparr>di_user := u1\<rparr>)"
      using ok Mux_Stream by (intro emit_written_stream [OF _ _ s1(1) u1 [folded cb(2)]]) auto
    then have "process_with alloc children s data f = (TIDE_STATUS_OK, s1\<lparr>di_user := u1\<rparr>)"
      using n f pl Mux_Stream by (simp add: process_with_def not_skippable record_types_distinct)
    then show ?thesis using s1 d ok Mux_Stream by (intro exI [of _ "s1\<lparr>di_user := u1\<rparr>"] exI [of _ "(si_track_id si, si_generation si) # ks"]) (auto simp: knows_def)
  next
    case (Mux_Packet p)
    obtain u1 where u1: "fp (di_user s) (packet_read_back p) = (TIDE_STATUS_OK, u1)" and d: "deliver fs fp u1 its = Some u'"
      using del Mux_Packet by (auto split: prod.splits if_splits)
    have "tide_emit_packet s (packet_payload_bytes p) f = (TIDE_STATUS_OK, s\<lparr>di_user := u1\<rparr>)"
      using ok kn Mux_Packet by (intro emit_written_packet [OF _ _ _ u1 [folded cb(3)]]) (auto simp: knows_def)
    then have "process_with alloc children s data f = (TIDE_STATUS_OK, s\<lparr>di_user := u1\<rparr>)"
      using n f pl Mux_Packet by (simp add: process_with_def not_skippable record_types_distinct)
    then show ?thesis using d ok kn Mux_Packet by (intro exI [of _ "s\<lparr>di_user := u1\<rparr>"] exI [of _ ks]) (auto simp: knows_def same_config_def)
  qed
qed

lemma items_ok_payload: "items_ok lims ks (it # its) \<Longrightarrow> payload_fits lims (length (item_payload it))"
  by (cases it) auto

lemma parse_items:
  assumes alloc: "\<And>m. alloc m" and "knows s ks" and "items_ok (di_limits s) ks its"
    and "on_record (di_callbacks s) = None" "stream_handler (di_callbacks s) = fs" "packet_handler (di_callbacks s) = fp"
    and "deliver fs fp (di_user s) its = Some u'"
    and "data = pre @ written_items sq its @ post" and "length (pre @ written_items sq its) \<le> stop" "stop \<le> length data" "stop \<le> SIZE_MAX"
    and "di_valid_prefix s = of_nat (length pre)"
  shows "\<exists>s'. tide_parse_records alloc s data (length pre) stop depth =
      tide_parse_records alloc s' data (length (pre @ written_items sq its)) stop depth \<and>
    same_config s s' \<and> di_user s' = u' \<and> di_valid_prefix s' = of_nat (length (pre @ written_items sq its))"
  using assms(2-)
proof (induction its arbitrary: s ks pre sq)
  case Nil
  then show ?case by (intro exI [of _ s]) (auto simp: same_config_def)
next
  case (Cons it its)
  let ?R = "tide_record_bytes (item_type it) 0 3 sq (item_payload it)" and ?W = "written_items (sq + 1) its"
  let ?f = "written_frame (length pre) (item_type it) 0 3 sq (item_payload it) depth"
  have al: "(3 :: byte) \<le> 4" by simp
  note fits = payload_fits_limits [OF items_ok_payload [OF Cons.prems(2)] al]
  have data: "data = pre @ ?R @ (?W @ post)" using Cons.prems(7) by simp
  have stop: "length pre + length ?R \<le> stop" using Cons.prems(8) by simp
  have pl: "fr_payload data ?f = item_payload it"
    by (rule written_record_frame(3) [OF al fits(3) data stop Cons.prems(9,10)])
  obtain s1 ks1 where p: "process_with alloc (\<lambda>s. tide_parse_records alloc s data) s data ?f = (TIDE_STATUS_OK, s1)"
    and s1: "knows s1 ks1" "same_config s s1" "items_ok (di_limits s) ks1 its" "deliver fs fp (di_user s1) its = Some u'"
    using process_written_item [of alloc s ks it its fs fp u' ?f data "\<lambda>s. tide_parse_records alloc s data"] alloc Cons.prems pl by auto
  let ?s = "s1\<lparr>di_valid_prefix := of_nat (length (pre @ ?R))\<rparr>"
  have step: "tide_parse_records alloc s data (length pre) stop depth = tide_parse_records alloc ?s data (length (pre @ ?R)) stop depth"
    by (rule parse_written_record [OF al fits(3) data stop Cons.prems(9,10) fits(1,2) p])
  have "\<exists>s'. tide_parse_records alloc ?s data (length (pre @ ?R)) stop depth =
      tide_parse_records alloc s' data (length ((pre @ ?R) @ ?W)) stop depth \<and>
    same_config ?s s' \<and> di_user s' = u' \<and> di_valid_prefix s' = of_nat (length ((pre @ ?R) @ ?W))"
    using s1 Cons.prems data by (intro Cons.IH [of _ ks1]) (auto simp: knows_def same_config_def)
  then obtain s' where s': "tide_parse_records alloc ?s data (length (pre @ ?R)) stop depth =
      tide_parse_records alloc s' data (length (pre @ written_items sq (it # its))) stop depth"
    "same_config ?s s'" "di_user s' = u'" "di_valid_prefix s' = of_nat (length (pre @ written_items sq (it # its)))"
    by auto
  show ?case using step s' s1(2) by (intro exI [of _ s']) (auto simp: same_config_def)
qed

subsection \<open>The footer\<close>

definition footer_payload_bytes :: "nat \<Rightarrow> bytes \<Rightarrow> bytes" where
  "footer_payload_bytes len contents = u64_bytes (of_nat len) @ u64_bytes 0 @ tide_uleb128_bytes 0 @ tide_digest_adapter32 contents"

lemma tide_uleb128_bytes_0: "tide_uleb128_bytes 0 = [0]"
  by (simp add: tide_uleb128_bytes.simps [of 0])

lemma length_footer_payload [simp]: "length (footer_payload_bytes len contents) = 49"
  by (simp add: footer_payload_bytes_def tide_uleb128_bytes_0 TIDE_DIGEST_SIZE_def)

lemma tide_check_footer_written:
  assumes "fr_crc_end f = len" and "byte_span data 0 (fr_offset f) = contents"
  shows "tide_check_footer data f (footer_payload_bytes len contents) = None"
proof -
  let ?r = "tide_reader_init (footer_payload_bytes len contents)"
  have rest: "rd_rest ?r = u64_bytes (of_nat len) @ u64_bytes 0 @ tide_uleb128_bytes 0 @ tide_digest_adapter32 contents @ []"
    by (simp add: footer_payload_bytes_def)
  note 1 = u64c.decode_step [OF rd_ok_init rest]
  note 2 = u64c.decode_step [OF 1(2,3)]
  note 3 = uleb128c.decode_step [OF 2(2,3)]
  note 4 = bytes_step [OF length_tide_digest_adapter32 3(2,3)]
  show ?thesis
    unfolding tide_check_footer_def 1(1) 2(1) 3(1) 4(1)
    using assms by (simp add: tide_uleb128_bytes_0 TIDE_DIGEST_SIZE_def)
qed

definition tide_file_body :: "tide_rational \<Rightarrow> bytes \<Rightarrow> mux_item list \<Rightarrow> bytes" where
  "tide_file_body tb uuid its = tide_header_bytes tb uuid @ written_items 0 its"

definition footer_record_size :: "u64 \<Rightarrow> nat" where
  "footer_record_size sq = align_up 3 (record_header_size 49 sq + 49) + 4"

definition footer_record_bytes :: "u64 \<Rightarrow> bytes \<Rightarrow> bytes" where
  "footer_record_bytes sq contents = tide_record_bytes TIDE_RECORD_FOOTER 0 3 sq
     (footer_payload_bytes (length contents + footer_record_size sq) contents)"

definition tide_file_bytes :: "tide_rational \<Rightarrow> bytes \<Rightarrow> bool \<Rightarrow> mux_item list \<Rightarrow> bytes" where
  "tide_file_bytes tb uuid footer its = tide_file_body tb uuid its @
     (if footer then footer_record_bytes (of_nat (length its)) (tide_file_body tb uuid its) else [])"

lemma length_footer_record: "length (footer_record_bytes sq contents) = footer_record_size sq"
  by (simp add: footer_record_bytes_def length_tide_record_bytes footer_record_size_def)

lemma parse_footer:
  assumes "payload_fits (di_limits s) 49" and "on_record (di_callbacks s) = None"
    and data: "data = contents @ footer_record_bytes sq contents" and "length data \<le> SIZE_MAX"
  shows "\<exists>s'. tide_parse_records alloc s data (length contents) (length data) depth = (TIDE_STATUS_OK, s') \<and>
    di_user s' = di_user s \<and> di_valid_prefix s' = of_nat (length data)"
proof -
  let ?p = "footer_payload_bytes (length contents + footer_record_size sq) contents"
  let ?f = "written_frame (length contents) TIDE_RECORD_FOOTER 0 3 sq ?p depth"
  have al: "(3 :: byte) \<le> 4" by simp
  have "payload_fits (di_limits s) (length ?p)" using assms(1) by simp
  note fits = payload_fits_limits [OF this al]
  have d: "data = contents @ tide_record_bytes TIDE_RECORD_FOOTER 0 3 sq ?p @ []" using data by (simp add: footer_record_bytes_def)
  have stop: "length contents + length (tide_record_bytes TIDE_RECORD_FOOTER 0 3 sq ?p) \<le> length data" by (simp add: d)
  note w = written_record_frame [OF al fits(3) d stop order_refl assms(4), of depth]
  have "fr_crc_end ?f = length contents + footer_record_size sq"
    using w(4) length_footer_record [of sq contents] by (simp add: footer_record_bytes_def)
  then have "tide_check_footer data ?f ?p = None"
    by (rule tide_check_footer_written) (simp add: byte_span_def d)
  then have "process_with alloc (\<lambda>s. tide_parse_records alloc s data) s data ?f = (TIDE_STATUS_OK, s)"
    using assms(2) w(3) by (simp add: process_with_def tide_notify_record_def not_skippable record_types_distinct
        tide_emit_simple_record_def tide_check_simple_record_def)
  from parse_written_record [OF al fits(3) d stop order_refl assms(4) fits(1,2) this]
  have "tide_parse_records alloc s data (length contents) (length data) depth =
      tide_parse_records alloc (s\<lparr>di_valid_prefix := of_nat (length data)\<rparr>) data (length data) (length data) depth"
    by (simp add: d)
  then show ?thesis
    by (simp add: tide_parse_records.simps [of alloc "s\<lparr>di_valid_prefix := of_nat (length data)\<rparr>"])
qed

text \<open>Parsing the header and the items of a file, with anything behind them.\<close>

lemma parse_file_items:
  assumes alloc: "\<And>m. alloc m" and tb: "tide_rational_is_valid tb" and uuid: "length uuid = 16" "uuid \<noteq> replicate 16 0"
    and lims: "64 * 1024 * 1024 \<le> max_record_size lims" and its: "items_ok lims [] its"
    and cb: "on_record cbs = None" and del: "deliver (stream_handler cbs) (packet_handler cbs) u its = Some u'"
    and data: "data = tide_file_body tb uuid its @ tail" "length data \<le> SIZE_MAX"
  defines "s \<equiv> (tide_decoder_fresh lims cbs u)\<lparr>di_error := tide_error_clear, di_valid_prefix := of_nat TIDE_HEADER_SIZE\<rparr>"
  shows "\<exists>s'. tide_parse_tide_bytes alloc (Some data) (length data) end (Some lims) (Some cbs) u e v =
      (case tide_parse_records alloc s' data (length (tide_file_body tb uuid its)) (length data) 0 of (status, t) \<Rightarrow>
        (if status = TIDE_STATUS_TRUNCATED \<and> end then TIDE_STATUS_PARTIAL else status, di_error t, di_valid_prefix t, di_user t)) \<and>
    same_config s s' \<and> di_user s' = u' \<and> di_valid_prefix s' = of_nat (length (tide_file_body tb uuid its))"
proof -
  let ?h = "tide_header_bytes tb uuid"
  have d: "data = ?h @ written_items 0 its @ tail" using data by (simp add: tide_file_body_def)
  have hdr: "tide_validate_header data lims tide_error_clear = (TIDE_STATUS_OK, tide_error_clear)"
    unfolding d by (rule tide_validate_header_written [OF tb uuid lims])
  have hl: "length ?h = TIDE_HEADER_SIZE" using uuid by simp
  have "\<exists>s'. tide_parse_records alloc s data (length ?h) (length data) 0 =
      tide_parse_records alloc s' data (length (?h @ written_items 0 its)) (length data) 0 \<and>
    same_config s s' \<and> di_user s' = u' \<and> di_valid_prefix s' = of_nat (length (?h @ written_items 0 its))"
    using its cb del data(2) hl
    by (intro parse_items [where ks = "[]" and post = tail] alloc)
       (simp_all add: s_def tide_decoder_fresh_def knows_def d)
  then obtain s' where s': "tide_parse_records alloc s data TIDE_HEADER_SIZE (length data) 0 =
      tide_parse_records alloc s' data (length (tide_file_body tb uuid its)) (length data) 0" "same_config s s'" "di_user s' = u'"
      "di_valid_prefix s' = of_nat (length (tide_file_body tb uuid its))"
    unfolding hl tide_file_body_def by blast
  have "tide_parse_tide_bytes alloc (Some data) (length data) end (Some lims) (Some cbs) u e v =
      (case tide_parse_records alloc s data TIDE_HEADER_SIZE (length data) 0 of (status, t) \<Rightarrow>
        (if status = TIDE_STATUS_TRUNCATED \<and> end then TIDE_STATUS_PARTIAL else status, di_error t, di_valid_prefix t, di_user t))"
    using hdr by (simp add: tide_parse_tide_bytes_def s_def tide_decoder_fresh_def split: prod.split)
  with s' show ?thesis by (intro exI [of _ s']) simp
qed

lemma tide_file_parses:
  assumes alloc: "\<And>m. alloc m" and tb: "tide_rational_is_valid tb" and uuid: "length uuid = 16" "uuid \<noteq> replicate 16 0"
    and lims: "64 * 1024 * 1024 \<le> max_record_size lims" "payload_fits lims 49" and its: "items_ok lims [] its"
    and cb: "on_record cbs = None" and del: "deliver (stream_handler cbs) (packet_handler cbs) u its = Some u'"
    and size: "length (tide_file_bytes tb uuid footer its) \<le> SIZE_MAX"
  defines "file \<equiv> tide_file_bytes tb uuid footer its"
  shows "\<exists>err. tide_parse_tide_bytes alloc (Some file) (length file) end (Some lims) (Some cbs) u e v =
    (TIDE_STATUS_OK, err, of_nat (length file), u')"
proof -
  let ?b = "tide_file_body tb uuid its"
  let ?s = "(tide_decoder_fresh lims cbs u)\<lparr>di_error := tide_error_clear, di_valid_prefix := of_nat TIDE_HEADER_SIZE\<rparr>"
  define tail where "tail = (if footer then footer_record_bytes (of_nat (length its)) ?b else [])"
  have fl: "file = ?b @ tail" by (simp add: file_def tide_file_bytes_def tail_def)
  have fsz: "length file \<le> SIZE_MAX" using size by (simp add: file_def)
  from parse_file_items [of alloc, OF alloc tb uuid lims(1) its cb del fl fsz] obtain s' where
    s': "tide_parse_tide_bytes alloc (Some file) (length file) end (Some lims) (Some cbs) u e v =
      (case tide_parse_records alloc s' file (length ?b) (length file) 0 of (status, t) \<Rightarrow>
        (if status = TIDE_STATUS_TRUNCATED \<and> end then TIDE_STATUS_PARTIAL else status, di_error t, di_valid_prefix t, di_user t))"
      "same_config ?s s'" "di_user s' = u'" "di_valid_prefix s' = of_nat (length ?b)" by blast
  have cfg: "di_limits s' = lims" "on_record (di_callbacks s') = None"
    using s'(2) cb by (simp_all add: same_config_def tide_decoder_fresh_def)
  have "\<exists>t. tide_parse_records alloc s' file (length ?b) (length file) 0 = (TIDE_STATUS_OK, t) \<and> di_user t = u' \<and>
      di_valid_prefix t = of_nat (length file)"
  proof (cases footer)
    case True
    then show ?thesis
      using parse_footer [of s' "file" ?b "of_nat (length its)" alloc 0] cfg lims(2) fsz s'(3) fl by (simp add: tail_def)
  next
    case False
    then have "file = ?b" using fl by (simp add: tail_def)
    then show ?thesis using s'(3,4) by (simp add: tide_parse_records.simps [of alloc s'])
  qed
  then show ?thesis using s'(1) by auto
qed

subsection \<open>Checksummed strings form a code\<close>

lemma le_word_u32: "le_word (tide_u32_bytes w) = w"
proof (rule bit_word_eqI)
  fix n assume "n < LENGTH(32)"
  then consider "n < 8" | "8 \<le> n" "n < 16" | "16 \<le> n" "n < 24" | "24 \<le> n" "n < 32" by fastforce
  then show "bit (le_word (tide_u32_bytes w)) n = bit w n"
    by cases (auto simp: tide_u32_bytes_def tide_bits bit_simps)
qed

lemma xor_not_self: "x XOR NOT x = (- 1 :: u32)"
  by (rule bit_word_eqI) (auto simp: bit_simps)

lemma tide_crc_residue:
  assumes "length tail = 4"
  shows "tide_crc_loop 0xffffffff (bs @ tail) = (tide_crc_bit ^^ 32) (- 1) \<longleftrightarrow> tail = tide_u32_bytes (tide_crc32c bs)"
proof -
  let ?s = "tide_crc_loop 0xffffffff bs"
  have w: "tide_crc_loop 0xffffffff (bs @ ys) = (tide_crc_bit ^^ 32) (?s XOR le_word ys)" if "length ys = 4" for ys
    using tide_crc_loop_word [of ys ?s] that by (simp add: tide_crc_loop_append)
  have "tide_crc_loop 0xffffffff (bs @ tide_u32_bytes (tide_crc32c bs)) = (tide_crc_bit ^^ 32) (- 1)"
    by (simp only: w length_tide_u32_bytes le_word_u32 tide_crc32c_def xor_not_self)
  moreover have "tail = tide_u32_bytes (tide_crc32c bs)"
    if "tide_crc_loop 0xffffffff (bs @ tail) = tide_crc_loop 0xffffffff (bs @ tide_u32_bytes (tide_crc32c bs))"
    using tide_crc_loop_burst [of tail "tide_u32_bytes (tide_crc32c bs)" ?s "[]"] that assms by (simp add: tide_crc_loop_append)
  ultimately show ?thesis by metis
qed

text \<open>Two checksummed strings that agree outside four consecutive bytes are equal.\<close>

lemma tide_crc_code_burst:
  assumes x: "x = bs @ tide_u32_bytes (tide_crc32c bs)" and y: "y = bs' @ tide_u32_bytes (tide_crc32c bs')"
    and len: "length x = length y" and agree: "take i x = take i y" "drop (i + 4) x = drop (i + 4) y"
  shows "x = y"
proof -
  have split: "d = take i d @ take 4 (drop i d) @ drop (i + 4) d" for d :: bytes
    by (metis append_take_drop_id drop_drop add.commute)
  have "tide_crc_loop 0xffffffff x = tide_crc_loop 0xffffffff y"
    using tide_crc_residue [of "tide_u32_bytes (tide_crc32c bs)" bs] tide_crc_residue [of "tide_u32_bytes (tide_crc32c bs')" bs'] x y by simp
  then have "tide_crc_loop (tide_crc_loop 0xffffffff (take i x)) (take 4 (drop i x) @ drop (i + 4) x) =
      tide_crc_loop (tide_crc_loop 0xffffffff (take i x)) (take 4 (drop i y) @ drop (i + 4) x)"
    using split [of x] split [of y] agree by (metis tide_crc_loop_append)
  then have "take 4 (drop i x) = take 4 (drop i y)"
    using len by (intro tide_crc_loop_burst) auto
  then show ?thesis using split [of x] split [of y] agree by metis
qed

lemma byte_span_split: "a \<le> b \<Longrightarrow> b \<le> c \<Longrightarrow> byte_span d a c = byte_span d a b @ byte_span d b c"
  using take_add [of "b - a" "c - b" "drop a d"] by (simp add: byte_span_def)

lemma xor_cancel_neq: "x XOR y = x \<longleftrightarrow> y = (0 :: 'a :: len word)"
  by (metis bit.conj_cancel_right xor.assoc xor.comm_neutral xor.left_neutral xor_self_eq)

lemma record_valid_integrity:
  assumes "record_valid data f"
  shows "fst (tide_validate_record_integrity data f e) = TIDE_STATUS_OK"
  using assms by (subst tide_validate_record_integrity_iff) (auto simp: record_valid_def)

lemma record_valid_code:
  assumes "record_valid data f"
  shows "byte_span data (fr_offset f) (fr_crc_end f) = byte_span data (fr_offset f) (fr_padding_end f) @
    tide_u32_bytes (tide_crc32c (byte_span data (fr_offset f) (fr_padding_end f)))"
proof -
  have "byte_span data (fr_offset f) (fr_crc_end f) = byte_span data (fr_offset f) (fr_padding_end f) @
      byte_span data (fr_padding_end f) (fr_crc_end f)"
    using assms by (intro byte_span_split) (auto simp: record_valid_def)
  then show ?thesis using assms unfolding record_valid_def by argo
qed

lemma record_valid_burst:
  assumes v: "record_valid data f" and v': "record_valid data' f'" and same: "fr_offset f' = fr_offset f" "fr_crc_end f' = fr_crc_end f"
    and "length data' = length data" and "fr_offset f \<le> i" and "i + 4 \<le> fr_crc_end f"
    and "take i data' = take i data" and "drop (i + 4) data' = drop (i + 4) data"
  shows "data' = data"
proof -
  let ?o = "fr_offset f" and ?e = "fr_crc_end f"
  have e: "?e \<le> length data" using v by (simp add: record_valid_def)
  have nth: "data' ! j = data ! j" if "j < i \<or> i + 4 \<le> j \<and> j < length data" for j
  proof (cases "j < i")
    case True
    then show ?thesis using assms(8) by (metis nth_take)
  next
    case False
    then show ?thesis using that assms(5) arg_cong [OF assms(9), of "\<lambda>l. l ! (j - (i + 4))"] by simp
  qed
  let ?x = "byte_span data' ?o ?e" and ?y = "byte_span data ?o ?e"
  have len: "length ?x = length ?y" using assms(5) by simp
  have "take (i - ?o) ?x = take (i - ?o) ?y"
    using assms(5-7) e by (intro nth_equalityI) (auto simp: byte_span_def intro!: nth)
  moreover have "drop (i - ?o + 4) ?x = drop (i - ?o + 4) ?y"
    using assms(5-7) e by (intro nth_equalityI) (auto simp: byte_span_def nth)
  ultimately have eq: "?x = ?y"
    by (rule tide_crc_code_burst [OF record_valid_code [OF v', unfolded same] record_valid_code [OF v] len])
  show "data' = data"
  proof (rule nth_equalityI)
    fix j assume j: "j < length data'"
    show "data' ! j = data ! j"
    proof (cases "i \<le> j \<and> j < i + 4")
      case True
      then have "?x ! (j - ?o) = ?y ! (j - ?o)" "j - ?o < ?e - ?o" "?o \<le> j" using eq assms(6,7) by auto
      then show ?thesis using j assms(5) by (simp add: byte_span_def)
    next
      case False
      then show ?thesis using nth [of j] j assms(5) by auto
    qed
  qed (use assms(5) in simp)
qed

text \<open>Framing reads no byte behind the prefix.\<close>

lemma tide_decode_record_prefix_agree:
  assumes dec: "tide_decode_record_prefix data stop offset depth e = Inr f" and "stop \<le> SIZE_MAX"
    and len: "length data' = length data" and same: "take (fr_payload_offset f) data' = take (fr_payload_offset f) data"
  shows "tide_decode_record_prefix data' stop offset depth e' = Inr f"
proof -
  let ?r = "tide_reader_init (byte_span data offset stop)" and ?r' = "tide_reader_init (byte_span data' offset stop)"
  from dec obtain x r where read: "tide_read_prefix ?r = Some (x, r)" and hs: "unat (fr_header_size f) = rd_offset r"
    by (auto simp: tide_decode_record_prefix_def split: if_splits option.splits)
  from prefix_fields.reads_prefix [OF rd_ok_init read] obtain n where n: "n \<le> length (byte_span data offset stop)" "r = rd_advance n ?r"
    and again: "\<And>q ys. rd_ok q \<Longrightarrow> rd_rest q = take n (byte_span data offset stop) @ ys \<Longrightarrow> tide_read_prefix q = Some (x, rd_advance n q)"
    by auto
  have po: "fr_payload_offset f = offset + n"
    using tide_decode_record_prefix_frame(4) [OF dec assms(2)] hs n(2) by simp
  have "take n (drop offset data') = take n (drop offset data)"
    using arg_cong [OF same, of "drop offset"] by (simp add: po drop_take)
  then have "take n (byte_span data' offset stop) = take n (byte_span data offset stop)"
    using n(1) by (simp add: byte_span_def min_def split: if_splits)
  then have "tide_read_prefix ?r' = Some (x, rd_advance n ?r')"
    using append_take_drop_id [of n "byte_span data' offset stop"] by (intro again [of _ "drop n (byte_span data' offset stop)"]) auto
  then show ?thesis
    using dec read n(2) by (cases x) (auto simp: tide_decode_record_prefix_def split: if_splits option.splits)
qed

lemma tide_validate_record_integrity_status:
  "fst (tide_validate_record_integrity data f e) \<in> {TIDE_STATUS_OK, TIDE_STATUS_FORMAT, TIDE_STATUS_INTEGRITY}"
  by (auto simp: tide_validate_record_integrity_def Let_def split: option.split)

text \<open>C5: let a record be framed and pass the integrity check, and let an error burst of up to four consecutive bytes hit it
  anywhere. The decoder, which frames the damaged bytes anew, accepts no record of the same extent in its place; so a burst
  in the prefix gets through at most by changing the length of the record. A burst behind the prefix (payload, padding or
  stored CRC) is always detected: unless the record is refused for its size anyway, the parse stops at it with FORMAT or
  INTEGRITY, and no callback runs.\<close>

theorem record_burst_detected:
  assumes "tide_decode_record_prefix data stop offset depth e = Inr f" and "stop \<le> SIZE_MAX" and "stop \<le> length data"
    and "fst (tide_validate_record_integrity data f e) = TIDE_STATUS_OK"
    and "length data' = length data" and "data' \<noteq> data" and "offset \<le> i" and "i + 4 \<le> fr_crc_end f"
    and "take i data' = take i data" and "drop (i + 4) data' = drop (i + 4) data"
  shows "(\<forall>f'. tide_decode_record_prefix data' stop offset depth e' = Inr f' \<and> fr_crc_end f' = fr_crc_end f \<longrightarrow>
       fst (tide_validate_record_integrity data' f' e') \<noteq> TIDE_STATUS_OK) \<and>
     (fr_payload_offset f \<le> i \<and> record_within (di_limits s) f \<longrightarrow>
       (\<exists>status err. status \<in> {TIDE_STATUS_FORMAT, TIDE_STATUS_INTEGRITY} \<and>
          tide_parse_records alloc s data' offset stop depth = (status, s\<lparr>di_error := err\<rparr>)))"
proof -
  have v: "record_valid data f" by (rule tide_decode_record_prefix_valid [OF assms(1-4)])
  have o: "fr_offset f = offset" using tide_decode_record_prefix_frame(1) [OF assms(1,2)] .
  have stop': "stop \<le> length data'" using assms(3,5) by simp
  have refused: "fst (tide_validate_record_integrity data' f' e'') \<noteq> TIDE_STATUS_OK"
    if "tide_decode_record_prefix data' stop offset depth e3 = Inr f'" and "fr_crc_end f' = fr_crc_end f" for f' e'' e3
  proof
    assume "fst (tide_validate_record_integrity data' f' e'') = TIDE_STATUS_OK"
    then have v': "record_valid data' f'" using tide_decode_record_prefix_valid [OF that(1) assms(2) stop'] by blast
    have "data' = data"
      using assms(5-10) o that(2) tide_decode_record_prefix_frame(1) [OF that(1) assms(2)] by (intro record_valid_burst [OF v v']) simp_all
    with assms(6) show False ..
  qed
  have "\<exists>status err. status \<in> {TIDE_STATUS_FORMAT, TIDE_STATUS_INTEGRITY} \<and>
      tide_parse_records alloc s data' offset stop depth = (status, s\<lparr>di_error := err\<rparr>)"
    if i: "fr_payload_offset f \<le> i" and within: "record_within (di_limits s) f"
  proof -
    have "take (fr_payload_offset f) data' = take (fr_payload_offset f) data"
      using arg_cong [OF assms(9), of "take (fr_payload_offset f)"] i by (simp add: min_def)
    then have dec: "tide_decode_record_prefix data' stop offset depth (di_error s) = Inr f"
      by (rule tide_decode_record_prefix_agree [OF assms(1,2,5)])
    obtain status err where int: "tide_validate_record_integrity data' f (di_error s) = (status, err)" by fastforce
    have "status \<in> {TIDE_STATUS_FORMAT, TIDE_STATUS_INTEGRITY}"
      using refused [OF dec refl, of "di_error s"] tide_validate_record_integrity_status [of data' f "di_error s"] int by auto
    moreover have "offset < stop" using tide_decode_record_prefix_order(6) [OF assms(1,2)] .
    ultimately show ?thesis
      using int dec within assms(2) o
      by (auto simp: tide_parse_records.simps [of alloc s data' offset stop depth] record_within_def not_less [symmetric])
  qed
  with refused show ?thesis by blast
qed

theorem record_burst_detected_witness:
  "let data = tide_record_bytes 0x8001 0 3 7 [1, 2, 3]; data' = data[12 := data ! 12 XOR 5];
       s = tide_decoder_fresh tide_limits_default no_callbacks ()
   in \<exists>status err. status \<in> {TIDE_STATUS_FORMAT, TIDE_STATUS_INTEGRITY} \<and>
        tide_parse_records (\<lambda>_. True) s data' 0 20 0 = (status, s\<lparr>di_error := err\<rparr>)"
proof -
  let ?p = "[1, 2, 3] :: bytes" and ?s = "tide_decoder_fresh tide_limits_default no_callbacks ()"
  let ?data = "tide_record_bytes 0x8001 0 3 7 ?p" and ?f = "written_frame 0 0x8001 0 3 7 [1, 2, 3] 0"
  have len: "length ?data = 20" 
    by (simp add: length_tide_record_bytes record_header_size_def align_up_def tide_uleb128_size.simps [of 3] tide_uleb128_size.simps [of 7])
  have w: "tide_decode_record_prefix ?data 20 0 0 tide_error_clear = Inr ?f" "record_valid ?data ?f" "fr_crc_end ?f = 20"
    using written_record_frame [where al = 3 and payload = ?p and data = ?data and pre = "[]" and type = "0x8001" and flags = 0 and sq = 7 and post = "[]" and stop = 20 and depth = 0] len by (simp_all add: SIZE_MAX_def)
  have ok: "fst (tide_validate_record_integrity ?data ?f tide_error_clear) = TIDE_STATUS_OK"
    by (rule record_valid_integrity [OF w(2)])
  have lt: "12 < length ?data" using len by simp
  have ne: "?data[12 := ?data ! 12 XOR 5] \<noteq> ?data"
  proof
    assume "?data[12 := ?data ! 12 XOR 5] = ?data"
    then have "?data ! 12 XOR 5 = ?data ! 12" using len by (metis (no_types) nth_list_update_eq lt)
    then show False by (simp add: xor_cancel_neq)
  qed
  have "fr_payload_offset ?f \<le> 12" "record_within (di_limits ?s) ?f"
    using w(3) by (simp_all add: record_within_def tide_decoder_fresh_def tide_limits_default_def written_frame_def Let_def
      record_header_size_def tide_uleb128_size.simps [of 3] tide_uleb128_size.simps [of 7])
  then show ?thesis unfolding Let_def
    by (intro record_burst_detected [OF w(1) _ _ ok _ ne, of 12, THEN conjunct2, rule_format]) (simp_all add: len w(3) SIZE_MAX_def)
qed

subsection \<open>Properties\<close>

lemma tide_parse_tide_bytes_cases:
  fixes limits :: "tide_limits option" and callbacks :: "'u tide_callbacks option"
  assumes "n \<le> length d" and "n \<le> SIZE_MAX"
  defines "lims \<equiv> (case limits of None \<Rightarrow> tide_limits_default | Some l \<Rightarrow> l)"
    and "cbs \<equiv> (case callbacks of None \<Rightarrow> no_callbacks | Some c \<Rightarrow> c)"
  obtains (header) status e' where "tide_parse_tide_bytes alloc (Some d) n at_end limits callbacks user e v = (status, e', 0, user)"
      and "status \<noteq> TIDE_STATUS_OK"
  | (records) s status s' where "s = (tide_decoder_fresh lims cbs user)\<lparr>di_error := di_error s, di_valid_prefix := of_nat TIDE_HEADER_SIZE\<rparr>"
      and "TIDE_HEADER_SIZE \<le> n" and "tide_parse_records alloc s (take n d) TIDE_HEADER_SIZE n 0 = (status, s')"
      and "tide_parse_tide_bytes alloc (Some d) n at_end limits callbacks user e v =
        ((if status = TIDE_STATUS_TRUNCATED \<and> at_end then TIDE_STATUS_PARTIAL else status), di_error s', di_valid_prefix s', di_user s')"
proof -
  obtain status e' where h: "tide_validate_header (take n d) lims tide_error_clear = (status, e')" by fastforce
  have e: "di_error (tide_decoder_fresh lims cbs user) = tide_error_clear" by (simp add: tide_decoder_fresh_def)
  show thesis
  proof (cases "status = TIDE_STATUS_OK")
    case False
    then show thesis
      using h e by (intro header [of "if status = TIDE_STATUS_TRUNCATED \<and> at_end then TIDE_STATUS_PARTIAL else status" e'])
        (simp_all add: tide_parse_tide_bytes_def lims_def [symmetric] cbs_def [symmetric])
  next
    case True
    then have n: "TIDE_HEADER_SIZE \<le> n" using h assms(1) by (auto simp: tide_validate_header_def split: if_splits)
    let ?s = "(tide_decoder_fresh lims cbs user)\<lparr>di_error := e', di_valid_prefix := of_nat TIDE_HEADER_SIZE\<rparr>"
    obtain st s' where p: "tide_parse_records alloc ?s (take n d) TIDE_HEADER_SIZE n 0 = (st, s')" by fastforce
    show thesis
      using True h e p n by (intro records [of ?s st s'])
        (simp_all add: tide_parse_tide_bytes_def lims_def [symmetric] cbs_def [symmetric])
  qed
qed



text \<open>A file with one skippable record, for the witnesses.\<close>

definition skip_file :: bytes where
  "skip_file = tide_header_bytes \<lparr>numerator = 1, denominator = 1000\<rparr> (replicate 16 1) @ tide_record_bytes 0x8001 0 3 7 [1, 2, 3]"

definition skip_frame :: tide_record_frame where
  "skip_frame = written_frame TIDE_HEADER_SIZE 0x8001 0 3 7 [1, 2, 3] 0"

lemma length_skip_record: "length (tide_record_bytes 0x8001 0 3 7 [1, 2, 3]) = 20"
  by (simp add: length_tide_record_bytes record_header_size_def align_up_def tide_uleb128_size.simps [of 3] tide_uleb128_size.simps [of 7])

lemma length_skip_file: "length skip_file = 92"
  by (simp add: skip_file_def length_skip_record TIDE_HEADER_SIZE_def)

lemma parse_skip_file:
  "\<exists>err. tide_parse_tide_bytes alloc (Some skip_file) 92 True None (Some (logged no_callbacks)) ([], u) e v =
     (TIDE_STATUS_OK, err, 92, [Emit_Record (tide_event skip_frame)], u)"
proof -
  let ?tb = "\<lparr>numerator = 1, denominator = 1000\<rparr>" and ?id = "replicate 16 1 :: bytes"
  let ?h = "tide_header_bytes ?tb ?id"
  let ?s = "(tide_decoder_fresh tide_limits_default (logged no_callbacks) ([], u))\<lparr>di_error := tide_error_clear, di_valid_prefix := of_nat TIDE_HEADER_SIZE\<rparr>"
  let ?s1 = "?s\<lparr>di_user := ([Emit_Record (tide_event skip_frame)], u)\<rparr>"
  have id: "?id \<noteq> replicate 16 0" by simp
  have hdr: "tide_validate_header skip_file tide_limits_default tide_error_clear = (TIDE_STATUS_OK, tide_error_clear)"
    unfolding skip_file_def by (rule tide_validate_header_written [OF _ _ id]) (simp_all add: tide_rational_is_valid_def tide_gcd_u64.simps tide_limits_default_def)
  have hl: "length ?h = TIDE_HEADER_SIZE" by simp
  have fl: "skip_file = ?h @ tide_record_bytes 0x8001 0 3 7 [1, 2, 3] @ []" by (simp add: skip_file_def)
  have proc: "process_with alloc (\<lambda>s. tide_parse_records alloc s skip_file) ?s skip_file (written_frame (length ?h) 0x8001 0 3 7 [1, 2, 3] 0) = (TIDE_STATUS_OK, ?s1)"
    unfolding hl skip_frame_def [symmetric]
    by (simp add: process_with_def tide_notify_record_def tide_decoder_fresh_def logged_def no_callbacks_def)
       (simp add: skip_frame_def TIDE_RECORD_SKIPPABLE_BIT_def)
  have "tide_parse_records alloc ?s skip_file (length ?h) 92 0 =
      tide_parse_records alloc (?s1\<lparr>di_valid_prefix := of_nat (length (?h @ tide_record_bytes 0x8001 0 3 7 [1, 2, 3]))\<rparr>) skip_file
        (length (?h @ tide_record_bytes 0x8001 0 3 7 [1, 2, 3])) 92 0"
    by (rule parse_written_record [OF _ _ fl _ _ _ _ _ proc])
       (simp_all add: length_skip_record length_skip_file TIDE_HEADER_SIZE_def SIZE_MAX_def tide_decoder_fresh_def tide_limits_default_def)
  also have "\<dots> = (TIDE_STATUS_OK, ?s1\<lparr>di_valid_prefix := 92\<rparr>)"
    by (subst tide_parse_records.simps) (simp add: length_skip_record TIDE_HEADER_SIZE_def)
  finally have "tide_parse_records alloc ?s skip_file TIDE_HEADER_SIZE 92 0 = (TIDE_STATUS_OK, ?s1\<lparr>di_valid_prefix := 92\<rparr>)"
    by simp
  then show ?thesis
    using hdr length_skip_file by (simp add: tide_parse_tide_bytes_def tide_decoder_fresh_def)
qed


lemma parse_prefix_bounds:
  assumes "n \<le> length d" and "n \<le> SIZE_MAX"
    and "tide_parse_tide_bytes alloc (Some d) n end limits callbacks u e v = (status, e', v', u')"
  shows "unat v' \<le> n \<and> (v' = 0 \<or> TIDE_HEADER_SIZE \<le> unat v') \<and> (status = TIDE_STATUS_OK \<longrightarrow> unat v' = n)"
  using assms(1,2)
proof (cases rule: tide_parse_tide_bytes_cases [where alloc = alloc and at_end = "end" and limits = limits and callbacks = callbacks
    and user = u and e = e and v = v])
  case header
  then show ?thesis using assms(3) by simp
next
  case (records s st s')
  have v: "di_valid_prefix s = of_nat TIDE_HEADER_SIZE" by (subst records(1)) simp
  have "prefix_within TIDE_HEADER_SIZE n (of_nat TIDE_HEADER_SIZE) (di_valid_prefix s')"
    using tide_parse_records_prefix [of n TIDE_HEADER_SIZE "take n d" s alloc 0] assms(1,2) records(2,3) v by simp
  then obtain k where k: "TIDE_HEADER_SIZE \<le> k" "k \<le> n" "di_valid_prefix s' = of_nat k"
    using records(2) by (auto simp: prefix_within_def)
  have "status = TIDE_STATUS_OK \<Longrightarrow> di_valid_prefix s' = of_nat n"
    using tide_parse_records_OK_prefix [of n TIDE_HEADER_SIZE "take n d" alloc s 0 s'] assms records(2,3,4) v
    by (auto split: if_splits)
  moreover have "v' = di_valid_prefix s'" using assms(3) records(4) by simp
  moreover have "unat (of_nat k :: u64) = k" using k(2) assms(2) by simp
  ultimately show ?thesis using k assms(2) by auto
qed

text \<open>C30: a parse of a byte string reports a valid prefix that lies inside the string: nothing for a string whose header
  is rejected, otherwise at least the header, and exactly the whole string when the parse succeeds.\<close>

theorem tide_parse_tide_bytes_prefix:
  assumes "n \<le> length d" and "n \<le> SIZE_MAX"
    and "tide_parse_tide_bytes alloc (Some d) n end limits callbacks u e v = (status, e', v', u')"
  shows "unat v' \<le> n \<and> (v' = 0 \<or> TIDE_HEADER_SIZE \<le> unat v') \<and> (status = TIDE_STATUS_OK \<longrightarrow> unat v' = n)"
  by (rule parse_prefix_bounds [OF assms])

theorem tide_parse_tide_bytes_prefix_witness:
  "\<exists>err u'. tide_parse_tide_bytes (\<lambda>_. True) (Some skip_file) 92 True None (Some (logged no_callbacks)) ([], ()) tide_error_clear 0 =
     (TIDE_STATUS_OK, err, 92, u') \<and> unat (92 :: u64) = length skip_file"
proof -
  obtain err where p: "tide_parse_tide_bytes (\<lambda>_. True) (Some skip_file) 92 True None (Some (logged no_callbacks)) ([], ()) tide_error_clear 0 =
      (TIDE_STATUS_OK, err, 92, [Emit_Record (tide_event skip_frame)], ())"
    using parse_skip_file [of _ "()"] by blast
  from tide_parse_tide_bytes_prefix [OF _ _ p] show ?thesis
    using p by (simp add: length_skip_file SIZE_MAX_def)
qed

text \<open>Any parse of a range of records, at any nesting depth, keeps the track table sound: no track and generation is
  registered twice, every registered time base is valid, and the table stays within its capacity and the track limit.\<close>

theorem tide_parse_records_tracks:
  assumes "stop \<le> SIZE_MAX" and "cursor \<le> stop" and "stop \<le> length data" and "tracks_ok s"
  shows "tracks_ok (snd (tide_parse_records alloc s data cursor stop depth))"
  using assms by (intro tracks.parse_kept)

theorem tide_parse_records_tracks_witness:
  "tracks_ok (snd (tide_parse_records (\<lambda>_. True) (tide_decoder_fresh tide_limits_default no_callbacks ()) skip_file TIDE_HEADER_SIZE 92 0))"
  by (rule tide_parse_records_tracks)
     (simp_all add: SIZE_MAX_def TIDE_HEADER_SIZE_def length_skip_file tracks_ok_def tide_decoder_fresh_def)

lemma appended_data: "appended alloc b bs (TIDE_STATUS_OK, out) \<Longrightarrow> buf_data out = buf_data b @ bs"
  by (auto simp: appended_def)

text \<open>C26: a record that \<open>tide_write_record\<close> appended to a buffer is read back by the decoder: the prefix decoder frames
  it with the same type, flags, alignment and sequence, the frame ends exactly where the buffer ends, the integrity
  check passes and the payload is the one given.\<close>

theorem tide_write_record_roundtrip:
  assumes "tide_write_record alloc out type flags al sq (Some d) (length d) = (TIDE_STATUS_OK, out')"
    and "length d < 2 ^ 62" and "buf_size out' \<le> SIZE_MAX"
  shows "\<exists>f. tide_decode_record_prefix (buf_data out') (buf_size out') (buf_size out) depth e = Inr f \<and>
    fst (tide_validate_record_integrity (buf_data out') f e) = TIDE_STATUS_OK \<and>
    fr_type f = type \<and> fr_flags f = flags \<and> fr_alignment_log2 f = al \<and> fr_sequence f = sq \<and> fr_depth f = depth \<and>
    fr_payload (buf_data out') f = d \<and> fr_crc_end f = buf_size out' \<and> take (buf_size out) (buf_data out') = buf_data out"
proof -
  have al: "al \<le> 4" using assms(1) by (auto simp: tide_write_record_def split: if_splits)
  let ?f = "written_frame (buf_size out) type flags al sq d depth"
  have b: "buf_data out' = buf_data out @ tide_record_bytes type flags al sq d @ []"
    using appended_data [OF tide_write_record_appended [OF al assms(2), of alloc out type flags sq, unfolded assms(1)]] by simp
  then have "buf_size out + length (tide_record_bytes type flags al sq d) \<le> buf_size out'" by simp
  note w = written_record_frame [OF al assms(2) b this order_refl assms(3), of depth]
  show ?thesis
    using w record_valid_integrity [OF w(2)] b by (intro exI [of _ ?f]) (simp_all add: written_frame_def Let_def)
qed

theorem tide_write_record_roundtrip_witness:
  "\<exists>out f. tide_write_record (\<lambda>_. True) \<lparr>buf_data = [9], buf_capacity = 1, buf_limit = 0\<rparr> 0x8001 0 3 7 (Some [1, 2, 3]) 3 = (TIDE_STATUS_OK, out) \<and>
     tide_decode_record_prefix (buf_data out) (buf_size out) 1 0 tide_error_clear = Inr f \<and> fr_payload (buf_data out) f = [1, 2, 3]"
proof -
  let ?b = "\<lparr>buf_data = [9], buf_capacity = 1, buf_limit = 0\<rparr>" and ?d = "[1, 2, 3] :: bytes"
  have "appended (\<lambda>_. True) ?b (tide_record_bytes 0x8001 0 3 7 ?d) (tide_write_record (\<lambda>_. True) ?b 0x8001 0 3 7 (Some ?d) (length ?d))"
    by (rule tide_write_record_appended) simp_all
  then obtain out where w: "tide_write_record (\<lambda>_. True) ?b 0x8001 0 3 7 (Some ?d) (length ?d) = (TIDE_STATUS_OK, out)" "buf_size out = 21"
  proof (cases rule: appendedE)
    case (ok c)
    then show thesis by (intro that [OF ok(1)]) (simp add: length_skip_record)
  next
    case fail
    then show thesis by (simp add: tide_buffer_fits_def length_skip_record SIZE_MAX_def)
  qed
  have "length ?d < 2 ^ 62" "buf_size out \<le> SIZE_MAX" using w(2) by (simp_all add: SIZE_MAX_def)
  from tide_write_record_roundtrip [OF w(1) this, of 0 tide_error_clear] w
  show ?thesis by (intro exI [of _ out]) (auto simp: numeral_3_eq_3)
qed

text \<open>C27: the payload of a stream descriptor is read back as the stream it was encoded from, to its last byte.\<close>

theorem tide_encode_stream_payload_roundtrip:
  assumes "tide_encode_stream_payload alloc \<lparr>buf_data = [], buf_capacity = 0, buf_limit = l\<rparr> (Some si) = (TIDE_STATUS_OK, out)"
    and "view_ok (si_config si) (si_config_size si)"
  shows "\<exists>r. tide_read_stream (tide_reader_init (buf_data out)) =
      Some (si\<lparr>si_config := Some (view_bytes (si_config si) (si_config_size si))\<rparr>, r) \<and> rd_offset r = buf_size out"
proof -
  have "tide_rational_is_valid (si_time_base si)" using assms(1) by (auto simp: tide_encode_stream_payload_def split: if_splits)
  from appended_data [OF tide_encode_stream_payload_appended [OF this assms(2), of alloc "\<lparr>buf_data = [], buf_capacity = 0, buf_limit = l\<rparr>",
      unfolded assms(1)]]
  have b: "buf_data out = stream_payload_bytes si" by simp
  show ?thesis
    using tide_read_stream_decodes [OF assms(2) rd_ok_init, of "stream_payload_bytes si" "[]"] b by simp
qed

text \<open>C28: the payload of a packet record is read back as the packet it was encoded from, to its last byte.\<close>

theorem tide_encode_packet_payload_roundtrip:
  assumes "tide_encode_packet_payload alloc \<lparr>buf_data = [], buf_capacity = 0, buf_limit = l\<rparr> (Some p) = (TIDE_STATUS_OK, out)"
    and "view_ok (pv_data (pk_payload p)) (pv_size (pk_payload p))"
  shows "\<exists>r. tide_read_packet (tide_reader_init (buf_data out)) =
      Some (p\<lparr>pk_payload := \<lparr>pv_data = Some (view_bytes (pv_data (pk_payload p)) (pv_size (pk_payload p))),
        pv_size = pv_size (pk_payload p), pv_lease = None\<rparr>\<rparr>, r) \<and> rd_offset r = buf_size out"
proof -
  have "0 \<le> sint (pk_duration p)" 
  proof (rule ccontr)
    assume "\<not> 0 \<le> sint (pk_duration p)"
    then show False using assms(1) by (simp add: tide_encode_packet_payload_def not_le)
  qed
  from appended_data [OF tide_encode_packet_payload_appended [OF this assms(2), of alloc "\<lparr>buf_data = [], buf_capacity = 0, buf_limit = l\<rparr>",
      unfolded assms(1)]]
  have b: "buf_data out = packet_payload_bytes p" by simp
  show ?thesis
    using tide_read_packet_decodes [OF assms(2) rd_ok_init, of "packet_payload_bytes p" "[]"] b by simp
qed

text \<open>C29: from a header that \<open>tide_write_header\<close> wrote, whatever follows it, the reader reads back the version, the uuid and
  the movie time base, and it accepts the header exactly when its own limit for a record is at least 64 MiB, the record
  size that the writer announces in every header; with a smaller limit it reports RESOURCE at the hint field.\<close>

theorem tide_write_header_roundtrip:
  assumes "tide_write_header alloc \<lparr>buf_data = [], buf_capacity = 0, buf_limit = l\<rparr> tb (Some uuid) = (TIDE_STATUS_OK, out)"
    and "length uuid = 16"
  shows "(\<exists>crc q. tide_read_header (tide_reader_init (byte_span (buf_data out @ ys) 8 TIDE_HEADER_SIZE)) =
       Some ((1, 0, uuid, tb, 0, 0, 64 * 1024 * 1024, 0, crc), q)) \<and>
     tide_validate_header (buf_data out @ ys) limits e =
       (if max_record_size limits < 64 * 1024 * 1024
        then (TIDE_STATUS_RESOURCE, tide_set_parse_error TIDE_STATUS_RESOURCE 52 0 0 ''record hint exceeds policy'')
        else (TIDE_STATUS_OK, e))"
proof -
  have v: "tide_rational_is_valid tb" "uuid \<noteq> replicate 16 0"
    using assms(1,2) by (auto simp: tide_write_header_def TIDE_UUID_SIZE_def split: if_splits)
  from appended_data [OF tide_write_header_appended [OF v(1) assms(2) v(2), of alloc "\<lparr>buf_data = [], buf_capacity = 0, buf_limit = l\<rparr>",
      unfolded assms(1)]]
  have b: "buf_data out = tide_header_bytes tb uuid" by simp
  show ?thesis
    unfolding b using tide_read_header_written [OF assms(2), of tb ys] tide_validate_header_written_eq [OF v(1) assms(2) v(2)] by blast
qed


definition no_buffer :: tide_buffer where
  "no_buffer = \<lparr>buf_data = [], buf_capacity = 0, buf_limit = 0\<rparr>"

lemma appended_no_buffer:
  assumes "appended alloc no_buffer bs r" and "\<And>m. alloc m" and "length bs \<le> SIZE_MAX"
  shows "\<exists>out. r = (TIDE_STATUS_OK, out) \<and> buf_data out = bs"
  using assms(1) by (cases rule: appendedE) (use assms(2,3) in \<open>auto simp: tide_buffer_fits_def no_buffer_def\<close>)

definition sample_stream :: tide_stream_info where
  "sample_stream = \<lparr>si_track_id = 1, si_generation = 2, si_media_kind = 3, si_codec_tag = 4,
     si_time_base = \<lparr>numerator = 1, denominator = 48000\<rparr>, si_config = Some [1, 2], si_config_size = 2\<rparr>"

definition sample_packet :: tide_packet_info where
  "sample_packet = \<lparr>pk_track_id = 1, pk_generation = 2, pk_packet_seq = 0, pk_dts = 0, pk_pts = - 5, pk_duration = 9, pk_flags = 1,
     pk_payload = \<lparr>pv_data = Some [7, 8, 9], pv_size = 3, pv_lease = None\<rparr>\<rparr>"

lemma sample_valid:
  "tide_rational_is_valid (si_time_base sample_stream)" "view_ok (si_config sample_stream) (si_config_size sample_stream)"
  "0 \<le> sint (pk_duration sample_packet)" "view_ok (pv_data (pk_payload sample_packet)) (pv_size (pk_payload sample_packet))"
  by (simp_all add: sample_stream_def sample_packet_def tide_rational_is_valid_def tide_gcd_u64.simps view_ok_def)

lemma length_sample_payloads: "length (stream_payload_bytes sample_stream) = 27" "length (packet_payload_bytes sample_packet) = 48"
  by (simp_all add: stream_payload_bytes_def packet_payload_bytes_def sample_stream_def sample_packet_def tide_uleb128_bytes.simps)

theorem tide_encode_stream_payload_roundtrip_witness:
  "\<exists>out r. tide_encode_stream_payload (\<lambda>_. True) no_buffer (Some sample_stream) = (TIDE_STATUS_OK, out) \<and>
     tide_read_stream (tide_reader_init (buf_data out)) = Some (sample_stream, r) \<and> rd_offset r = 27"
proof -
  obtain out where o: "tide_encode_stream_payload (\<lambda>_. True) no_buffer (Some sample_stream) = (TIDE_STATUS_OK, out)"
      "buf_data out = stream_payload_bytes sample_stream"
    using appended_no_buffer [OF tide_encode_stream_payload_appended [OF sample_valid(1,2), of "\<lambda>_. True"]] length_sample_payloads by (auto simp: SIZE_MAX_def)
  from tide_encode_stream_payload_roundtrip [OF o(1) [unfolded no_buffer_def] sample_valid(2)] o length_sample_payloads
  show ?thesis by (auto simp: sample_stream_def view_bytes_def)
qed

theorem tide_encode_packet_payload_roundtrip_witness:
  "\<exists>out r. tide_encode_packet_payload (\<lambda>_. True) no_buffer (Some sample_packet) = (TIDE_STATUS_OK, out) \<and>
     tide_read_packet (tide_reader_init (buf_data out)) = Some (sample_packet, r) \<and> rd_offset r = 48"
proof -
  obtain out where o: "tide_encode_packet_payload (\<lambda>_. True) no_buffer (Some sample_packet) = (TIDE_STATUS_OK, out)"
      "buf_data out = packet_payload_bytes sample_packet"
    using appended_no_buffer [OF tide_encode_packet_payload_appended [OF sample_valid(3,4), of "\<lambda>_. True"]] length_sample_payloads by (auto simp: SIZE_MAX_def)
  from tide_encode_packet_payload_roundtrip [OF o(1) [unfolded no_buffer_def] sample_valid(4)] o length_sample_payloads
  show ?thesis by (auto simp: sample_packet_def view_bytes_def)
qed

theorem tide_write_header_roundtrip_witness:
  "\<exists>out. tide_write_header (\<lambda>_. True) no_buffer (si_time_base sample_stream) (Some (replicate 16 1)) = (TIDE_STATUS_OK, out) \<and>
     tide_validate_header (buf_data out @ [1, 2, 3]) tide_limits_default tide_error_clear = (TIDE_STATUS_OK, tide_error_clear)"
proof -
  have u: "length (replicate 16 (1 :: byte)) = 16" "replicate 16 (1 :: byte) \<noteq> replicate 16 0" by simp_all
  obtain out where o: "tide_write_header (\<lambda>_. True) no_buffer (si_time_base sample_stream) (Some (replicate 16 1)) = (TIDE_STATUS_OK, out)"
    using appended_no_buffer [OF tide_write_header_appended [OF sample_valid(1) u, of "\<lambda>_. True"]] u(1) by (auto simp: SIZE_MAX_def TIDE_HEADER_SIZE_def)
  from tide_write_header_roundtrip [OF o [unfolded no_buffer_def] u(1), of "[1, 2, 3]" tide_limits_default tide_error_clear] o
  show ?thesis by (auto simp: tide_limits_default_def)
qed

end
