(* ===== verification/Tide_Source.thy ===== *)
theory Tide_Source
  imports Tide_Model
begin

text \<open>
  Sources (\<open>src/source/memory_source.c\<close>, \<open>src/source/source.c\<close>) and the part of the C library's file
  interface that the program uses.

  \<open>tide_os\<close> is the state of the host: the contents of the files by path, and what the next library calls will do:
  which paths can be opened for writing, whether seeking, telling and closing succeed, and how many bytes
  \<open>fread\<close> and \<open>fwrite\<close> move before they stop short. A stream opened for writing is the path it writes to;
  opening it truncates the file, and written bytes go to its end. A pointer that a function stores a new
  object through is an optional location: \<open>None\<close> is the null pointer, \<open>Some v\<close> a location that holds \<open>v\<close>.
\<close>

subsection \<open>The host's files\<close>

record tide_os =
  os_files :: "string \<rightharpoonup> bytes"
  os_writable :: "string \<Rightarrow> bool"
  os_seek_ok :: bool
  os_tell_ok :: bool
  os_read_max :: nat
  os_write_max :: nat
  os_close_ok :: bool

definition os_fopen_wb :: "tide_os \<Rightarrow> string \<Rightarrow> string option \<times> tide_os" where
  "os_fopen_wb os path =
     (if os_writable os path then (Some path, os\<lparr>os_files := (os_files os)(path \<mapsto> [])\<rparr>) else (None, os))"

definition os_fwrite :: "tide_os \<Rightarrow> string \<Rightarrow> bytes \<Rightarrow> nat \<times> tide_os" where
  "os_fwrite os path bs =
     (let n = min (length bs) (os_write_max os); old = (case os_files os path of None \<Rightarrow> [] | Some c \<Rightarrow> c)
      in (n, os\<lparr>os_files := (os_files os)(path \<mapsto> old @ take n bs)\<rparr>))"

definition os_ftell_end :: "tide_os \<Rightarrow> bytes \<Rightarrow> int" where
  "os_ftell_end os contents =
     (if os_tell_ok os \<and> length contents < 2 ^ 63 then int (length contents) else - 1)"

definition os_fread :: "tide_os \<Rightarrow> bytes \<Rightarrow> nat \<Rightarrow> bytes" where
  "os_fread os contents n = take (min n (os_read_max os)) contents"

subsection \<open>Sources\<close>

record tide_source =
  src_data :: "bytes option"
  src_size :: nat
  src_generation :: u64

definition sizeof_source :: nat where "sizeof_source = 24"

definition tide_source_from_memory ::
    "(nat \<Rightarrow> bool) \<Rightarrow> tide_source option option \<Rightarrow> bytes option \<Rightarrow> nat \<Rightarrow> tide_status \<times> tide_source option option" where
  "tide_source_from_memory alloc out data n =
     (if out = None \<or> data = None \<and> n \<noteq> 0 then (TIDE_STATUS_INVALID_ARGUMENT, out)
      else if \<not> alloc sizeof_source then (TIDE_STATUS_RESOURCE, Some None)
      else if n \<noteq> 0 \<and> \<not> alloc n then (TIDE_STATUS_RESOURCE, Some None)
      else (TIDE_STATUS_OK, Some (Some \<lparr>src_data = (if n \<noteq> 0 then map_option (take n) data else None), src_size = n, src_generation = 1\<rparr>)))"

definition tide_source_from_file ::
    "(nat \<Rightarrow> bool) \<Rightarrow> tide_os \<Rightarrow> tide_source option option \<Rightarrow> string option \<Rightarrow> tide_status \<times> tide_source option option" where
  "tide_source_from_file alloc os out path =
     (case (out, path) of
        (Some _, Some p) \<Rightarrow>
          (case os_files os p of
             None \<Rightarrow> (TIDE_STATUS_IO, Some None)
           | Some contents \<Rightarrow>
               if \<not> os_seek_ok os then (TIDE_STATUS_IO, Some None)
               else let len = os_ftell_end os contents in
               if len < 0 then (TIDE_STATUS_IO, Some None)
               else if \<not> alloc sizeof_source then (TIDE_STATUS_RESOURCE, Some None)
               else if len \<noteq> 0 \<and> \<not> alloc (nat len) then (TIDE_STATUS_RESOURCE, Some None)
               else if len \<noteq> 0 \<and> length (os_fread os contents (nat len)) \<noteq> nat len then (TIDE_STATUS_IO, Some None)
               else (TIDE_STATUS_OK, Some (Some \<lparr>src_data = (if len \<noteq> 0 then Some (os_fread os contents (nat len)) else None),
                 src_size = nat len, src_generation = 1\<rparr>)))
      | _ \<Rightarrow> (TIDE_STATUS_INVALID_ARGUMENT, out))"

definition tide_source_destroy :: "tide_source option \<Rightarrow> tide_source option" where
  "tide_source_destroy source = None"

definition tide_source_data :: "tide_source option \<Rightarrow> bytes option" where
  "tide_source_data source = (case source of None \<Rightarrow> None | Some s \<Rightarrow> src_data s)"

definition tide_source_size :: "tide_source option \<Rightarrow> nat" where
  "tide_source_size source = (case source of None \<Rightarrow> 0 | Some s \<Rightarrow> src_size s)"

subsection \<open>What a source promises\<close>

text \<open>The bytes of a source, and that its pointer is good for its size.\<close>

definition source_bytes :: "tide_source \<Rightarrow> bytes" where
  "source_bytes s = (case src_data s of None \<Rightarrow> [] | Some d \<Rightarrow> d)"

definition source_ok :: "tide_source \<Rightarrow> bool" where
  "source_ok s \<longleftrightarrow> length (source_bytes s) = src_size s \<and> (src_data s = None \<longrightarrow> src_size s = 0)"

lemma tide_source_from_memory_OK:
  assumes "tide_source_from_memory alloc out data n = (TIDE_STATUS_OK, out')" and "\<And>d. data = Some d \<Longrightarrow> n \<le> length d"
  obtains s where "out' = Some (Some s)" and "source_ok s" and "source_bytes s = take n (case data of None \<Rightarrow> [] | Some d \<Rightarrow> d)" and "src_size s = n"
proof (cases data)
  case None
  with assms(1) show thesis
    by (intro that [of "\<lparr>src_data = None, src_size = 0, src_generation = 1\<rparr>"])
       (auto simp: tide_source_from_memory_def source_ok_def source_bytes_def split: if_splits)
next
  case (Some d)
  with assms show thesis
    by (intro that [of "\<lparr>src_data = (if n \<noteq> 0 then Some (take n d) else None), src_size = n, src_generation = 1\<rparr>"])
       (auto simp: tide_source_from_memory_def source_ok_def source_bytes_def min_absorb2 split: if_splits)
qed

lemma tide_source_from_file_OK:
  assumes "tide_source_from_file alloc os out (Some p) = (TIDE_STATUS_OK, out')"
  obtains s c where "out' = Some (Some s)" and "os_files os p = Some c" and "source_ok s" and "source_bytes s = c" and "src_size s < 2 ^ 63"
proof -
  obtain c where c: "os_files os p = Some c" and o: "out \<noteq> None" "os_tell_ok os" "length c < 2 ^ 63"
    using assms by (auto simp: tide_source_from_file_def os_ftell_end_def Let_def split: option.splits if_splits)
  have n: "os_ftell_end os c = int (length c)" using o by (simp add: os_ftell_end_def)
  let ?d = "os_fread os c (length c)"
  have r: "length c \<noteq> 0 \<Longrightarrow> ?d = c"
    using assms c o n by (auto simp: tide_source_from_file_def os_fread_def Let_def split: if_splits)
  show thesis
    using assms c o n r
    by (intro that [of "\<lparr>src_data = (if length c \<noteq> 0 then Some ?d else None), src_size = length c, src_generation = 1\<rparr>" c])
       (auto simp: tide_source_from_file_def source_ok_def source_bytes_def Let_def split: if_splits)
qed

text \<open>With memory and a working disk, a file that exists becomes a source of its contents.\<close>

definition os_works :: "tide_os \<Rightarrow> nat \<Rightarrow> bool" where
  "os_works os n \<longleftrightarrow> os_seek_ok os \<and> os_tell_ok os \<and> os_close_ok os \<and> n \<le> os_read_max os \<and> n \<le> os_write_max os \<and> n < 2 ^ 63"

lemma tide_source_from_file_works:
  assumes "\<And>m. alloc m" and "os_works os (length c)" and "os_files os p = Some c"
  shows "tide_source_from_file alloc os (Some out) (Some p) =
    (TIDE_STATUS_OK, Some (Some \<lparr>src_data = (if c \<noteq> [] then Some c else None), src_size = length c, src_generation = 1\<rparr>))"
  using assms by (simp add: tide_source_from_file_def os_works_def os_ftell_end_def os_fread_def Let_def)

end
