(* ===== verification/Tide_Mux.thy ===== *)
theory Tide_Mux
  imports Tide_Roundtrip Tide_Source
begin

text \<open>
  The multiplexer of \<open>src/mux/mux.c\<close>: it collects the header and the records in a buffer and writes the
  file when it is closed.

  A \<open>tide_mux\<close> pointer is an optional record; \<open>mx_file\<close> is the open stream, named by its path. Closing and
  aborting free the object, so they return the status and the host only. The refinement: \<open>mux_holds\<close> relates
  a multiplexer to the list of streams and packets it was given, every operation that succeeds extends that
  list, and closing writes \<open>tide_file_bytes\<close> of it.
\<close>

subsection \<open>State and operations\<close>

record tide_mux =
  mx_file :: "string option"
  mx_buffer :: tide_buffer
  mx_limits :: tide_limits
  mx_movie_time_base :: tide_rational
  mx_sequence :: u64
  mx_closed :: bool
  mx_write_footer :: bool
  mx_error :: tide_error

record tide_mux_options =
  mo_limits :: tide_limits
  mo_movie_time_base :: tide_rational
  mo_write_footer :: bool

definition sizeof_mux :: nat where "sizeof_mux = 312"

definition tide_mux_uuid :: bytes where
  "tide_mux_uuid = [0x54, 0x49, 0x44, 0x45, 0x2d, 0x30, 0x30, 0x31, 0x2d, 0x6d, 0x75, 0x78, 0x2d, 0x30, 0x31, 0x00]"

definition tide_mux_set_error :: "tide_mux option \<Rightarrow> tide_status \<Rightarrow> string \<Rightarrow> tide_mux option" where
  "tide_mux_set_error mux status message =
     map_option (\<lambda>m. m\<lparr>mx_error := tide_error_value status TIDE_SEVERITY_ERROR (of_nat (buf_size (mx_buffer m))) 0 0
       (Some ''mux'') (Some message)\<rparr>) mux"

text \<open>The host is unchanged by an abort: the stream is closed without anything written to it.\<close>

definition tide_mux_abort :: "tide_os \<Rightarrow> tide_mux option \<Rightarrow> tide_os" where
  "tide_mux_abort os mux = os"

definition tide_mux_create ::
    "(nat \<Rightarrow> bool) \<Rightarrow> tide_os \<Rightarrow> tide_mux option option \<Rightarrow> string option \<Rightarrow> tide_mux_options option \<Rightarrow>
     tide_status \<times> tide_mux option option \<times> tide_os" where
  "tide_mux_create alloc os out path options =
     (if out = None \<or> path = None then (TIDE_STATUS_INVALID_ARGUMENT, out, os)
      else if \<not> alloc sizeof_mux then (TIDE_STATUS_RESOURCE, Some None, os)
      else let
        limits = (case options of None \<Rightarrow> tide_limits_default
          | Some o' \<Rightarrow> if max_record_size (mo_limits o') = 0 then tide_limits_default else mo_limits o');
        tb = (case options of None \<Rightarrow> \<lparr>numerator = 1, denominator = 1000\<rparr>
          | Some o' \<Rightarrow> if numerator (mo_movie_time_base o') = 0 then \<lparr>numerator = 1, denominator = 1000\<rparr> else mo_movie_time_base o');
        footer = (case options of None \<Rightarrow> True | Some o' \<Rightarrow> mo_write_footer o');
        (file, os) = os_fopen_wb os (the path)
      in if file = None then (TIDE_STATUS_IO, Some None, os)
      else let
        mux = \<lparr>mx_file = file, mx_buffer = \<lparr>buf_data = [], buf_capacity = 0, buf_limit = max_aggregate_alloc limits\<rparr>,
          mx_limits = limits, mx_movie_time_base = tb, mx_sequence = 0, mx_closed = False, mx_write_footer = footer,
          mx_error = tide_error_clear\<rparr>;
        (status, b) = tide_write_header alloc (mx_buffer mux) tb (Some tide_mux_uuid)
      in if status \<noteq> TIDE_STATUS_OK then (status, Some None, tide_mux_abort os (Some (mux\<lparr>mx_buffer := b\<rparr>)))
         else (TIDE_STATUS_OK, Some (Some (mux\<lparr>mx_buffer := b\<rparr>)), os))"

text \<open>The tail shared by \<open>tide_mux_add_stream\<close> and \<open>tide_mux_write_packet\<close>: the encoded payload becomes a record.\<close>

definition tide_mux_put ::
    "(nat \<Rightarrow> bool) \<Rightarrow> tide_mux \<Rightarrow> u16 \<Rightarrow> tide_status \<times> tide_buffer \<Rightarrow> string \<Rightarrow> tide_status \<times> tide_mux" where
  "tide_mux_put alloc m type encoded message =
     (case encoded of (status, payload) \<Rightarrow> let
        (status, m) = (if status = TIDE_STATUS_OK then
            (case tide_write_record alloc (mx_buffer m) type 0 3 (mx_sequence m) (Some (buf_data payload)) (buf_size payload) of
               (status, b) \<Rightarrow> (status, m\<lparr>mx_buffer := b, mx_sequence := mx_sequence m + 1\<rparr>))
          else (status, m))
      in if status \<noteq> TIDE_STATUS_OK then (status, the (tide_mux_set_error (Some m) status message)) else (status, m))"

definition tide_mux_add_stream ::
    "(nat \<Rightarrow> bool) \<Rightarrow> tide_mux option \<Rightarrow> tide_stream_info option \<Rightarrow> tide_status \<times> tide_mux option" where
  "tide_mux_add_stream alloc mux stream =
     (case (mux, stream) of
        (Some m, Some si) \<Rightarrow>
          if mx_closed m then (TIDE_STATUS_INVALID_ARGUMENT, mux)
          else apsnd Some (tide_mux_put alloc m TIDE_RECORD_STREAM_DESC
            (tide_encode_stream_payload alloc \<lparr>buf_data = [], buf_capacity = 0, buf_limit = max_single_alloc (mx_limits m)\<rparr> (Some si))
            ''failed to write stream'')
      | _ \<Rightarrow> (TIDE_STATUS_INVALID_ARGUMENT, mux))"

definition tide_mux_write_packet ::
    "(nat \<Rightarrow> bool) \<Rightarrow> lease_heap \<Rightarrow> tide_mux option \<Rightarrow> tide_packet_ref option \<Rightarrow>
     tide_status \<times> tide_mux option \<times> tide_packet_ref option \<times> lease_heap" where
  "tide_mux_write_packet alloc h mux moved_packet =
     (case (mux, moved_packet) of
        (Some m, Some p) \<Rightarrow>
          if mx_closed m then (TIDE_STATUS_INVALID_ARGUMENT, mux, moved_packet, h)
          else let
            (status, m) = tide_mux_put alloc m TIDE_RECORD_PACKET
              (tide_encode_packet_payload alloc \<lparr>buf_data = [], buf_capacity = 0, buf_limit = max_single_alloc (mx_limits m)\<rparr> (Some (pr_info p)))
              ''failed to write packet'';
            (p, h) = tide_packet_ref_reset h p
          in (status, Some m, Some p, h)
      | _ \<Rightarrow> (TIDE_STATUS_INVALID_ARGUMENT, mux, moved_packet, h))"

text \<open>The first record only measures the size of the footer record, its payload being all zero.\<close>

definition tide_mux_append_footer :: "(nat \<Rightarrow> bool) \<Rightarrow> tide_mux \<Rightarrow> tide_status \<times> tide_mux" where
  "tide_mux_append_footer alloc m =
     (let payload = replicate 49 0;
          empty = \<lparr>buf_data = [], buf_capacity = 0, buf_limit = max_single_alloc (mx_limits m)\<rparr>
      in case tide_write_record alloc empty TIDE_RECORD_FOOTER 0 3 (mx_sequence m) (Some payload) 49 of (status, rec) \<Rightarrow>
        if status \<noteq> TIDE_STATUS_OK then (status, m)
        else let
          final_length = of_nat (buf_size (mx_buffer m)) + of_nat (buf_size rec);
          payload = tide_write_u64 payload 0 final_length;
          payload = tide_write_u64 payload 8 0;
          payload = payload[16 := 0];
          payload = put_bytes payload 17 (tide_digest_adapter32 (buf_data (mx_buffer m)))
        in case tide_write_record alloc empty TIDE_RECORD_FOOTER 0 3 (mx_sequence m) (Some payload) 49 of (status, rec) \<Rightarrow>
          let m = m\<lparr>mx_sequence := mx_sequence m + 1\<rparr> in
          if status = TIDE_STATUS_OK then
            (case tide_buffer_append alloc (mx_buffer m) (Some (buf_data rec)) (buf_size rec) of (status, b) \<Rightarrow> (status, m\<lparr>mx_buffer := b\<rparr>))
          else (status, m))"

definition tide_mux_close :: "(nat \<Rightarrow> bool) \<Rightarrow> tide_os \<Rightarrow> tide_mux option \<Rightarrow> tide_status \<times> tide_os" where
  "tide_mux_close alloc os mux =
     (case mux of
        None \<Rightarrow> (TIDE_STATUS_INVALID_ARGUMENT, os)
      | Some m \<Rightarrow> let
          (status, m) = (if \<not> mx_closed m \<and> mx_write_footer m then tide_mux_append_footer alloc m else (TIDE_STATUS_OK, m));
          (status, os) = (if status = TIDE_STATUS_OK then
              (case os_fwrite os (the (mx_file m)) (buf_data (mx_buffer m)) of (n, os) \<Rightarrow>
                 (if n \<noteq> buf_size (mx_buffer m) then TIDE_STATUS_IO else status, os))
            else (status, os))
        in (if \<not> os_close_ok os \<and> status = TIDE_STATUS_OK then TIDE_STATUS_IO else status, os))"

definition tide_mux_last_error :: "tide_mux option \<Rightarrow> tide_error option" where
  "tide_mux_last_error mux = map_option mx_error mux"

subsection \<open>What a multiplexer holds\<close>

definition item_single :: "tide_limits \<Rightarrow> mux_item \<Rightarrow> bool" where
  "item_single lims it \<longleftrightarrow> max_single_alloc lims = 0 \<or> length (item_payload it) \<le> max_single_alloc lims"

definition mux_holds :: "tide_mux \<Rightarrow> mux_item list \<Rightarrow> bool" where
  "mux_holds m its \<longleftrightarrow> \<not> mx_closed m \<and> mx_file m \<noteq> None \<and> tide_rational_is_valid (mx_movie_time_base m) \<and>
     buf_data (mx_buffer m) = tide_file_body (mx_movie_time_base m) tide_mux_uuid its \<and> mx_sequence m = of_nat (length its) \<and>
     list_all (item_single (mx_limits m)) its"

definition same_mux :: "tide_mux \<Rightarrow> tide_mux \<Rightarrow> bool" where
  "same_mux m m' \<longleftrightarrow> mx_file m' = mx_file m \<and> mx_limits m' = mx_limits m \<and> mx_movie_time_base m' = mx_movie_time_base m \<and>
     mx_write_footer m' = mx_write_footer m \<and> mx_closed m' = mx_closed m \<and> buf_limit (mx_buffer m') = buf_limit (mx_buffer m)"

lemma same_mux_refl [simp]: "same_mux m m"
  by (simp add: same_mux_def)

lemma same_mux_trans: "same_mux a b \<Longrightarrow> same_mux b c \<Longrightarrow> same_mux a c"
  by (simp add: same_mux_def)

lemma tide_mux_uuid [simp]: "length tide_mux_uuid = 16" "tide_mux_uuid \<noteq> replicate 16 0"
proof -
  have "hd tide_mux_uuid \<noteq> hd (replicate 16 0)" by (simp add: tide_mux_uuid_def)
  then show "tide_mux_uuid \<noteq> replicate 16 0" by metis
qed (simp add: tide_mux_uuid_def)

lemma written_items_snoc:
  "written_items sq (its @ [it]) = written_items sq its @ tide_record_bytes (item_type it) 0 3 (sq + of_nat (length its)) (item_payload it)"
  by (induction its arbitrary: sq) (simp_all add: ac_simps)

fun item_wf :: "mux_item \<Rightarrow> bool" where
  "item_wf (Mux_Stream si) = (tide_rational_is_valid (si_time_base si) \<and> view_ok (si_config si) (si_config_size si))"
| "item_wf (Mux_Packet p) = (0 \<le> sint (pk_duration p) \<and> view_ok (pv_data (pk_payload p)) (pv_size (pk_payload p)))"

lemma length_item_payload: "item_wf it \<Longrightarrow> length (item_payload it) < 2 ^ 62"
proof (cases it)
  case (Mux_Stream si)
  assume "item_wf it"
  then have v: "view_ok (si_config si) (si_config_size si)" using Mux_Stream by simp
  show ?thesis
    using v length_view_bytes [OF v] tide_uleb128_bytes_length [of "of_nat (si_config_size si)"] Mux_Stream
    by (simp add: stream_payload_bytes_def stream_payload_bytes_view [OF v]) (simp add: view_ok_def)
next
  case (Mux_Packet p)
  assume "item_wf it"
  then have v: "view_ok (pv_data (pk_payload p)) (pv_size (pk_payload p))" using Mux_Packet by simp
  have "min (length (the (pv_data (pk_payload p)))) (pv_size (pk_payload p)) \<le> pv_size (pk_payload p)" by simp
  moreover have "pv_size (pk_payload p) < 2 ^ 61" using v by (simp add: view_ok_def)
  ultimately show ?thesis
    using tide_uleb128_bytes_length [of "of_nat (pv_size (pk_payload p))"] Mux_Packet
    by (simp add: packet_payload_bytes_def del: min.bounded_iff)
qed

definition mux_room :: "tide_mux \<Rightarrow> nat \<Rightarrow> bool" where
  "mux_room m n \<longleftrightarrow> (max_single_alloc (mx_limits m) = 0 \<or> n \<le> max_single_alloc (mx_limits m)) \<and> tide_buffer_fits (mx_buffer m) (n + 48)"

lemma tide_mux_put_spec:
  assumes m: "mux_holds m its" and it: "item_wf it" "type = item_type it"
    and enc: "appended alloc \<lparr>buf_data = [], buf_capacity = 0, buf_limit = max_single_alloc (mx_limits m)\<rparr> (item_payload it) encoded"
    and put: "tide_mux_put alloc m type encoded msg = (status, m')"
  shows "status = TIDE_STATUS_OK \<Longrightarrow> mux_holds m' (its @ [it]) \<and> same_mux m m'" and "same_mux m m'"
    and "(\<And>k. alloc k) \<Longrightarrow> mux_room m (length (item_payload it)) \<Longrightarrow> status = TIDE_STATUS_OK"
proof -
  let ?p = "item_payload it" and ?R = "tide_record_bytes (item_type it) 0 3 (mx_sequence m) (item_payload it)"
  have "appended alloc (mx_buffer m) ?R (tide_write_record alloc (mx_buffer m) (item_type it) 0 3 (mx_sequence m) (Some ?p) (length ?p))"
    by (rule tide_write_record_appended [OF _ length_item_payload [OF it(1)]]) simp
  then have "(status = TIDE_STATUS_OK \<longrightarrow> mux_holds m' (its @ [it]) \<and> same_mux m m') \<and> same_mux m m' \<and>
    ((\<forall>k. alloc k) \<and> mux_room m (length ?p) \<longrightarrow> status = TIDE_STATUS_OK)"
  proof (cases rule: appendedE)
    case w: (ok c)
    from enc show ?thesis
    proof (cases rule: appendedE)
      case (ok c')
      have "m' = m\<lparr>mx_buffer := (mx_buffer m)\<lparr>buf_data := buf_data (mx_buffer m) @ ?R, buf_capacity := c\<rparr>, mx_sequence := mx_sequence m + 1\<rparr>"
        "status = TIDE_STATUS_OK" using put ok w it(2) by (simp_all add: tide_mux_put_def)
      then show ?thesis
        using m ok(2) by (simp add: mux_holds_def same_mux_def tide_file_body_def written_items_snoc item_single_def tide_buffer_fits_def)
    next
      case (fail xs c')
      then have "status = TIDE_STATUS_RESOURCE" "m' = the (tide_mux_set_error (Some m) TIDE_STATUS_RESOURCE msg)"
        using put by (simp_all add: tide_mux_put_def)
      then show ?thesis using fail(2) by (auto simp: tide_mux_set_error_def same_mux_def mux_room_def tide_buffer_fits_def SIZE_MAX_def)
    qed
  next
    case w: (fail xs c)
    have lenR: "length ?R \<le> length ?p + 48" by (rule record_bytes_bound) simp
    then have fits: "tide_buffer_fits (mx_buffer m) (length ?p + 48) \<Longrightarrow> tide_buffer_fits (mx_buffer m) (length ?R)"
      by (auto simp: tide_buffer_fits_def)
    have "status \<noteq> TIDE_STATUS_OK \<and> same_mux m m'"
      using put w(1) it(2) enc by (auto elim!: appendedE simp: tide_mux_put_def tide_mux_set_error_def same_mux_def)
    then show ?thesis using w(2) fits by (auto simp: mux_room_def)
  qed
  then show "status = TIDE_STATUS_OK \<Longrightarrow> mux_holds m' (its @ [it]) \<and> same_mux m m'" and "same_mux m m'"
    and "(\<And>k. alloc k) \<Longrightarrow> mux_room m (length (item_payload it)) \<Longrightarrow> status = TIDE_STATUS_OK" by blast+
qed

subsection \<open>Sessions\<close>

datatype mux_call = Add_Stream tide_stream_info | Write_Packet tide_packet_ref

fun call_item :: "mux_call \<Rightarrow> mux_item" where
  "call_item (Add_Stream si) = Mux_Stream si"
| "call_item (Write_Packet p) = Mux_Packet (pr_info p)"

fun mux_do :: "(nat \<Rightarrow> bool) \<Rightarrow> lease_heap \<Rightarrow> tide_mux \<Rightarrow> mux_call \<Rightarrow> tide_status \<times> tide_mux \<times> lease_heap" where
  "mux_do alloc h m (Add_Stream si) =
     (case tide_mux_add_stream alloc (Some m) (Some si) of (status, m) \<Rightarrow> (status, the m, h))"
| "mux_do alloc h m (Write_Packet p) =
     (case tide_mux_write_packet alloc h (Some m) (Some p) of (status, m, p, h) \<Rightarrow> (status, the m, h))"

text \<open>The calls of a client that stops at the first failure.\<close>

fun mux_calls :: "(nat \<Rightarrow> bool) \<Rightarrow> lease_heap \<Rightarrow> tide_mux \<Rightarrow> mux_call list \<Rightarrow> tide_status \<times> tide_mux \<times> lease_heap" where
  "mux_calls alloc h m [] = (TIDE_STATUS_OK, m, h)"
| "mux_calls alloc h m (c # cs) =
     (case mux_do alloc h m c of (status, m, h) \<Rightarrow>
        if status = TIDE_STATUS_OK then mux_calls alloc h m cs else (status, m, h))"

lemma mux_call_spec:
  assumes m: "mux_holds m its" and it: "item_wf (call_item c)" and call: "mux_do alloc h m c = (status, m', h')"
  shows "status = TIDE_STATUS_OK \<Longrightarrow> mux_holds m' (its @ [call_item c])" and "same_mux m m'"
    and "(\<And>k. alloc k) \<Longrightarrow> mux_room m (length (item_payload (call_item c))) \<Longrightarrow> status = TIDE_STATUS_OK"
proof -
  let ?e = "\<lparr>buf_data = [], buf_capacity = 0, buf_limit = max_single_alloc (mx_limits m)\<rparr>"
  have open_m: "\<not> mx_closed m" using m by (simp add: mux_holds_def)
  have "\<exists>enc msg. appended alloc ?e (item_payload (call_item c)) enc \<and>
      tide_mux_put alloc m (item_type (call_item c)) enc msg = (status, m')"
  proof (cases c)
    case (Add_Stream si)
    then have "tide_mux_put alloc m TIDE_RECORD_STREAM_DESC (tide_encode_stream_payload alloc ?e (Some si)) ''failed to write stream'' = (status, m')"
      using call open_m
      by (cases "tide_mux_put alloc m TIDE_RECORD_STREAM_DESC (tide_encode_stream_payload alloc ?e (Some si)) ''failed to write stream''")
         (simp add: tide_mux_add_stream_def)
    then show ?thesis
      using tide_encode_stream_payload_appended [of si alloc ?e] it Add_Stream by (auto simp del: split_paired_Ex)
  next
    case (Write_Packet p)
    then have "tide_mux_put alloc m TIDE_RECORD_PACKET (tide_encode_packet_payload alloc ?e (Some (pr_info p))) ''failed to write packet'' = (status, m')"
      using call open_m by (auto simp: tide_mux_write_packet_def split: prod.splits)
    then show ?thesis
      using tide_encode_packet_payload_appended [of "pr_info p" alloc ?e] it Write_Packet by (auto simp del: split_paired_Ex)
  qed
  then obtain enc msg where "appended alloc ?e (item_payload (call_item c)) enc"
    and "tide_mux_put alloc m (item_type (call_item c)) enc msg = (status, m')" by blast
  note s = tide_mux_put_spec [OF m it refl this]
  show "status = TIDE_STATUS_OK \<Longrightarrow> mux_holds m' (its @ [call_item c])" "same_mux m m'" using s by blast+
  show "(\<And>k. alloc k) \<Longrightarrow> mux_room m (length (item_payload (call_item c))) \<Longrightarrow> status = TIDE_STATUS_OK" by (rule s(3))
qed

lemma mux_calls_hold:
  assumes "mux_holds m its" and "list_all (item_wf \<circ> call_item) cs" and "mux_calls alloc h m cs = (TIDE_STATUS_OK, m', h')"
  shows "mux_holds m' (its @ map call_item cs)" and "same_mux m m'"
proof -
  have "mux_holds m' (its @ map call_item cs) \<and> same_mux m m'"
    using assms
  proof (induction cs arbitrary: m its h)
    case (Cons c cs)
    obtain status m1 h1 where c: "mux_do alloc h m c = (status, m1, h1)" by (cases "mux_do alloc h m c")
    then have ok: "status = TIDE_STATUS_OK" "mux_calls alloc h1 m1 cs = (TIDE_STATUS_OK, m', h')"
      using Cons.prems(3) by (auto split: if_splits)
    note s = mux_call_spec [OF Cons.prems(1) _ c]
    have "mux_holds m' ((its @ [call_item c]) @ map call_item cs) \<and> same_mux m1 m'"
      using Cons.prems s(1) ok by (intro Cons.IH [of m1 _ h1]) auto
    then show ?case using s(2) Cons.prems(2) by (auto intro: same_mux_trans)
  qed simp
  then show "mux_holds m' (its @ map call_item cs)" "same_mux m m'" by blast+
qed

lemma tide_mux_create_holds:
  assumes "tide_mux_create alloc os out (Some path) options = (TIDE_STATUS_OK, out', os')"
  obtains m where "out' = Some (Some m)" and "mux_holds m []" and "mx_file m = Some path" and "os' = os\<lparr>os_files := (os_files os)(path \<mapsto> [])\<rparr>"
    and "mx_limits m = (case options of None \<Rightarrow> tide_limits_default
          | Some o' \<Rightarrow> if max_record_size (mo_limits o') = 0 then tide_limits_default else mo_limits o')"
    and "mx_movie_time_base m = (case options of None \<Rightarrow> \<lparr>numerator = 1, denominator = 1000\<rparr>
          | Some o' \<Rightarrow> if numerator (mo_movie_time_base o') = 0 then \<lparr>numerator = 1, denominator = 1000\<rparr> else mo_movie_time_base o')"
    and "mx_write_footer m = (case options of None \<Rightarrow> True | Some o' \<Rightarrow> mo_write_footer o')"
    and "buf_limit (mx_buffer m) = max_aggregate_alloc (mx_limits m)"
proof -
  define lims where "lims = (case options of None \<Rightarrow> tide_limits_default
          | Some o' \<Rightarrow> if max_record_size (mo_limits o') = 0 then tide_limits_default else mo_limits o')"
  define tb where "tb = (case options of None \<Rightarrow> \<lparr>numerator = 1, denominator = 1000\<rparr>
          | Some o' \<Rightarrow> if numerator (mo_movie_time_base o') = 0 then \<lparr>numerator = 1, denominator = 1000\<rparr> else mo_movie_time_base o')"
  define footer where "footer = (case options of None \<Rightarrow> True | Some o' \<Rightarrow> mo_write_footer o')"
  let ?b = "\<lparr>buf_data = [], buf_capacity = 0, buf_limit = max_aggregate_alloc lims\<rparr>"
  let ?m = "\<lparr>mx_file = Some path, mx_buffer = ?b,
          mx_limits = lims, mx_movie_time_base = tb, mx_sequence = 0, mx_closed = False, mx_write_footer = footer,
          mx_error = tide_error_clear\<rparr>"
  obtain status b where w: "tide_write_header alloc ?b tb (Some tide_mux_uuid) = (status, b)" by fastforce
  have st: "status = TIDE_STATUS_OK" "out' = Some (Some (?m\<lparr>mx_buffer := b\<rparr>))" "os' = os\<lparr>os_files := (os_files os)(path \<mapsto> [])\<rparr>"
    using assms w unfolding tide_mux_create_def lims_def [symmetric] tb_def [symmetric] footer_def [symmetric]
    by (auto simp: Let_def os_fopen_wb_def split: if_splits)
  have v: "tide_rational_is_valid tb" using w st(1) by (auto simp: tide_write_header_def split: if_splits)
  have ap: "appended alloc ?b (tide_header_bytes tb tide_mux_uuid) (status, b)"
    using tide_write_header_appended [OF v tide_mux_uuid, of alloc ?b] w by simp
  then have b: "buf_data b = tide_header_bytes tb tide_mux_uuid" "buf_limit b = max_aggregate_alloc lims"
    using st(1) by (auto simp: appended_def)
  show thesis
    by (rule that [OF st(2) _ _ st(3)])
       (use v in \<open>simp_all add: mux_holds_def b tide_file_body_def lims_def tb_def footer_def\<close>)
qed


lemma footer_payload_array:
  "put_bytes ((tide_write_u64 (tide_write_u64 (replicate 49 0) 0 v) 8 0)[16 := 0]) 17 (tide_digest_adapter32 contents) =
     u64_bytes v @ u64_bytes 0 @ tide_uleb128_bytes 0 @ tide_digest_adapter32 contents"
proof -
  have l: "length (u64_bytes x) = 8" for x by simp
  have "tide_write_u64 (tide_write_u64 (replicate 49 0) 0 v) 8 0 = u64_bytes v @ u64_bytes 0 @ [0] @ replicate 32 0"
    by (simp add: tide_write_u64_eq put_bytes_def numeral_eq_Suc)
  then show ?thesis
    by (simp add: put_bytes_def l list_update_append tide_uleb128_bytes_0 TIDE_DIGEST_SIZE_def)
qed

lemma tide_mux_append_footer_spec:
  assumes m: "mux_holds m its" and f: "tide_mux_append_footer alloc m = (status, m')"
  shows "status = TIDE_STATUS_OK \<Longrightarrow> buf_data (mx_buffer m') = tide_file_bytes (mx_movie_time_base m) tide_mux_uuid True its"
    and "same_mux m m'"
    and "(\<And>k. alloc k) \<Longrightarrow> mux_room m 97 \<Longrightarrow> status = TIDE_STATUS_OK"
proof -
  let ?e = "\<lparr>buf_data = [], buf_capacity = 0, buf_limit = max_single_alloc (mx_limits m)\<rparr>" and ?sq = "mx_sequence m"
  let ?body = "buf_data (mx_buffer m)" and ?b = "mx_buffer m"
  let ?P = "footer_payload_bytes (length ?body + footer_record_size ?sq) ?body" and ?R = "footer_record_bytes ?sq ?body"
  let ?Z = "tide_record_bytes TIDE_RECORD_FOOTER 0 3 ?sq (replicate 49 0)"
  define ra where "ra = tide_write_record alloc ?e TIDE_RECORD_FOOTER 0 3 ?sq (Some (replicate 49 0)) 49"
  define rb where "rb = tide_write_record alloc ?e TIDE_RECORD_FOOTER 0 3 ?sq (Some ?P) 49"
  have lenR: "length ?R = footer_record_size ?sq" by (rule length_footer_record)
  have a: "appended alloc ?e ?Z ra"
    using tide_write_record_appended [of 3 "replicate 49 0" alloc ?e TIDE_RECORD_FOOTER 0 ?sq] by (simp add: ra_def)
  have lenZ: "length ?Z = footer_record_size ?sq"
    by (simp add: length_tide_record_bytes footer_record_size_def)
  have sz: "footer_record_size ?sq \<le> 97"
    using record_bytes_bound [of 3 TIDE_RECORD_FOOTER 0 ?sq "replicate 49 0"] lenZ by simp
  have b: "appended alloc ?e ?R rb"
    using tide_write_record_appended [of 3 ?P alloc ?e TIDE_RECORD_FOOTER 0 ?sq] by (simp add: footer_record_bytes_def rb_def)
  have P: "put_bytes ((tide_write_u64 (tide_write_u64 (replicate 49 0) 0 (of_nat (length ?body) + of_nat (footer_record_size ?sq))) 8 0)[16 := 0])
      17 (tide_digest_adapter32 ?body) = ?P"
    unfolding footer_payload_array by (simp add: footer_payload_bytes_def)
  have c: "appended alloc ?b ?R (tide_buffer_append alloc ?b (Some ?R) (length ?R))"
    using appends_appended [of "[?R]" alloc ?b]
    by (simp only: buffer_appends_last concat.simps append_Nil2 list.distinct not_False_eq_True)
  have fit: "mux_room m 97 \<Longrightarrow> tide_buffer_fits ?e (footer_record_size ?sq) \<and> tide_buffer_fits ?b (footer_record_size ?sq)"
    using sz by (auto simp: mux_room_def tide_buffer_fits_def SIZE_MAX_def)
  have "(status = TIDE_STATUS_OK \<longrightarrow> buf_data (mx_buffer m') = ?body @ ?R) \<and> same_mux m m' \<and>
      ((\<forall>k. alloc k) \<and> mux_room m 97 \<longrightarrow> status = TIDE_STATUS_OK)"
    using a
  proof (cases rule: appendedE)
    case (fail xs k)
    then show ?thesis using f fit lenZ unfolding tide_mux_append_footer_def Let_def ra_def [symmetric] by auto
  next
    case A: (ok k)
    have step: "tide_mux_append_footer alloc m = (case rb of (status, rec) \<Rightarrow> let m = m\<lparr>mx_sequence := ?sq + 1\<rparr> in
        if status = TIDE_STATUS_OK then
          (case tide_buffer_append alloc ?b (Some (buf_data rec)) (buf_size rec) of (status, b) \<Rightarrow> (status, m\<lparr>mx_buffer := b\<rparr>))
        else (status, m))"
      unfolding tide_mux_append_footer_def Let_def ra_def [symmetric] A prod.case
      by (simp add: lenZ P rb_def split: prod.split)
    from b show ?thesis
    proof (cases rule: appendedE)
      case (fail xs k')
      then show ?thesis using f fit lenR unfolding step by (auto simp: same_mux_def)
    next
      case B: (ok k')
      from c show ?thesis
      proof (cases rule: appendedE)
        case (fail xs k2)
        then show ?thesis using f fit lenR B unfolding step by (auto simp: same_mux_def)
      next
        case (ok k2)
        then show ?thesis using f B unfolding step by (auto simp: same_mux_def)
      qed
    qed
  qed
  moreover have "?body @ ?R = tide_file_bytes (mx_movie_time_base m) tide_mux_uuid True its"
    using m by (simp add: mux_holds_def tide_file_bytes_def)
  ultimately show "status = TIDE_STATUS_OK \<Longrightarrow> buf_data (mx_buffer m') = tide_file_bytes (mx_movie_time_base m) tide_mux_uuid True its"
    and "same_mux m m'" and "(\<And>k. alloc k) \<Longrightarrow> mux_room m 97 \<Longrightarrow> status = TIDE_STATUS_OK" by auto
qed

lemma tide_mux_close_writes:
  assumes m: "mux_holds m its" and c: "tide_mux_close alloc os (Some m) = (TIDE_STATUS_OK, os')"
    and p: "mx_file m = Some path" "os_files os path = Some []"
  shows "os_files os' path = Some (tide_file_bytes (mx_movie_time_base m) tide_mux_uuid (mx_write_footer m) its)"
proof -
  obtain status m1 where f: "(if mx_write_footer m then tide_mux_append_footer alloc m else (TIDE_STATUS_OK, m)) = (status, m1)" by fastforce
  have op: "\<not> mx_closed m" using m by (simp add: mux_holds_def)
  have s: "same_mux m m1"
    using f tide_mux_append_footer_spec(2) [OF m, of alloc status m1] by (auto split: if_splits)
  have d: "buf_data (mx_buffer m1) = tide_file_bytes (mx_movie_time_base m) tide_mux_uuid (mx_write_footer m) its" if "status = TIDE_STATUS_OK"
    using f that tide_mux_append_footer_spec(1) [OF m, of alloc status m1] m
    by (auto simp: mux_holds_def tide_file_bytes_def split: if_splits)
  have "status = TIDE_STATUS_OK" "os_files os' path = Some (buf_data (mx_buffer m1))"
    using c f s op p unfolding tide_mux_close_def
    by (auto simp: os_fwrite_def Let_def same_mux_def split: if_splits)
  then show ?thesis using d by simp
qed

definition calls_size :: "mux_call list \<Rightarrow> nat" where
  "calls_size cs = (\<Sum>c\<leftarrow>cs. length (item_payload (call_item c)) + 48)"

definition single_fits :: "tide_limits \<Rightarrow> mux_call \<Rightarrow> bool" where
  "single_fits lims c \<longleftrightarrow> max_single_alloc lims = 0 \<or> length (item_payload (call_item c)) \<le> max_single_alloc lims"

lemma mux_calls_succeed:
  assumes "\<And>k. alloc k" and "mux_holds m its" and "list_all (item_wf \<circ> call_item) cs" and "list_all (single_fits (mx_limits m)) cs"
    and "tide_buffer_fits (mx_buffer m) (calls_size cs + k)"
  shows "\<exists>m' h'. mux_calls alloc h m cs = (TIDE_STATUS_OK, m', h') \<and> tide_buffer_fits (mx_buffer m') k"
  using assms(2-)
proof (induction cs arbitrary: m its h)
  case Nil
  then show ?case by (simp add: calls_size_def)
next
  case (Cons c cs)
  let ?it = "call_item c"
  obtain status m1 h1 where c: "mux_do alloc h m c = (status, m1, h1)" by (cases "mux_do alloc h m c")
  have wf: "item_wf ?it" using Cons.prems(2) by simp
  note s = mux_call_spec [OF Cons.prems(1) wf c]
  have "mux_room m (length (item_payload ?it))"
    using Cons.prems(3,4) by (auto simp: mux_room_def single_fits_def calls_size_def tide_buffer_fits_def)
  then have ok: "status = TIDE_STATUS_OK" by (rule s(3) [OF assms(1)])
  have hold: "mux_holds m1 (its @ [?it])" using s(1) ok by simp
  let ?R = "tide_record_bytes (item_type ?it) 0 3 (of_nat (length its)) (item_payload ?it)"
  have "buf_size (mx_buffer m1) = buf_size (mx_buffer m) + length ?R"
    using hold Cons.prems(1) s(2) by (simp add: mux_holds_def same_mux_def tide_file_body_def written_items_snoc)
  moreover have "length ?R \<le> length (item_payload ?it) + 48" by (rule record_bytes_bound) simp
  ultimately have "tide_buffer_fits (mx_buffer m1) (calls_size cs + k)"
    using Cons.prems(4) s(2) by (auto simp: tide_buffer_fits_def calls_size_def same_mux_def)
  moreover have "list_all (single_fits (mx_limits m1)) cs" using Cons.prems(3) s(2) by (simp add: same_mux_def)
  ultimately show ?case using Cons.IH [OF hold, of h1] Cons.prems(2) c ok by simp
qed

lemma tide_mux_close_succeeds:
  assumes "\<And>k. alloc k" and m: "mux_holds m its" and "mux_room m 97"
    and "os_works os (length (tide_file_bytes (mx_movie_time_base m) tide_mux_uuid (mx_write_footer m) its))"
  shows "fst (tide_mux_close alloc os (Some m)) = TIDE_STATUS_OK"
proof -
  obtain status m1 where f: "(if mx_write_footer m then tide_mux_append_footer alloc m else (TIDE_STATUS_OK, m)) = (status, m1)" by fastforce
  have op: "\<not> mx_closed m" using m by (simp add: mux_holds_def)
  have st: "status = TIDE_STATUS_OK"
    using f tide_mux_append_footer_spec(3) [OF m, of alloc status m1] assms(1,3) by (auto split: if_splits)
  have "buf_data (mx_buffer m1) = tide_file_bytes (mx_movie_time_base m) tide_mux_uuid (mx_write_footer m) its"
    using f st tide_mux_append_footer_spec(1) [OF m, of alloc status m1] m
    by (auto simp: mux_holds_def tide_file_bytes_def split: if_splits)
  then show ?thesis
    using f st op assms(4) by (auto simp: tide_mux_close_def os_fwrite_def os_works_def Let_def)
qed

lemma tide_mux_create_succeeds:
  assumes "\<And>k. alloc k" and "os_writable os path"
  shows "fst (tide_mux_create alloc os (Some out) (Some path) None) = TIDE_STATUS_OK"
proof -
  let ?tb = "\<lparr>numerator = 1, denominator = 1000\<rparr> :: tide_rational"
  let ?b = "\<lparr>buf_data = [], buf_capacity = 0, buf_limit = max_aggregate_alloc tide_limits_default\<rparr>"
  have v: "tide_rational_is_valid ?tb" by (simp add: tide_rational_is_valid_def tide_gcd_u64.simps)
  have "appended alloc ?b (tide_header_bytes ?tb tide_mux_uuid) (tide_write_header alloc ?b ?tb (Some tide_mux_uuid))"
    by (rule tide_write_header_appended [OF v tide_mux_uuid])
  then have "fst (tide_write_header alloc ?b ?tb (Some tide_mux_uuid)) = TIDE_STATUS_OK"
    by (rule appendedE) (use assms(1) in \<open>auto simp: tide_buffer_fits_def tide_limits_default_def SIZE_MAX_def TIDE_HEADER_SIZE_def\<close>)
  then show ?thesis
    using assms by (auto simp: tide_mux_create_def os_fopen_wb_def Let_def split: prod.split)
qed

lemma mux_session_writes:
  assumes "tide_mux_create alloc os (Some None) (Some path) options = (TIDE_STATUS_OK, Some (Some m), os1)"
    and "list_all (item_wf \<circ> call_item) cs" and "mux_calls alloc h m cs = (TIDE_STATUS_OK, m', h')"
    and "tide_mux_close alloc os1 (Some m') = (TIDE_STATUS_OK, os2)"
  shows "os_files os2 path = Some (tide_file_bytes (mx_movie_time_base m) tide_mux_uuid (mx_write_footer m) (map call_item cs))"
proof -
  have "mux_holds m [] \<and> mx_file m = Some path \<and> os_files os1 path = Some []"
    by (rule tide_mux_create_holds [OF assms(1)]) simp
  then have m: "mux_holds m []" "mx_file m = Some path" "os_files os1 path = Some []" by blast+
  note c = mux_calls_hold [OF m(1) assms(2,3)]
  have "mx_file m' = Some path" "mx_movie_time_base m' = mx_movie_time_base m" "mx_write_footer m' = mx_write_footer m"
    using c(2) m(2) by (simp_all add: same_mux_def)
  then show ?thesis using tide_mux_close_writes [OF c(1) assms(4) _ m(3)] by simp
qed

subsection \<open>Properties\<close>

text \<open>C9: a multiplexing session whose calls all succeed leaves on disk exactly the file the format defines: the header with
  the requested movie time base, one checksummed record per stream and packet in the order of the calls with
  consecutive sequence numbers, and, if asked for, the footer with the final length and the digest.\<close>

theorem tide_mux_session_file:
  assumes "tide_mux_create alloc os (Some None) (Some path) options = (TIDE_STATUS_OK, Some (Some m), os1)"
    and "list_all (item_wf \<circ> call_item) cs" and "mux_calls alloc h m cs = (TIDE_STATUS_OK, m', h')"
    and "tide_mux_close alloc os1 (Some m') = (TIDE_STATUS_OK, os2)"
  shows "os_files os2 path = Some (tide_file_bytes (mx_movie_time_base m) tide_mux_uuid (mx_write_footer m) (map call_item cs))"
  by (rule mux_session_writes [OF assms])

definition sample_os :: tide_os where
  "sample_os = \<lparr>os_files = Map.empty, os_writable = (\<lambda>_. True), os_seek_ok = True, os_tell_ok = True,
     os_read_max = 10000, os_write_max = 10000, os_close_ok = True\<rparr>"

definition sample_calls :: "mux_call list" where
  "sample_calls = [Add_Stream sample_stream, Write_Packet \<lparr>pr_info = sample_packet, pr_lease = None\<rparr>]"

lemma sample_session:
  obtains m os1 m' h' os2 where
    "tide_mux_create (\<lambda>_. True) sample_os (Some None) (Some ''a'') None = (TIDE_STATUS_OK, Some (Some m), os1)"
    "mux_calls (\<lambda>_. True) lease_heap_empty m sample_calls = (TIDE_STATUS_OK, m', h')"
    "tide_mux_close (\<lambda>_. True) os1 (Some m') = (TIDE_STATUS_OK, os2)"
    "list_all (item_wf \<circ> call_item) sample_calls" "mx_movie_time_base m = \<lparr>numerator = 1, denominator = 1000\<rparr>" "mx_write_footer m"
    "os2 = sample_os\<lparr>os_files := os_files os2\<rparr>" "length (the (os_files os2 ''a'')) \<le> 340"
proof -
  let ?a = "\<lambda>_ :: nat. True"
  obtain out os1 where c: "tide_mux_create ?a sample_os (Some None) (Some ''a'') None = (TIDE_STATUS_OK, out, os1)"
    using tide_mux_create_succeeds [of ?a sample_os "''a''" None] by (cases "tide_mux_create ?a sample_os (Some None) (Some ''a'') None") (auto simp: sample_os_def)
  then obtain m where m: "out = Some (Some m)" "mux_holds m []" "mx_file m = Some ''a''" "os1 = sample_os\<lparr>os_files := (os_files sample_os)(''a'' \<mapsto> [])\<rparr>"
      "mx_limits m = tide_limits_default" "mx_movie_time_base m = \<lparr>numerator = 1, denominator = 1000\<rparr>" "mx_write_footer m"
      "buf_limit (mx_buffer m) = max_aggregate_alloc tide_limits_default"
    by (rule tide_mux_create_holds) auto
  have wf: "list_all (item_wf \<circ> call_item) sample_calls" using sample_valid by (simp add: sample_calls_def)
  have sz: "calls_size sample_calls = 171" by (simp add: calls_size_def sample_calls_def length_sample_payloads)
  have hl: "buf_size (mx_buffer m) = 72" using m(2) by (simp add: mux_holds_def tide_file_body_def TIDE_HEADER_SIZE_def)
  obtain m' h' where cs: "mux_calls ?a lease_heap_empty m sample_calls = (TIDE_STATUS_OK, m', h')" "tide_buffer_fits (mx_buffer m') 145"
    using mux_calls_succeed [of ?a m "[]" sample_calls 145 lease_heap_empty] m(2,5,8) wf sz hl
    by (auto simp: sample_calls_def single_fits_def length_sample_payloads tide_limits_default_def tide_buffer_fits_def SIZE_MAX_def)
  note h = mux_calls_hold [OF m(2) wf cs(1)]
  have "length (tide_file_body (mx_movie_time_base m') tide_mux_uuid (map call_item sample_calls)) \<le> 243"
    using record_bytes_bound [of 3 TIDE_RECORD_STREAM_DESC 0 0 "stream_payload_bytes sample_stream"]
      record_bytes_bound [of 3 TIDE_RECORD_PACKET 0 1 "packet_payload_bytes sample_packet"]
    by (simp add: sample_calls_def length_sample_payloads tide_file_body_def TIDE_HEADER_SIZE_def)
  moreover have "length (footer_record_bytes 2 x) \<le> 97" for x
    using record_bytes_bound [of 3 TIDE_RECORD_FOOTER 0 2 "footer_payload_bytes (length x + footer_record_size 2) x"] by (simp add: footer_record_bytes_def)
  ultimately have "length (tide_file_bytes (mx_movie_time_base m') tide_mux_uuid (mx_write_footer m') (map call_item sample_calls)) \<le> 340"
    using add_mono [of _ 243 _ 97] by (auto simp: tide_file_bytes_def sample_calls_def)
  note small = this
  then have "fst (tide_mux_close ?a os1 (Some m')) = TIDE_STATUS_OK"
    using h cs(2) m(4,5) by (intro tide_mux_close_succeeds) (auto simp: mux_room_def same_mux_def tide_limits_default_def os_works_def sample_os_def)
  then obtain os2 where os2: "tide_mux_close ?a os1 (Some m') = (TIDE_STATUS_OK, os2)" by (cases "tide_mux_close ?a os1 (Some m')") simp
  have os2_eq: "os2 = sample_os\<lparr>os_files := os_files os2\<rparr>"
    using os2 m(4) by (auto simp: tide_mux_close_def os_fwrite_def Let_def split: prod.splits if_splits)
  have "os_files os2 ''a'' = Some (tide_file_bytes (mx_movie_time_base m) tide_mux_uuid (mx_write_footer m) (map call_item sample_calls))"
    using c m(1) by (intro mux_session_writes [OF _ wf cs(1) os2, of sample_os _ None]) simp
  then have len: "length (the (os_files os2 ''a'')) \<le> 340" using small h(2) by (simp add: same_mux_def)
  show thesis by (rule that [OF c [unfolded m(1)] cs(1) os2 wf m(6,7) os2_eq len])
qed

theorem tide_mux_session_file_witness:
  "\<exists>m os1 m' h' os2. tide_mux_create (\<lambda>_. True) sample_os (Some None) (Some ''a'') None = (TIDE_STATUS_OK, Some (Some m), os1) \<and>
    mux_calls (\<lambda>_. True) lease_heap_empty m sample_calls = (TIDE_STATUS_OK, m', h') \<and>
    tide_mux_close (\<lambda>_. True) os1 (Some m') = (TIDE_STATUS_OK, os2) \<and>
    os_files os2 ''a'' = Some (tide_file_bytes \<lparr>numerator = 1, denominator = 1000\<rparr> tide_mux_uuid True (map call_item sample_calls))"
proof -
  obtain m os1 m' h' os2 where s:
    "tide_mux_create (\<lambda>_. True) sample_os (Some None) (Some ''a'') None = (TIDE_STATUS_OK, Some (Some m), os1)"
    "mux_calls (\<lambda>_. True) lease_heap_empty m sample_calls = (TIDE_STATUS_OK, m', h')"
    "tide_mux_close (\<lambda>_. True) os1 (Some m') = (TIDE_STATUS_OK, os2)"
    "list_all (item_wf \<circ> call_item) sample_calls" "mx_movie_time_base m = \<lparr>numerator = 1, denominator = 1000\<rparr>" "mx_write_footer m"
    by (rule sample_session)
  from tide_mux_session_file [OF s(1,4,2,3)] s show ?thesis by auto
qed

text \<open>Writing a packet consumes it on every path of an open multiplexer, successful or not: the packet is left empty
  and the reference it held on its lease is released, so the accounting of leases is kept.\<close>

theorem tide_mux_write_packet_consumes:
  assumes "leases_owned h (R + lease_ref (pr_lease p))" and "\<not> mx_closed m"
  shows "\<exists>status m' h'. tide_mux_write_packet alloc h (Some m) (Some p) = (status, Some m', Some tide_packet_ref_init, h') \<and> leases_owned h' R"
  using leases.release_owned [OF assms(1)] assms(2)
  by (auto simp: tide_mux_write_packet_def tide_packet_ref_reset_def split: prod.split)

theorem tide_mux_write_packet_consumes_witness:
  "\<exists>status m' h'. tide_mux_write_packet (\<lambda>_. False) lease_heap_empty
     (Some \<lparr>mx_file = Some ''a'', mx_buffer = no_buffer, mx_limits = tide_limits_default, mx_movie_time_base = \<lparr>numerator = 1, denominator = 1\<rparr>,
       mx_sequence = 0, mx_closed = False, mx_write_footer = True, mx_error = tide_error_clear\<rparr>)
     (Some \<lparr>pr_info = sample_packet, pr_lease = None\<rparr>) = (status, Some m', Some tide_packet_ref_init, h') \<and> leases_owned h' {#}"
  by (rule tide_mux_write_packet_consumes) (simp_all add: leases_owned_empty)

end
