(* ===== verification/Tide_Demux.thy ===== *)
theory Tide_Demux
  imports Tide_Mux
begin

text \<open>
  The demultiplexer of \<open>src/demux/demux.c\<close>: opening it parses the whole source with callbacks that copy the
  streams, and the packets of the selected track, into the object; the client then takes the packets one by one.

  The callbacks work on the pair of the demultiplexer and the lease heap. \<open>dx_packets\<close> is the whole packet
  array, so its length is the C field \<open>packet_capacity\<close> and \<open>dx_packet_count\<close> says how many slots are in use;
  \<open>dx_streams\<close> and \<open>dx_configs\<close> hold the entries in use, the rest of those arrays being uninitialised.
  \<open>demux_inv\<close>: the unused slots are empty and the references in the slots are exactly the ones the heap accounts to it.
\<close>

subsection \<open>State and callbacks\<close>

record tide_demux =
  dx_source :: tide_source
  dx_error :: tide_error
  dx_streams :: "tide_stream_info list"
  dx_stream_capacity :: nat
  dx_configs :: "bytes option list"
  dx_packets :: "tide_packet_ref list"
  dx_packet_count :: nat
  dx_cursor :: nat
  dx_selected_track :: u32

abbreviation dx_stream_count :: "tide_demux \<Rightarrow> nat" where
  "dx_stream_count d \<equiv> length (dx_streams d)"

abbreviation dx_packet_capacity :: "tide_demux \<Rightarrow> nat" where
  "dx_packet_capacity d \<equiv> length (dx_packets d)"

record tide_demux_options =
  do_limits :: tide_limits
  do_selected_track :: u32
  do_strict :: bool

definition sizeof_demux :: nat where "sizeof_demux = 264"
definition sizeof_stream_info :: nat where "sizeof_stream_info = 40"
definition sizeof_packet_ref :: nat where "sizeof_packet_ref = 80"

definition tide_demux_add_stream :: "(nat \<Rightarrow> bool) \<Rightarrow> tide_demux \<Rightarrow> tide_stream_info \<Rightarrow> tide_status \<times> tide_demux" where
  "tide_demux_add_stream alloc d stream =
     (let next = (if dx_stream_capacity d = 0 then 8 else dx_stream_capacity d * 2) in
      if dx_stream_count d = dx_stream_capacity d \<and> \<not> (alloc (next * sizeof_stream_info) \<and> alloc (next * 8))
      then (TIDE_STATUS_RESOURCE, d)
      else let d = (if dx_stream_count d = dx_stream_capacity d then d\<lparr>dx_stream_capacity := next\<rparr> else d) in
      if si_config_size stream \<noteq> 0 \<and> \<not> alloc (si_config_size stream) then (TIDE_STATUS_RESOURCE, d)
      else let config_copy = (if si_config_size stream \<noteq> 0 then map_option (take (si_config_size stream)) (si_config stream) else None)
      in (TIDE_STATUS_OK, d\<lparr>dx_streams := dx_streams d @ [stream\<lparr>si_config := config_copy\<rparr>], dx_configs := dx_configs d @ [config_copy]\<rparr>))"

definition tide_demux_add_packet ::
    "(nat \<Rightarrow> bool) \<Rightarrow> lease_heap \<Rightarrow> tide_demux \<Rightarrow> tide_packet_info \<Rightarrow> tide_status \<times> tide_demux \<times> lease_heap" where
  "tide_demux_add_packet alloc h d packet =
     (if dx_selected_track d \<noteq> 0 \<and> pk_track_id packet \<noteq> dx_selected_track d then (TIDE_STATUS_OK, d, h)
      else let next = (if dx_packet_capacity d = 0 then 16 else dx_packet_capacity d * 2) in
      if dx_packet_count d = dx_packet_capacity d \<and> \<not> alloc (next * sizeof_packet_ref) then (TIDE_STATUS_RESOURCE, d, h)
      else let
        d = (if dx_packet_count d = dx_packet_capacity d
          then d\<lparr>dx_packets := dx_packets d @ replicate (next - dx_packet_capacity d) tide_packet_ref_init\<rparr> else d);
        (lease, h) = tide_payload_lease_create_copy alloc h (pv_data (pk_payload packet)) (pv_size (pk_payload packet))
      in if lease = None \<and> pv_size (pk_payload packet) \<noteq> 0 then (TIDE_STATUS_RESOURCE, d, h)
      else let view = \<lparr>pv_data = tide_payload_lease_data h lease, pv_size = tide_payload_lease_size h lease, pv_lease = lease\<rparr>
      in (TIDE_STATUS_OK, d\<lparr>dx_packets := (dx_packets d)[dx_packet_count d := \<lparr>pr_info = packet\<lparr>pk_payload := view\<rparr>, pr_lease = lease\<rparr>],
           dx_packet_count := dx_packet_count d + 1\<rparr>, h))"

type_synonym demux_user = "tide_demux \<times> lease_heap"

definition on_demux_stream :: "(nat \<Rightarrow> bool) \<Rightarrow> demux_user \<Rightarrow> tide_stream_info \<Rightarrow> tide_status \<times> demux_user" where
  "on_demux_stream alloc user stream =
     (case user of (d, h) \<Rightarrow> case tide_demux_add_stream alloc d stream of (status, d) \<Rightarrow> (status, (d, h)))"

definition on_demux_packet :: "(nat \<Rightarrow> bool) \<Rightarrow> demux_user \<Rightarrow> tide_packet_info \<Rightarrow> tide_status \<times> demux_user" where
  "on_demux_packet alloc user packet = (case user of (d, h) \<Rightarrow> tide_demux_add_packet alloc h d packet)"

definition on_demux_error :: "demux_user \<Rightarrow> tide_error \<Rightarrow> demux_user" where
  "on_demux_error user error = (case user of (d, h) \<Rightarrow> (d\<lparr>dx_error := error\<rparr>, h))"

definition demux_callbacks :: "(nat \<Rightarrow> bool) \<Rightarrow> demux_user tide_callbacks" where
  "demux_callbacks alloc = \<lparr>on_record = None, on_stream = Some (on_demux_stream alloc),
     on_packet = Some (on_demux_packet alloc), on_error = Some on_demux_error\<rparr>"

subsection \<open>Operations\<close>

text \<open>Closing frees the object, so what remains of it is the heap after its references are released.\<close>

definition tide_demux_close :: "lease_heap \<Rightarrow> tide_demux option \<Rightarrow> lease_heap" where
  "tide_demux_close h demux =
     (case demux of None \<Rightarrow> h | Some d \<Rightarrow> fold (\<lambda>p h. snd (tide_packet_ref_reset h p)) (dx_packets d) h)"

definition tide_demux_open ::
    "(nat \<Rightarrow> bool) \<Rightarrow> lease_heap \<Rightarrow> tide_demux option option \<Rightarrow> tide_source option \<Rightarrow> tide_demux_options option \<Rightarrow>
     tide_status \<times> tide_demux option option \<times> lease_heap" where
  "tide_demux_open alloc h out source options =
     (case (out, source) of
        (Some _, Some src) \<Rightarrow>
          if \<not> alloc sizeof_demux then (TIDE_STATUS_RESOURCE, Some None, h)
          else let
            limits = (case options of None \<Rightarrow> tide_limits_default
              | Some o' \<Rightarrow> if max_record_size (do_limits o') = 0 then tide_limits_default else do_limits o');
            d = \<lparr>dx_source = src, dx_error = tide_error_clear, dx_streams = [], dx_stream_capacity = 0, dx_configs = [], dx_packets = [],
              dx_packet_count = 0, dx_cursor = 0, dx_selected_track = (case options of None \<Rightarrow> 0 | Some o' \<Rightarrow> do_selected_track o')\<rparr>;
            (status, error, valid_prefix, (d, h)) = tide_parse_tide_bytes alloc (tide_source_data source) (tide_source_size source) True
              (Some limits) (Some (demux_callbacks alloc)) (d, h) (dx_error d) 0;
            d = d\<lparr>dx_error := error\<rparr>
          in if status \<noteq> TIDE_STATUS_OK \<and>
                \<not> (status = TIDE_STATUS_PARTIAL \<and> options \<noteq> None \<and> \<not> do_strict (the options))
             then (status, Some None, tide_demux_close h (Some d))
             else (status, Some (Some d), h)
      | _ \<Rightarrow> (TIDE_STATUS_INVALID_ARGUMENT, out, h))"

definition tide_demux_next ::
    "lease_heap \<Rightarrow> tide_demux option \<Rightarrow> tide_packet_ref option \<Rightarrow>
     tide_status \<times> tide_demux option \<times> tide_packet_ref option \<times> lease_heap" where
  "tide_demux_next h demux out =
     (case (demux, out) of
        (Some d, Some p) \<Rightarrow>
          if dx_cursor d \<ge> dx_packet_count d then (TIDE_STATUS_WOULD_BLOCK, demux, out, h)
          else (case tide_packet_ref_move h (Some p) (Some (dx_packets d ! dx_cursor d)) False of (status, p, slot, h) \<Rightarrow>
            (status, Some (d\<lparr>dx_packets := (dx_packets d)[dx_cursor d := the slot], dx_cursor := dx_cursor d + 1\<rparr>), p, h))
      | _ \<Rightarrow> (TIDE_STATUS_INVALID_ARGUMENT, demux, out, h))"

definition tide_demux_stream_count :: "tide_demux option \<Rightarrow> nat" where
  "tide_demux_stream_count demux = (case demux of None \<Rightarrow> 0 | Some d \<Rightarrow> dx_stream_count d)"

definition tide_demux_stream_info ::
    "tide_demux option \<Rightarrow> nat \<Rightarrow> tide_stream_info option \<Rightarrow> tide_status \<times> tide_stream_info option" where
  "tide_demux_stream_info demux index out =
     (case (demux, out) of
        (Some d, Some _) \<Rightarrow>
          if index \<ge> dx_stream_count d then (TIDE_STATUS_INVALID_ARGUMENT, out)
          else (TIDE_STATUS_OK, Some (dx_streams d ! index))
      | _ \<Rightarrow> (TIDE_STATUS_INVALID_ARGUMENT, out))"

definition tide_demux_last_error :: "tide_demux option \<Rightarrow> tide_error option" where
  "tide_demux_last_error demux = map_option dx_error demux"

subsection \<open>Ownership of the packets\<close>

definition demux_refs :: "tide_demux \<Rightarrow> nat multiset" where
  "demux_refs d = (\<Sum>p\<leftarrow>dx_packets d. lease_ref (pr_lease p))"

text \<open>What a slot shows of its payload is what its lease holds; an empty payload may have no lease.\<close>

definition slot_ok :: "lease_heap \<Rightarrow> tide_packet_ref \<Rightarrow> bool" where
  "slot_ok h p \<longleftrightarrow> pk_payload (pr_info p) = \<lparr>pv_data = tide_payload_lease_data h (pr_lease p),
     pv_size = tide_payload_lease_size h (pr_lease p), pv_lease = pr_lease p\<rparr>"

definition demux_inv :: "nat multiset \<Rightarrow> demux_user \<Rightarrow> bool" where
  "demux_inv R u \<longleftrightarrow> (case u of (d, h) \<Rightarrow>
     leases_owned h (R + demux_refs d) \<and> dx_cursor d \<le> dx_packet_count d \<and> dx_packet_count d \<le> dx_packet_capacity d \<and>
     (\<forall>p \<in> set (drop (dx_packet_count d) (dx_packets d)). p = tide_packet_ref_init) \<and> (\<forall>p \<in> set (dx_packets d). slot_ok h p))"

lemma slot_ok_init [simp]: "slot_ok h tide_packet_ref_init"
  by (simp add: slot_ok_def tide_packet_ref_init_def zero_packet_info_def tide_payload_lease_data_def tide_payload_lease_size_def)

lemma create_copy_fresh:
  assumes "tide_payload_lease_create_copy alloc h data n = (p, h')" and "b < lh_next h"
  shows "lh_leases h' b = lh_leases h b"
  using assms by (auto simp: tide_payload_lease_create_copy_def split: if_splits)

lemma create_copy_view:
  assumes "tide_payload_lease_create_copy alloc h data n = (Some a, h')" and "view_ok data n"
  shows "tide_payload_lease_data h' (Some a) = (if n = 0 then None else Some (view_bytes data n))" and "tide_payload_lease_size h' (Some a) = n"
  using assms by (auto simp: tide_payload_lease_create_copy_def tide_payload_lease_data_def tide_payload_lease_size_def
      view_ok_def view_bytes_def split: if_splits option.splits)

lemma leases_owned_less: "leases_owned h (R + lease_ref p) \<Longrightarrow> p = Some a \<Longrightarrow> a < lh_next h"
  using leases_owned_live [of h R p a] by (auto simp: leases_owned_def not_le [symmetric])

lemma demux_refs_member:
  assumes "p \<in> set (dx_packets d)"
  shows "\<exists>R'. demux_refs d = R' + lease_ref (pr_lease p)"
proof -
  obtain xs ys where "dx_packets d = xs @ p # ys" using assms by (meson split_list)
  then have "demux_refs d = (\<Sum>p\<leftarrow>xs @ ys. lease_ref (pr_lease p)) + lease_ref (pr_lease p)" by (simp add: demux_refs_def)
  then show ?thesis by blast
qed

lemma slot_ok_create:
  assumes "tide_payload_lease_create_copy alloc h data n = (l, h')" and "leases_owned h (R + demux_refs d)"
    and "p \<in> set (dx_packets d)" and "slot_ok h p"
  shows "slot_ok h' p"
proof (cases "pr_lease p")
  case None
  then show ?thesis using assms(4) by (simp add: slot_ok_def tide_payload_lease_data_def tide_payload_lease_size_def)
next
  case (Some a)
  obtain R' where "demux_refs d = R' + lease_ref (pr_lease p)" using demux_refs_member [OF assms(3)] by blast
  then have "leases_owned h ((R + R') + lease_ref (pr_lease p))" using assms(2) by (simp add: ac_simps)
  from leases_owned_less [OF this Some] have "lh_leases h' a = lh_leases h a" by (rule create_copy_fresh [OF assms(1)])
  then show ?thesis using assms(4) Some by (simp add: slot_ok_def tide_payload_lease_data_def tide_payload_lease_size_def)
qed

lemma demux_refs_grow [simp]: "demux_refs (d\<lparr>dx_packets := dx_packets d @ replicate n tide_packet_ref_init\<rparr>) = demux_refs d"
  by (induction n) (simp_all add: demux_refs_def)

lemma sum_refs_update:
  "i < length ps \<Longrightarrow> pr_lease (ps ! i) = None \<Longrightarrow>
     (\<Sum>p\<leftarrow>ps[i := q]. lease_ref (pr_lease p)) = (\<Sum>p\<leftarrow>ps. lease_ref (pr_lease p)) + lease_ref (pr_lease q)"
proof (induction ps arbitrary: i)
  case (Cons p ps)
  then show ?case by (cases i) (simp_all add: ac_simps)
qed simp

text \<open>The slots a demultiplexer has filled.\<close>

abbreviation dx_used :: "tide_demux \<Rightarrow> tide_packet_ref list" where
  "dx_used d \<equiv> take (dx_packet_count d) (dx_packets d)"

definition demux_selects :: "tide_demux \<Rightarrow> tide_packet_info \<Rightarrow> bool" where
  "demux_selects d p \<longleftrightarrow> dx_selected_track d = 0 \<or> pk_track_id p = dx_selected_track d"

definition demux_grown :: "tide_demux \<Rightarrow> tide_demux" where
  "demux_grown d = (if dx_packet_count d = dx_packet_capacity d then d\<lparr>dx_packets := dx_packets d @
     replicate ((if dx_packet_capacity d = 0 then 16 else dx_packet_capacity d * 2) - dx_packet_capacity d) tide_packet_ref_init\<rparr> else d)"

lemma demux_grown:
  assumes "demux_inv R (d, h)"
  shows "demux_inv R (demux_grown d, h)" and "dx_packet_count d < dx_packet_capacity (demux_grown d)"
    and "dx_used (demux_grown d) = dx_used d" and "dx_packet_count (demux_grown d) = dx_packet_count d"
    and "dx_streams (demux_grown d) = dx_streams d" and "dx_selected_track (demux_grown d) = dx_selected_track d"
    and "dx_cursor (demux_grown d) = dx_cursor d"
  using assms by (auto simp: demux_grown_def demux_inv_def)

lemma tide_demux_add_packet_cases:
  assumes inv: "demux_inv R (d, h)"
  obtains (skipped) "\<not> demux_selects d p" and "tide_demux_add_packet alloc h d p = (TIDE_STATUS_OK, d, h)"
  | (added) l h' where "demux_selects d p"
      and "tide_payload_lease_create_copy alloc h (pv_data (pk_payload p)) (pv_size (pk_payload p)) = (l, h')"
      and "l = None \<Longrightarrow> pv_size (pk_payload p) = 0"
      and "tide_demux_add_packet alloc h d p = (TIDE_STATUS_OK, (demux_grown d)\<lparr>dx_packets := (dx_packets (demux_grown d))[dx_packet_count d :=
        \<lparr>pr_info = p\<lparr>pk_payload := \<lparr>pv_data = tide_payload_lease_data h' l, pv_size = tide_payload_lease_size h' l, pv_lease = l\<rparr>\<rparr>, pr_lease = l\<rparr>],
        dx_packet_count := dx_packet_count d + 1\<rparr>, h')"
  | (failed) d' where "tide_demux_add_packet alloc h d p = (TIDE_STATUS_RESOURCE, d', h)" and "d' = d \<or> d' = demux_grown d"
      and "view_ok (pv_data (pk_payload p)) (pv_size (pk_payload p)) \<Longrightarrow> \<exists>m. \<not> alloc m"
proof -
  obtain l h' where c: "tide_payload_lease_create_copy alloc h (pv_data (pk_payload p)) (pv_size (pk_payload p)) = (l, h')" by fastforce
  have n: "l = None \<Longrightarrow> h' = h" using c by (auto simp: tide_payload_lease_create_copy_def split: if_splits)
  show thesis
  proof (cases "demux_selects d p")
    case False
    then show thesis by (intro skipped) (auto simp: demux_selects_def tide_demux_add_packet_def)
  next
    case True
    then have unsel: "(dx_selected_track d \<noteq> 0 \<and> pk_track_id p \<noteq> dx_selected_track d) = False" by (auto simp: demux_selects_def)
    let ?next = "if dx_packet_capacity d = 0 then 16 else dx_packet_capacity d * 2"
    show thesis
    proof (cases "dx_packet_count d = dx_packet_capacity d \<and> \<not> alloc (?next * sizeof_packet_ref)")
      case no_room: True
      then show thesis
        using unsel by (intro failed [of d]) (auto simp: tide_demux_add_packet_def Let_def)
    next
      case room: False
      have step: "tide_demux_add_packet alloc h d p = (if l = None \<and> pv_size (pk_payload p) \<noteq> 0 then (TIDE_STATUS_RESOURCE, demux_grown d, h')
          else (TIDE_STATUS_OK, (demux_grown d)\<lparr>dx_packets := (dx_packets (demux_grown d))[dx_packet_count d :=
            \<lparr>pr_info = p\<lparr>pk_payload := \<lparr>pv_data = tide_payload_lease_data h' l, pv_size = tide_payload_lease_size h' l, pv_lease = l\<rparr>\<rparr>, pr_lease = l\<rparr>],
            dx_packet_count := dx_packet_count d + 1\<rparr>, h'))"
        using room demux_grown(4) [OF inv]
        unfolding tide_demux_add_packet_def unsel if_False Let_def demux_grown_def [symmetric] c prod.case by auto
      show thesis
      proof (cases "l = None \<and> pv_size (pk_payload p) \<noteq> 0")
        case True
        then have "view_ok (pv_data (pk_payload p)) (pv_size (pk_payload p)) \<Longrightarrow> \<exists>m. \<not> alloc m"
          using c by (auto simp: tide_payload_lease_create_copy_def view_ok_def split: if_splits option.splits)
        then show thesis using True step n by (intro failed [of "demux_grown d"]) auto
      next
        case False
        then show thesis using step c \<open>demux_selects d p\<close> by (intro added [of l h']) auto
      qed
    qed
  qed
qed


lemma tide_demux_add_packet_inv:
  assumes inv: "demux_inv R (d, h)" and add: "tide_demux_add_packet alloc h d p = (status, u)"
  shows "demux_inv R u"
  using inv
proof (cases rule: tide_demux_add_packet_cases [where p = p and alloc = alloc])
  case skipped
  then show ?thesis using inv add by simp
next
  case (failed d')
  then show ?thesis using inv add demux_grown(1) [OF inv] by auto
next
  case (added l h')
  let ?g = "demux_grown d" and ?c = "dx_packet_count d"
  note g = demux_grown [OF inv]
  have own: "leases_owned h (R + demux_refs ?g)" and slots: "\<forall>q \<in> set (dx_packets ?g). slot_ok h q"
    and rest: "\<forall>q \<in> set (drop ?c (dx_packets ?g)). q = tide_packet_ref_init" using g(1,4) by (auto simp: demux_inv_def)
  have at: "dx_packets ?g ! ?c = tide_packet_ref_init"
    using rest g(2) by (auto simp: Cons_nth_drop_Suc [symmetric])
  let ?q = "\<lparr>pr_info = p\<lparr>pk_payload := \<lparr>pv_data = tide_payload_lease_data h' l, pv_size = tide_payload_lease_size h' l, pv_lease = l\<rparr>\<rparr>, pr_lease = l\<rparr>"
  let ?d = "?g\<lparr>dx_packets := (dx_packets ?g)[?c := ?q], dx_packet_count := ?c + 1\<rparr>"
  have "demux_refs ?d = demux_refs ?g + lease_ref l"
    using sum_refs_update [OF g(2), of ?q] at by (simp add: demux_refs_def)
  then have "leases_owned h' (R + demux_refs ?d)"
    using tide_payload_lease_create_copy_owned [OF own added(2)] by (simp add: ac_simps)
  moreover have "slot_ok h' r" if "r \<in> set (dx_packets ?d)" for r
  proof (cases "r = ?q")
    case True
    then show ?thesis by (simp add: slot_ok_def)
  next
    case False
    then have "r \<in> set (dx_packets ?g)" using that set_update_subset_insert [of "dx_packets ?g" ?c ?q] by auto
    then show ?thesis using slots slot_ok_create [OF added(2) own] by auto
  qed
  moreover have "\<forall>r \<in> set (drop (Suc ?c) (dx_packets ?d)). r = tide_packet_ref_init"
    using rest set_drop_subset_set_drop [of ?c "Suc ?c" "dx_packets ?g"] by auto
  ultimately show ?thesis
    using add added(4) g inv by (auto simp: demux_inv_def)
qed

lemma demux_inv_streams [simp]:
  "demux_inv R (d\<lparr>dx_streams := x\<rparr>, h) = demux_inv R (d, h)" "demux_inv R (d\<lparr>dx_configs := y\<rparr>, h) = demux_inv R (d, h)"
  "demux_inv R (d\<lparr>dx_stream_capacity := z\<rparr>, h) = demux_inv R (d, h)" "demux_inv R (d\<lparr>dx_error := e\<rparr>, h) = demux_inv R (d, h)"
  by (simp_all add: demux_inv_def demux_refs_def)

lemma tide_demux_add_stream_inv:
  assumes "demux_inv R (d, h)" and "tide_demux_add_stream alloc d stream = (status, d')"
  shows "demux_inv R (d', h)"
  using assms by (auto simp: tide_demux_add_stream_def Let_def split: if_splits)

subsection \<open>Opening and closing keep the accounting of leases\<close>

definition demux_state :: "(nat \<Rightarrow> bool) \<Rightarrow> nat multiset \<Rightarrow> demux_user tide_decoder_impl \<Rightarrow> bool" where
  "demux_state alloc R s \<longleftrightarrow> di_callbacks s = demux_callbacks alloc \<and> demux_inv R (di_user s) \<and>
     dx_cursor (fst (di_user s)) = 0"

lemma add_keeps_cursor:
  "tide_demux_add_stream alloc d stream = (status, d') \<Longrightarrow> dx_cursor d' = dx_cursor d"
  "tide_demux_add_packet alloc h d p = (status, d', h') \<Longrightarrow> dx_cursor d' = dx_cursor d"
  by (auto simp: tide_demux_add_stream_def tide_demux_add_packet_def Let_def split: if_splits prod.splits)

lemma demux_state_updates [simp]:
  "demux_state alloc R (s\<lparr>di_error := e\<rparr>) = demux_state alloc R s" "demux_state alloc R (s\<lparr>di_valid_prefix := v\<rparr>) = demux_state alloc R s"
  by (simp_all add: demux_state_def)

interpretation demux: decoder_invariant alloc' data "demux_state alloc R" for alloc' alloc data R
proof
  fix s :: "demux_user tide_decoder_impl" and f :: tide_record_frame
  assume c: "demux_state alloc R s"
  obtain d h where u: "di_user s = (d, h)" by (cases "di_user s")
  let ?p = "byte_span data (fr_payload_offset f) (fr_payload_end f)"
  show "demux_state alloc R (snd (tide_notify_record s (tide_event f)))"
    using c by (simp add: tide_notify_record_def demux_state_def demux_callbacks_def)
  show "demux_state alloc R (snd (tide_emit_stream alloc' s ?p f))"
  proof (cases rule: tide_emit_stream_cases [of alloc' s ?p f])
    case bad
    then show ?thesis using c by simp
  next
    case (refused stream r status s1)
    then show ?thesis using c tide_add_track_fail [OF refused(3,4)] by auto
  next
    case (added stream r s1)
    note a = tide_add_track_OK [OF added(4)]
    show ?thesis
      using c u a added tide_demux_add_stream_inv [of R d h alloc stream] add_keeps_cursor(1) [of alloc d stream]
      by (auto simp: demux_state_def demux_callbacks_def on_demux_stream_def split: prod.splits)
  qed
  show "demux_state alloc R (snd (tide_emit_packet s ?p f))"
  proof (cases rule: tide_emit_packet_cases [of s ?p f])
    case bad
    then show ?thesis using c by simp
  next
    case (good packet r)
    then show ?thesis
      using c u tide_demux_add_packet_inv [of R d h alloc packet] add_keeps_cursor(2) [of alloc h d packet]
      by (auto simp: demux_state_def demux_callbacks_def on_demux_packet_def split: prod.splits)
  qed
qed simp_all

lemma tide_demux_close_leases:
  assumes "leases_owned h (R + demux_refs d)"
  shows "leases_owned (tide_demux_close h (Some d)) R"
proof -
  have "tide_demux_close h (Some d) = fold (\<lambda>p h. tide_payload_lease_release h p) (map pr_lease (dx_packets d)) h"
    by (simp add: tide_demux_close_def tide_packet_ref_reset_def fold_map o_def)
  then show ?thesis using assms leases.release_all [of h R "map pr_lease (dx_packets d)"] by (simp add: demux_refs_def o_def)
qed

lemma tide_demux_close_owned: "demux_inv R (d, h) \<Longrightarrow> leases_owned (tide_demux_close h (Some d)) R"
  by (rule tide_demux_close_leases) (simp add: demux_inv_def)

text \<open>The outcomes of a call of \<open>tide_demux_open\<close> on a source.\<close>

definition demux_fresh :: "tide_source \<Rightarrow> u32 \<Rightarrow> tide_demux" where
  "demux_fresh src sel = \<lparr>dx_source = src, dx_error = tide_error_clear, dx_streams = [], dx_stream_capacity = 0, dx_configs = [],
     dx_packets = [], dx_packet_count = 0, dx_cursor = 0, dx_selected_track = sel\<rparr>"

definition demux_limits :: "tide_demux_options option \<Rightarrow> tide_limits" where
  "demux_limits options = (case options of None \<Rightarrow> tide_limits_default
     | Some o' \<Rightarrow> if max_record_size (do_limits o') = 0 then tide_limits_default else do_limits o')"

definition demux_track :: "tide_demux_options option \<Rightarrow> u32" where
  "demux_track options = (case options of None \<Rightarrow> 0 | Some o' \<Rightarrow> do_selected_track o')"

definition demux_keeps :: "tide_demux_options option \<Rightarrow> tide_status \<Rightarrow> bool" where
  "demux_keeps options status \<longleftrightarrow> status = TIDE_STATUS_OK \<or> status = TIDE_STATUS_PARTIAL \<and> options \<noteq> None \<and> \<not> do_strict (the options)"

lemma tide_demux_open_eq:
  assumes "alloc sizeof_demux"
    and "tide_parse_tide_bytes alloc (src_data src) (src_size src) True (Some (demux_limits options)) (Some (demux_callbacks alloc))
      (demux_fresh src (demux_track options), h) tide_error_clear 0 = (status, error, v, (d, h'))"
  shows "tide_demux_open alloc h (Some out) (Some src) options = (if demux_keeps options status
    then (status, Some (Some (d\<lparr>dx_error := error\<rparr>)), h') else (status, Some None, tide_demux_close h' (Some (d\<lparr>dx_error := error\<rparr>))))"
  using assms unfolding tide_demux_open_def demux_limits_def [symmetric] demux_track_def [symmetric]
  by (simp add: demux_fresh_def demux_keeps_def tide_source_data_def tide_source_size_def Let_def)

lemma demux_parse_inv:
  assumes "source_ok src" and "src_size src \<le> SIZE_MAX" and "leases_owned h R"
    and "tide_parse_tide_bytes alloc (src_data src) (src_size src) True (Some (demux_limits options)) (Some (demux_callbacks alloc))
      (demux_fresh src sel, h) e v = (status, error, v', u')"
  shows "demux_inv R u'" and "dx_cursor (fst u') = 0"
proof -
  have i: "demux_inv R (demux_fresh src sel, h)" using assms(3) by (simp add: demux_inv_def demux_fresh_def demux_refs_def)
  have eq: "tide_parse_tide_bytes alloc (src_data src) (src_size src) True (Some (demux_limits options)) (Some (demux_callbacks alloc))
      (demux_fresh src sel, h) e v = tide_parse_tide_bytes alloc (Some (source_bytes src)) (src_size src) True (Some (demux_limits options))
        (Some (demux_callbacks alloc)) (demux_fresh src sel, h) e v"
    using assms(1) by (cases "src_data src") (simp_all add: tide_parse_tide_bytes_def source_ok_def source_bytes_def)
  have n: "src_size src \<le> length (source_bytes src)" using assms(1) by (simp add: source_ok_def)
  from n assms(2) have "demux_inv R u' \<and> dx_cursor (fst u') = 0"
  proof (cases rule: tide_parse_tide_bytes_cases [where alloc = alloc and at_end = True and limits = "Some (demux_limits options)"
      and callbacks = "Some (demux_callbacks alloc)" and user = "(demux_fresh src sel, h)" and e = e and v = v])
    case header
    then show ?thesis using assms(4) eq i by (auto simp: demux_fresh_def)
  next
    case (records s st s')
    have "demux_state alloc R s" by (subst records(1)) (simp add: demux_state_def tide_decoder_fresh_def i, simp add: demux_fresh_def)
    then have "demux_state alloc R (snd (tide_parse_records alloc s (take (src_size src) (source_bytes src)) TIDE_HEADER_SIZE (src_size src) 0))"
      using n assms(2) records(2) by (intro demux.parse_kept) simp_all
    then show ?thesis using assms(4) eq records(3,4) by (simp add: demux_state_def)
  qed
  then show "demux_inv R u'" and "dx_cursor (fst u') = 0" by blast+
qed

subsection \<open>Taking packets\<close>

lemma slot_refresh: "slot_ok h p \<Longrightarrow> tide_packet_refresh h p = p"
  by (simp add: slot_ok_def tide_packet_refresh_def)

lemma sum_refs_remove:
  "i < length ps \<Longrightarrow> (\<Sum>p\<leftarrow>ps. lease_ref (pr_lease p)) =
     (\<Sum>p\<leftarrow>ps[i := tide_packet_ref_init]. lease_ref (pr_lease p)) + lease_ref (pr_lease (ps ! i))"
proof (induction ps arbitrary: i)
  case (Cons p ps)
  then show ?case by (cases i) (simp_all add: ac_simps)
qed simp

lemma tide_demux_next_spec:
  assumes inv: "demux_inv R (d, h)" and lt: "dx_cursor d < dx_packet_count d" and p: "pr_lease p = None"
  defines "q \<equiv> dx_packets d ! dx_cursor d"
  defines "d' \<equiv> d\<lparr>dx_packets := (dx_packets d)[dx_cursor d := tide_packet_ref_init], dx_cursor := dx_cursor d + 1\<rparr>"
  shows "tide_demux_next h (Some d) (Some p) = (TIDE_STATUS_OK, Some d', Some q, h)" and "demux_inv (R + lease_ref (pr_lease q)) (d', h)"
proof -
  have i: "dx_cursor d < length (dx_packets d)" using inv lt by (auto simp: demux_inv_def)
  have refs: "demux_refs d = demux_refs d' + lease_ref (pr_lease q)"
    using sum_refs_remove [OF i] by (simp add: demux_refs_def d'_def q_def)
  have own: "leases_owned h (R + demux_refs d)" using inv by (simp add: demux_inv_def)
  then have "leases_owned h ((R + demux_refs d') + lease_ref (pr_lease q))" using refs by (simp add: ac_simps)
  from lease_touch_owned [OF this] have t: "lease_touch h (pr_lease q) = h" .
  have slot: "slot_ok h q" using inv i by (simp add: demux_inv_def q_def)
  show "tide_demux_next h (Some d) (Some p) = (TIDE_STATUS_OK, Some d', Some q, h)"
    using lt p t slot_refresh [OF slot]
    by (simp add: tide_demux_next_def tide_packet_ref_move_def tide_packet_ref_reset_def tide_payload_lease_release_def q_def [symmetric] d'_def)
  have "set (dx_packets d') \<subseteq> insert tide_packet_ref_init (set (dx_packets d))" by (simp add: d'_def set_update_subset_insert)
  moreover have "drop (dx_packet_count d) (dx_packets d') = drop (dx_packet_count d) (dx_packets d)" using lt by (simp add: d'_def)
  moreover have "dx_cursor d' = dx_cursor d + 1" "dx_packet_count d' = dx_packet_count d" "length (dx_packets d') = length (dx_packets d)"
    by (simp_all add: d'_def)
  ultimately show "demux_inv (R + lease_ref (pr_lease q)) (d', h)"
    using inv lt refs by (auto simp: demux_inv_def ac_simps)
qed

text \<open>A client that takes every packet, looks at it and lets it go.\<close>

fun demux_drain :: "nat \<Rightarrow> lease_heap \<Rightarrow> tide_demux \<Rightarrow> tide_status \<times> tide_packet_info list \<times> tide_demux \<times> lease_heap" where
  "demux_drain 0 h d = (TIDE_STATUS_OK, [], d, h)"
| "demux_drain (Suc n) h d =
     (case tide_demux_next h (Some d) (Some tide_packet_ref_init) of (status, d', p, h) \<Rightarrow>
        if status \<noteq> TIDE_STATUS_OK then (status, [], the d', h)
        else case tide_packet_ref_reset h (the p) of (_, h) \<Rightarrow>
          case demux_drain n h (the d') of (status, ps, d', h) \<Rightarrow> (status, pr_info (the p) # ps, d', h))"

lemma leases_release_slot:
  assumes "leases_owned h ((R + demux_refs d) + lease_ref a)" and "q \<in> set (dx_packets d)" and "slot_ok h q"
  shows "slot_ok (tide_payload_lease_release h a) q"
proof (cases "pr_lease q")
  case None
  then show ?thesis using assms(3) by (simp add: slot_ok_def tide_payload_lease_data_def tide_payload_lease_size_def)
next
  case q: (Some b)
  obtain R' where "demux_refs d = R' + lease_ref (pr_lease q)" using demux_refs_member [OF assms(2)] by blast
  then have own: "leases_owned h ((R + R' + lease_ref a) + lease_ref (Some b))" using assms(1) q by (simp add: ac_simps)
  then obtain l where l: "lh_leases h b = Some l" using leases_owned_live by blast
  have "\<exists>l'. lh_leases (tide_payload_lease_release h a) b = Some l' \<and> ls_data l' = ls_data l \<and> ls_size l' = ls_size l"
  proof (cases "a = Some b")
    case False
    then show ?thesis using l by (auto simp: tide_payload_lease_release_def split: option.split)
  next
    case True
    have "lease_ok (R + R' + lease_ref a + lease_ref (Some b)) b (lh_leases h b)" using own by (simp add: leases_owned_def)
    then have "2 \<le> unat (ls_refcount l)" using True l by (simp add: lease_ok_def lease_ref_def)
    then have "ls_refcount l \<noteq> 1" by auto
    then show ?thesis using l True by (simp add: tide_payload_lease_release_def)
  qed
  then show ?thesis using assms(3) q l by (auto simp: slot_ok_def tide_payload_lease_data_def tide_payload_lease_size_def)
qed

lemma demux_inv_release:
  assumes "demux_inv (R + lease_ref a) (d, h)"
  shows "demux_inv R (d, tide_payload_lease_release h a)"
proof -
  have "leases_owned h ((R + demux_refs d) + lease_ref a)" using assms by (simp add: demux_inv_def ac_simps)
  then show ?thesis
    using assms leases.release_owned leases_release_slot unfolding demux_inv_def by fastforce
qed

text \<open>Induction over the packets that a client still has to take and let go.\<close>

lemma demux_induct [consumes 1, case_names finished step]:
  assumes "demux_inv R (d, h)"
    and "\<And>d h. demux_inv R (d, h) \<Longrightarrow> \<not> dx_cursor d < dx_packet_count d \<Longrightarrow> P d h"
    and "\<And>d h q d'. demux_inv R (d, h) \<Longrightarrow> dx_cursor d < dx_packet_count d \<Longrightarrow> q = dx_packets d ! dx_cursor d \<Longrightarrow>
      d' = d\<lparr>dx_packets := (dx_packets d)[dx_cursor d := tide_packet_ref_init], dx_cursor := dx_cursor d + 1\<rparr> \<Longrightarrow>
      tide_demux_next h (Some d) (Some tide_packet_ref_init) = (TIDE_STATUS_OK, Some d', Some q, h) \<Longrightarrow>
      demux_inv R (d', tide_payload_lease_release h (pr_lease q)) \<Longrightarrow>
      drop (dx_cursor d) (dx_used d) = q # drop (dx_cursor d') (dx_used d') \<Longrightarrow> P d' (tide_payload_lease_release h (pr_lease q)) \<Longrightarrow> P d h"
  shows "P d h"
  using assms(1)
proof (induction "dx_packet_count d - dx_cursor d" arbitrary: d h rule: less_induct)
  case less
  show ?case
  proof (cases "dx_cursor d < dx_packet_count d")
    case False
    then show ?thesis by (rule assms(2) [OF less.prems])
  next
    case True
    let ?q = "dx_packets d ! dx_cursor d"
    let ?d = "d\<lparr>dx_packets := (dx_packets d)[dx_cursor d := tide_packet_ref_init], dx_cursor := dx_cursor d + 1\<rparr>"
    note s = tide_demux_next_spec [OF less.prems True pr_lease_init]
    have inv: "demux_inv R (?d, tide_payload_lease_release h (pr_lease ?q))" by (rule demux_inv_release [OF s(2)])
    have "drop (dx_cursor d) (dx_used d) = ?q # drop (dx_cursor ?d) (dx_used ?d)"
      using True less.prems by (simp add: demux_inv_def Cons_nth_drop_Suc [symmetric] take_update_swap)
    then show ?thesis
      by (rule assms(3) [OF less.prems True refl refl s(1) inv]) (use less.hyps [OF _ inv] True in simp)
  qed
qed

lemma demux_drain_spec:
  assumes "demux_inv R (d, h)" and "dx_cursor d + n \<le> dx_packet_count d"
  shows "\<exists>d' h'. demux_drain n h d = (TIDE_STATUS_OK, map pr_info (take n (drop (dx_cursor d) (dx_packets d))), d', h') \<and> demux_inv R (d', h') \<and>
    dx_packet_count d' = dx_packet_count d \<and> dx_cursor d' = dx_cursor d + n"
  using assms
proof (induction n arbitrary: d h)
  case (Suc n)
  let ?q = "dx_packets d ! dx_cursor d"
  let ?d = "d\<lparr>dx_packets := (dx_packets d)[dx_cursor d := tide_packet_ref_init], dx_cursor := dx_cursor d + 1\<rparr>"
  have lt: "dx_cursor d < dx_packet_count d" "dx_cursor d < length (dx_packets d)" using Suc.prems by (auto simp: demux_inv_def)
  note s = tide_demux_next_spec [OF Suc.prems(1) lt(1) pr_lease_init]
  have "demux_inv R (?d, tide_payload_lease_release h (pr_lease ?q))" by (rule demux_inv_release [OF s(2)])
  from Suc.IH [OF this] Suc.prems(2)
  obtain d' h' where "demux_drain n (tide_payload_lease_release h (pr_lease ?q)) ?d =
      (TIDE_STATUS_OK, map pr_info (take n (drop (dx_cursor d + 1) (dx_packets d))), d', h')" "demux_inv R (d', h')"
      "dx_packet_count d' = dx_packet_count d" "dx_cursor d' = dx_cursor d + Suc n" by auto
  then show ?case
    using s(1) lt(2) by (auto simp: tide_packet_ref_reset_def Cons_nth_drop_Suc [symmetric])
qed simp

subsection \<open>What a demultiplexer collects\<close>

fun item_streams :: "mux_item list \<Rightarrow> tide_stream_info list" where
  "item_streams [] = []"
| "item_streams (Mux_Stream si # its) = si # item_streams its"
| "item_streams (Mux_Packet p # its) = item_streams its"

fun item_packets :: "mux_item list \<Rightarrow> tide_packet_info list" where
  "item_packets [] = []"
| "item_packets (Mux_Stream si # its) = item_packets its"
| "item_packets (Mux_Packet p # its) = p # item_packets its"

text \<open>A demultiplexer holds streams and packets, up to where the bytes are kept.\<close>

definition demux_holds :: "tide_demux \<Rightarrow> tide_stream_info list \<Rightarrow> tide_packet_info list \<Rightarrow> bool" where
  "demux_holds d ss ps \<longleftrightarrow> map stream_read_back (dx_streams d) = map stream_read_back ss \<and>
     map (packet_read_back \<circ> pr_info) (dx_used d) = map packet_read_back ps"

lemma view_ok_bytes: "view_ok data n \<Longrightarrow> view_ok (Some (view_bytes data n)) n"
  using length_view_bytes [of data n] by (simp add: view_ok_def)

lemma read_back_idem [simp]:
  "view_ok (si_config si) (si_config_size si) \<Longrightarrow> stream_read_back (stream_read_back si) = stream_read_back si"
  "packet_read_back (packet_read_back p) = packet_read_back p"
  by (simp_all add: stream_read_back_def packet_read_back_def view_bytes_def)

lemma add_stream_holds:
  assumes "\<And>m. alloc m" and "demux_holds d ss ps" and v: "view_ok (si_config si) (si_config_size si)"
  shows "\<exists>d'. tide_demux_add_stream alloc d (stream_read_back si) = (TIDE_STATUS_OK, d') \<and> demux_holds d' (ss @ [si]) ps \<and>
    dx_selected_track d' = dx_selected_track d \<and> dx_cursor d' = dx_cursor d"
  using assms by (auto simp: tide_demux_add_stream_def demux_holds_def Let_def stream_read_back_def view_bytes_def view_ok_def)

lemma add_packet_holds:
  assumes alloc: "\<And>m. alloc m" and inv: "demux_inv R (d, h)" and holds: "demux_holds d ss ps"
    and v: "view_ok (pv_data (pk_payload p)) (pv_size (pk_payload p))"
  shows "\<exists>d' h'. tide_demux_add_packet alloc h d (packet_read_back p) = (TIDE_STATUS_OK, d', h') \<and>
    demux_holds d' ss (ps @ filter (demux_selects d) [p]) \<and> dx_selected_track d' = dx_selected_track d \<and> dx_cursor d' = dx_cursor d"
  using inv
proof (cases rule: tide_demux_add_packet_cases [where p = "packet_read_back p" and alloc = alloc])
  case skipped
  then show ?thesis using holds by (auto simp: demux_selects_def packet_read_back_def)
next
  case failed
  then show ?thesis using alloc view_ok_bytes [OF v] by (simp add: packet_read_back_def)
next
  case (added l h')
  note g = demux_grown [OF inv]
  obtain a where l: "l = Some a"
    using added(2) alloc by (auto simp: tide_payload_lease_create_copy_def packet_read_back_def split: if_splits)
  have c: "tide_payload_lease_create_copy alloc h (Some (view_bytes (pv_data (pk_payload p)) (pv_size (pk_payload p)))) (pv_size (pk_payload p)) = (Some a, h')"
    using added(2) l by (simp add: packet_read_back_def)
  note w = create_copy_view [OF c view_ok_bytes [OF v]]
  let ?q = "\<lparr>pr_info = (packet_read_back p)\<lparr>pk_payload := \<lparr>pv_data = tide_payload_lease_data h' l, pv_size = tide_payload_lease_size h' l, pv_lease = l\<rparr>\<rparr>, pr_lease = l\<rparr>"
  have q: "packet_read_back (pr_info ?q) = packet_read_back p" using w l by (simp add: packet_read_back_def view_bytes_def)
  let ?d = "(demux_grown d)\<lparr>dx_packets := (dx_packets (demux_grown d))[dx_packet_count d := ?q], dx_packet_count := dx_packet_count d + 1\<rparr>"
  have used: "dx_used ?d = dx_used d @ [?q]" using g(2,3,4) by (simp add: take_Suc_conv_app_nth)
  have "demux_selects d p" using added(1) by (simp add: demux_selects_def packet_read_back_def)
  then have "demux_holds ?d ss (ps @ filter (demux_selects d) [p])"
    using holds q g(5) unfolding demux_holds_def used by simp
  then show ?thesis using added(4) g(6,7) by (intro exI [of _ ?d] exI [of _ h']) simp
qed

lemma demux_deliver:
  assumes alloc: "\<And>m. alloc m" and "list_all item_wf its" and "demux_inv R (d, h)" and "demux_holds d ss ps"
  shows "\<exists>d' h'. deliver (on_demux_stream alloc) (on_demux_packet alloc) (d, h) its = Some (d', h') \<and> demux_inv R (d', h') \<and>
    demux_holds d' (ss @ item_streams its) (ps @ filter (demux_selects d) (item_packets its)) \<and> dx_cursor d' = dx_cursor d"
  using assms(2-)
proof (induction its arbitrary: d h ss ps)
  case (Cons it its)
  show ?case
  proof (cases it)
    case (Mux_Stream si)
    obtain d1 where d1: "tide_demux_add_stream alloc d (stream_read_back si) = (TIDE_STATUS_OK, d1)" "demux_holds d1 (ss @ [si]) ps"
        "dx_selected_track d1 = dx_selected_track d" "dx_cursor d1 = dx_cursor d"
      using add_stream_holds [of alloc d ss ps si] alloc Cons.prems Mux_Stream by auto
    have "demux_selects d1 = demux_selects d" using d1(3) by (simp add: demux_selects_def fun_eq_iff)
    then show ?thesis
      using Cons.IH [OF _ tide_demux_add_stream_inv [OF Cons.prems(2) d1(1)] d1(2)] Cons.prems(1) d1(1,4) Mux_Stream
      by (auto simp: on_demux_stream_def)
  next
    case (Mux_Packet p)
    obtain d1 h1 where d1: "tide_demux_add_packet alloc h d (packet_read_back p) = (TIDE_STATUS_OK, d1, h1)"
        "demux_holds d1 ss (ps @ filter (demux_selects d) [p])" "dx_selected_track d1 = dx_selected_track d" "dx_cursor d1 = dx_cursor d"
      using add_packet_holds [of alloc R d h ss ps p] alloc Cons.prems Mux_Packet by auto
    have sel: "demux_selects d1 = demux_selects d" using d1(3) by (simp add: demux_selects_def fun_eq_iff)
    have "demux_inv R (d1, h1)" by (rule tide_demux_add_packet_inv [OF Cons.prems(2) d1(1)])
    from Cons.IH [OF _ this d1(2)] show ?thesis
      using Cons.prems(1) d1(1,4) Mux_Packet sel by (auto simp: on_demux_packet_def split: if_splits)
  qed
qed simp

lemma items_ok_wf: "items_ok lims ks its \<Longrightarrow> list_all item_wf its"
  by (induction lims ks its rule: items_ok.induct) auto

lemma demux_inv_fresh: "leases_owned h R \<Longrightarrow> demux_inv R (demux_fresh src sel, h)"
  by (simp add: demux_inv_def demux_fresh_def demux_refs_def)

lemma tide_parse_source:
  "source_ok src \<Longrightarrow> tide_parse_tide_bytes alloc (src_data src) (src_size src) end lims cbs u e v =
     tide_parse_tide_bytes alloc (Some (source_bytes src)) (src_size src) end lims cbs u e v"
  by (cases "src_data src") (simp_all add: tide_parse_tide_bytes_def source_ok_def source_bytes_def)

lemma demux_written_file:
  assumes alloc: "\<And>m. alloc m" and tb: "tide_rational_is_valid tb" and uuid: "length uuid = 16" "uuid \<noteq> replicate 16 0"
    and its: "items_ok (demux_limits options) [] its"
    and lims: "64 * 1024 * 1024 \<le> max_record_size (demux_limits options)" "payload_fits (demux_limits options) 49"
    and src: "source_ok src" "source_bytes src = tide_file_bytes tb uuid footer its" "src_size src \<le> SIZE_MAX" and own: "leases_owned h R"
  shows "\<exists>d h'. tide_demux_open alloc h (Some out) (Some src) options = (TIDE_STATUS_OK, Some (Some d), h') \<and> demux_inv R (d, h') \<and>
    demux_holds d (item_streams its) (filter (\<lambda>p. demux_track options = 0 \<or> pk_track_id p = demux_track options) (item_packets its)) \<and> dx_cursor d = 0"
proof -
  let ?d0 = "demux_fresh src (demux_track options)"
  have "demux_holds ?d0 [] []" by (simp add: demux_holds_def demux_fresh_def)
  then obtain d h' where del: "deliver (on_demux_stream alloc) (on_demux_packet alloc) (?d0, h) its = Some (d, h')" and inv: "demux_inv R (d, h')"
    and holds: "demux_holds d (item_streams its) (filter (demux_selects ?d0) (item_packets its))" and cur: "dx_cursor d = dx_cursor ?d0"
    using demux_deliver [of alloc its R ?d0 h "[]" "[]"] alloc items_ok_wf [OF its] demux_inv_fresh [OF own] by auto
  have len: "length (tide_file_bytes tb uuid footer its) = src_size src" using src by (simp add: source_ok_def)
  have cb: "on_record (demux_callbacks alloc) = None" "stream_handler (demux_callbacks alloc) = on_demux_stream alloc"
    "packet_handler (demux_callbacks alloc) = on_demux_packet alloc" by (simp_all add: demux_callbacks_def stream_handler_def packet_handler_def)
  obtain err where "tide_parse_tide_bytes alloc (Some (source_bytes src)) (src_size src) True (Some (demux_limits options)) (Some (demux_callbacks alloc))
      (?d0, h) tide_error_clear 0 = (TIDE_STATUS_OK, err, of_nat (src_size src), (d, h'))"
    using tide_file_parses [OF _ tb uuid lims its cb(1) del [folded cb(2,3)], of alloc footer True tide_error_clear 0] alloc src len by auto
  then have "tide_parse_tide_bytes alloc (src_data src) (src_size src) True (Some (demux_limits options)) (Some (demux_callbacks alloc))
      (?d0, h) tide_error_clear 0 = (TIDE_STATUS_OK, err, of_nat (src_size src), (d, h'))"
    by (simp only: tide_parse_source [OF src(1)])
  from tide_demux_open_eq [of alloc, OF alloc this, of out]
  have "tide_demux_open alloc h (Some out) (Some src) options = (TIDE_STATUS_OK, Some (Some (d\<lparr>dx_error := err\<rparr>)), h')"
    by (simp add: demux_keeps_def)
  moreover have "demux_selects ?d0 = (\<lambda>p. demux_track options = 0 \<or> pk_track_id p = demux_track options)"
    by (simp add: demux_selects_def demux_fresh_def fun_eq_iff)
  ultimately show ?thesis using inv holds cur by (auto simp: demux_holds_def demux_fresh_def)
qed

lemma tide_demux_open_outcome:
  assumes "source_ok src" and "src_size src \<le> SIZE_MAX" and "leases_owned h R"
    and "tide_demux_open alloc h (Some out) (Some src) options = (status, out', h')"
  shows "(\<exists>d. out' = Some (Some d) \<and> demux_keeps options status \<and> leases_owned h' (R + demux_refs d)) \<or>
    out' = Some None \<and> \<not> demux_keeps options status \<and> leases_owned h' R"
proof (cases "alloc sizeof_demux")
  case False
  then show ?thesis using assms(3,4) by (auto simp: tide_demux_open_def demux_keeps_def)
next
  case True
  obtain st err v d h1 where p: "tide_parse_tide_bytes alloc (src_data src) (src_size src) True (Some (demux_limits options)) (Some (demux_callbacks alloc))
      (demux_fresh src (demux_track options), h) tide_error_clear 0 = (st, err, v, (d, h1))"
    by (metis surj_pair)
  have inv: "demux_inv R (d\<lparr>dx_error := err\<rparr>, h1)" using demux_parse_inv(1) [OF assms(1-3) p] by simp
  then have "leases_owned h1 (R + demux_refs (d\<lparr>dx_error := err\<rparr>))" by (simp add: demux_inv_def)
  then show ?thesis
    using assms(4) tide_demux_open_eq [OF True p, of out] tide_demux_close_owned [OF inv]
    by (auto split: if_splits)
qed

subsection \<open>Properties\<close>

text \<open>Whatever bytes a source holds, opening a demultiplexer on it keeps the accounting of payload leases: after success the
  new references are exactly those of its packet slots, after a failure everything allocated on the way is released again.\<close>

theorem tide_demux_open_leases:
  assumes "source_ok src" and "src_size src \<le> SIZE_MAX" and "leases_owned h R"
    and "tide_demux_open alloc h (Some out) (Some src) options = (status, out', h')"
  shows "(\<exists>d. out' = Some (Some d) \<and> (status = TIDE_STATUS_OK \<or> status = TIDE_STATUS_PARTIAL) \<and> leases_owned h' (R + demux_refs d)) \<or>
    out' = Some None \<and> leases_owned h' R"
  using tide_demux_open_outcome [OF assms] by (auto simp: demux_keeps_def)

theorem tide_demux_open_leases_witness:
  "\<exists>status h'. tide_demux_open (\<lambda>_. True) lease_heap_empty (Some None) (Some \<lparr>src_data = Some [1, 2], src_size = 2, src_generation = 1\<rparr>) None =
     (status, Some None, h') \<and> leases_owned h' {#}"
proof -
  let ?src = "\<lparr>src_data = Some [1, 2], src_size = 2, src_generation = 1\<rparr> :: tide_source"
  obtain status out h' where o: "tide_demux_open (\<lambda>_. True) lease_heap_empty (Some None) (Some ?src) None = (status, out, h')"
    by (metis surj_pair)
  have "out = Some None"
    using o by (auto simp: tide_demux_open_def tide_source_data_def tide_source_size_def tide_parse_tide_bytes_def tide_validate_header_def
        TIDE_HEADER_SIZE_def Let_def)
  then show ?thesis
    using tide_demux_open_leases [OF _ _ leases_owned_empty o] o by (auto simp: source_ok_def source_bytes_def SIZE_MAX_def)
qed

lemma demux_holds_streams:
  assumes "demux_holds d ss ps"
  shows "tide_demux_stream_count (Some d) = length ss"
    and "i < length ss \<Longrightarrow> \<exists>si. tide_demux_stream_info (Some d) i (Some x) = (TIDE_STATUS_OK, Some si) \<and> stream_read_back si = stream_read_back (ss ! i)"
proof -
  have eq: "map stream_read_back (dx_streams d) = map stream_read_back ss" using assms by (simp add: demux_holds_def)
  show len: "tide_demux_stream_count (Some d) = length ss" using arg_cong [OF eq, of length] by (simp add: tide_demux_stream_count_def)
  show "\<exists>si. tide_demux_stream_info (Some d) i (Some x) = (TIDE_STATUS_OK, Some si) \<and> stream_read_back si = stream_read_back (ss ! i)" if "i < length ss"
    using that len arg_cong [OF eq, of "\<lambda>l. l ! i"] by (simp add: tide_demux_stream_count_def tide_demux_stream_info_def)
qed

text \<open>C1: streams and packets that were multiplexed to a file are what demultiplexing the file gives back, for a client whose
  limits admit them (and the 64 MiB record size that every written header announces): opening it succeeds, it lists exactly
  the same streams in the same order, taking its packets one by one gives exactly the packets of the selected track (or of
  all tracks) in the order they were written, with their times, flags and payload bytes, and the next request after the last
  of them reports WOULD_BLOCK and changes nothing.\<close>

theorem mux_demux_roundtrip:
  assumes "\<And>m. alloc m"
    and "tide_mux_create alloc os (Some None) (Some path) mux_options = (TIDE_STATUS_OK, Some (Some m), os1)"
    and "mux_calls alloc h m cs = (TIDE_STATUS_OK, m', h1)"
    and "tide_mux_close alloc os1 (Some m') = (TIDE_STATUS_OK, os2)"
    and "tide_source_from_file alloc os2 (Some None) (Some path) = (TIDE_STATUS_OK, Some (Some src))"
    and "items_ok (demux_limits options) [] (map call_item cs)"
    and "64 * 1024 * 1024 \<le> max_record_size (demux_limits options)" and "payload_fits (demux_limits options) 49"
    and "leases_owned h2 R"
  shows "\<exists>d h3 ps d' h4. tide_demux_open alloc h2 (Some None) (Some src) options = (TIDE_STATUS_OK, Some (Some d), h3) \<and>
    tide_demux_stream_count (Some d) = length (item_streams (map call_item cs)) \<and>
    (\<forall>i x. i < length (item_streams (map call_item cs)) \<longrightarrow> (\<exists>si. tide_demux_stream_info (Some d) i (Some x) = (TIDE_STATUS_OK, Some si) \<and>
       stream_read_back si = stream_read_back (item_streams (map call_item cs) ! i))) \<and>
    demux_drain (dx_packet_count d) h3 d = (TIDE_STATUS_OK, ps, d', h4) \<and>
    map packet_read_back ps = map packet_read_back
      (filter (\<lambda>p. demux_track options = 0 \<or> pk_track_id p = demux_track options) (item_packets (map call_item cs))) \<and>
    (\<forall>p. tide_demux_next h4 (Some d') (Some p) = (TIDE_STATUS_WOULD_BLOCK, Some d', Some p, h4))"
proof -
  let ?its = "map call_item cs"
  have wf: "list_all (item_wf \<circ> call_item) cs" using items_ok_wf [OF assms(6)] by (simp add: list.pred_map)
  have written: "os_files os2 path = Some (tide_file_bytes (mx_movie_time_base m) tide_mux_uuid (mx_write_footer m) ?its)"
    by (rule mux_session_writes [OF assms(2) wf assms(3,4)])
  have tb: "tide_rational_is_valid (mx_movie_time_base m)"
    by (rule tide_mux_create_holds [OF assms(2)]) (simp add: mux_holds_def)
  have src: "source_ok src \<and> source_bytes src = tide_file_bytes (mx_movie_time_base m) tide_mux_uuid (mx_write_footer m) ?its \<and> src_size src \<le> SIZE_MAX"
    by (rule tide_source_from_file_OK [OF assms(5)]) (use written in \<open>simp add: SIZE_MAX_def\<close>)
  obtain d h3 where o: "tide_demux_open alloc h2 (Some None) (Some src) options = (TIDE_STATUS_OK, Some (Some d), h3)" "demux_inv R (d, h3)"
    "demux_holds d (item_streams ?its) (filter (\<lambda>p. demux_track options = 0 \<or> pk_track_id p = demux_track options) (item_packets ?its))" "dx_cursor d = 0"
    using demux_written_file [OF _ tb tide_mux_uuid assms(6-8) _ _ _ assms(9), of alloc src "mx_write_footer m" None] src assms(1) by auto
  obtain d' h4 where drain: "demux_drain (dx_packet_count d) h3 d = (TIDE_STATUS_OK, map pr_info (dx_used d), d', h4)"
    "dx_packet_count d' = dx_packet_count d" "dx_cursor d' = dx_packet_count d"
    using demux_drain_spec [OF o(2), of "dx_packet_count d"] o(4) by auto
  have "tide_demux_next h4 (Some d') (Some p) = (TIDE_STATUS_WOULD_BLOCK, Some d', Some p, h4)" for p
    using drain(2,3) by (simp add: tide_demux_next_def)
  with o drain(1) demux_holds_streams [OF o(3)] show ?thesis by (auto simp: demux_holds_def)
qed

theorem mux_demux_roundtrip_witness:
  "\<exists>m os1 m' h1 os2 src d h3 si ps d' h4.
     tide_mux_create (\<lambda>_. True) sample_os (Some None) (Some ''a'') None = (TIDE_STATUS_OK, Some (Some m), os1) \<and>
     mux_calls (\<lambda>_. True) lease_heap_empty m sample_calls = (TIDE_STATUS_OK, m', h1) \<and>
     tide_mux_close (\<lambda>_. True) os1 (Some m') = (TIDE_STATUS_OK, os2) \<and>
     tide_source_from_file (\<lambda>_. True) os2 (Some None) (Some ''a'') = (TIDE_STATUS_OK, Some (Some src)) \<and>
     tide_demux_open (\<lambda>_. True) lease_heap_empty (Some None) (Some src) None = (TIDE_STATUS_OK, Some (Some d), h3) \<and>
     tide_demux_stream_count (Some d) = 1 \<and>
     tide_demux_stream_info (Some d) 0 (Some sample_stream) = (TIDE_STATUS_OK, Some si) \<and> stream_read_back si = sample_stream \<and>
     demux_drain (dx_packet_count d) h3 d = (TIDE_STATUS_OK, ps, d', h4) \<and> map packet_read_back ps = [sample_packet] \<and>
     tide_demux_next h4 (Some d') (Some tide_packet_ref_init) = (TIDE_STATUS_WOULD_BLOCK, Some d', Some tide_packet_ref_init, h4)"
proof -
  let ?a = "\<lambda>_ :: nat. True"
  obtain m os1 m' h1 os2 where s:
    "tide_mux_create ?a sample_os (Some None) (Some ''a'') None = (TIDE_STATUS_OK, Some (Some m), os1)"
    "mux_calls ?a lease_heap_empty m sample_calls = (TIDE_STATUS_OK, m', h1)"
    "tide_mux_close ?a os1 (Some m') = (TIDE_STATUS_OK, os2)"
    "list_all (item_wf \<circ> call_item) sample_calls" "mx_movie_time_base m = \<lparr>numerator = 1, denominator = 1000\<rparr>" "mx_write_footer m"
    "os2 = sample_os\<lparr>os_files := os_files os2\<rparr>" "length (the (os_files os2 ''a'')) \<le> 340"
    by (rule sample_session)
  obtain c where c: "os_files os2 ''a'' = Some c" "length c \<le> 340" using mux_session_writes [OF s(1,4,2,3)] s(8) by simp
  have "os_works os2 (length c)" by (subst s(7)) (use c(2) in \<open>simp add: os_works_def sample_os_def\<close>)
  from tide_source_from_file_works [of ?a, OF TrueI this c(1)] obtain src
    where f: "tide_source_from_file ?a os2 (Some None) (Some ''a'') = (TIDE_STATUS_OK, Some (Some src))" by blast
  have ok: "items_ok (demux_limits None) [] (map call_item sample_calls)" "64 * 1024 * 1024 \<le> max_record_size (demux_limits None)"
    "payload_fits (demux_limits None) 49"
    using sample_valid length_sample_payloads
    by (simp_all add: sample_calls_def demux_limits_def tide_limits_default_def payload_fits_def)
      (simp_all add: sample_stream_def sample_packet_def)
  have rb: "stream_read_back sample_stream = sample_stream" "packet_read_back sample_packet = sample_packet"
    by (simp_all add: stream_read_back_def packet_read_back_def sample_stream_def sample_packet_def view_bytes_def)
  have its: "item_streams (map call_item sample_calls) = [sample_stream]" "item_packets (map call_item sample_calls) = [sample_packet]"
    by (simp_all add: sample_calls_def)
  from mux_demux_roundtrip [of ?a, OF TrueI s(1-3) f ok leases_owned_empty] obtain d h3 ps d' h4 where w:
    "tide_demux_open ?a lease_heap_empty (Some None) (Some src) None = (TIDE_STATUS_OK, Some (Some d), h3)"
    "tide_demux_stream_count (Some d) = 1"
    "\<exists>si. tide_demux_stream_info (Some d) 0 (Some sample_stream) = (TIDE_STATUS_OK, Some si) \<and> stream_read_back si = sample_stream"
    "demux_drain (dx_packet_count d) h3 d = (TIDE_STATUS_OK, ps, d', h4)" "map packet_read_back ps = [sample_packet]"
    "tide_demux_next h4 (Some d') (Some tide_packet_ref_init) = (TIDE_STATUS_WOULD_BLOCK, Some d', Some tide_packet_ref_init, h4)"
    unfolding its by (auto simp: demux_track_def rb)
  from w(3) obtain si where "tide_demux_stream_info (Some d) 0 (Some sample_stream) = (TIDE_STATUS_OK, Some si)" "stream_read_back si = sample_stream" by blast
  with s(1-3) f w(1,2,4-6) show ?thesis by (intro exI conjI) assumption+
qed

lemma tide_demux_open_inv:
  assumes "source_ok src" and "src_size src \<le> SIZE_MAX" and "leases_owned h R"
    and "tide_demux_open alloc h (Some out) (Some src) options = (status, Some (Some d), h')"
  shows "demux_inv R (d, h')" and "dx_cursor d = 0" and "demux_keeps options status"
proof -
  have a: "alloc sizeof_demux" using assms(4) by (auto simp: tide_demux_open_def split: if_splits)
  obtain st err v d1 h1 where p: "tide_parse_tide_bytes alloc (src_data src) (src_size src) True (Some (demux_limits options)) (Some (demux_callbacks alloc))
      (demux_fresh src (demux_track options), h) tide_error_clear 0 = (st, err, v, (d1, h1))"
    by (metis surj_pair)
  have "demux_keeps options st \<and> status = st \<and> d = d1\<lparr>dx_error := err\<rparr> \<and> h' = h1"
    using assms(4) tide_demux_open_eq [OF a p, of out] by (auto split: if_splits)
  then show "demux_inv R (d, h')" "dx_cursor d = 0" "demux_keeps options status"
    using demux_parse_inv [OF assms(1-3) p] by simp_all
qed

text \<open>C18: a client that opens a demultiplexer on any source, takes any number of the packets it holds and closes it gets
  each of them, in order, and leaves the lease heap as it found it: nothing is leaked and no freed payload is touched.\<close>

theorem tide_demux_session_balanced:
  assumes "source_ok src" and "src_size src \<le> SIZE_MAX" and "leases_owned h R"
    and "tide_demux_open alloc h (Some out) (Some src) options = (status, Some (Some d), h1)" and "n \<le> dx_packet_count d"
  shows "\<exists>d' h2. demux_drain n h1 d = (TIDE_STATUS_OK, map pr_info (take n (dx_packets d)), d', h2) \<and>
    (n = dx_packet_count d \<longrightarrow> tide_demux_next h2 (Some d') (Some p) = (TIDE_STATUS_WOULD_BLOCK, Some d', Some p, h2)) \<and>
    leases_owned (tide_demux_close h2 (Some d')) R"
proof -
  note i = tide_demux_open_inv [OF assms(1-4)]
  obtain d' h2 where s: "demux_drain n h1 d = (TIDE_STATUS_OK, map pr_info (take n (dx_packets d)), d', h2)" "demux_inv R (d', h2)"
      "dx_packet_count d' = dx_packet_count d" "dx_cursor d' = n"
    using demux_drain_spec [OF i(1), of n] i(2) assms(5) by auto
  then show ?thesis using tide_demux_close_owned [OF s(2)] by (auto simp: tide_demux_next_def)
qed

theorem tide_demux_session_balanced_witness:
  "\<exists>status d h1 d' h2. tide_demux_open (\<lambda>_. True) lease_heap_empty (Some None) (Some \<lparr>src_data = Some [1, 2], src_size = 2, src_generation = 1\<rparr>)
      (Some \<lparr>do_limits = tide_limits_default, do_selected_track = 0, do_strict = False\<rparr>) = (status, Some (Some d), h1) \<and>
    demux_drain 0 h1 d = (TIDE_STATUS_OK, [], d', h2) \<and> leases_owned (tide_demux_close h2 (Some d')) {#}"
proof -
  let ?src = "\<lparr>src_data = Some [1, 2], src_size = 2, src_generation = 1\<rparr> :: tide_source"
  let ?o = "Some \<lparr>do_limits = tide_limits_default, do_selected_track = 0, do_strict = False\<rparr>"
  obtain status d h1 where o: "tide_demux_open (\<lambda>_. True) lease_heap_empty (Some None) (Some ?src) ?o = (status, Some (Some d), h1)"
    by (auto simp: tide_demux_open_def tide_source_data_def tide_source_size_def tide_parse_tide_bytes_def tide_validate_header_def
        TIDE_HEADER_SIZE_def Let_def)
  show ?thesis
    using tide_demux_session_balanced [OF _ _ leases_owned_empty o, of 0 tide_packet_ref_init] o by (auto simp: source_ok_def source_bytes_def SIZE_MAX_def)
qed

end
