(* ===== verification/Tide_Repair.thy ===== *)
theory Tide_Repair
  imports Tide_Demux
begin

text \<open>
  Recovery (\<open>src/repair/scanner.c\<close>): scanning finds the longest prefix of a source that the decoder accepts, and
  writing demultiplexes that prefix and multiplexes its streams and packets into a new file.

  The two copying loops, which the command line's \<open>remux\<close> also runs, are functions of their own; the packet
  loop ends because every call of \<open>tide_demux_next\<close> that succeeds moves the cursor towards the packet count.
\<close>

subsection \<open>State and operations\<close>

record tide_repair_plan =
  rp_source :: tide_source
  rp_valid_prefix :: u64
  rp_error :: tide_error

record tide_repair_options =
  ro_limits :: tide_limits
  ro_require_checkpoint :: bool

definition sizeof_repair_plan :: nat where "sizeof_repair_plan = 200"

definition tide_repair_scan ::
    "(nat \<Rightarrow> bool) \<Rightarrow> tide_source option \<Rightarrow> tide_repair_options option \<Rightarrow> tide_repair_plan option option \<Rightarrow>
     tide_status \<times> tide_repair_plan option option" where
  "tide_repair_scan alloc source options out =
     (case (out, source) of
        (Some _, Some src) \<Rightarrow>
          if \<not> alloc sizeof_repair_plan then (TIDE_STATUS_RESOURCE, Some None)
          else let
            limits = (case options of None \<Rightarrow> tide_limits_default
              | Some o' \<Rightarrow> if max_record_size (ro_limits o') = 0 then tide_limits_default else ro_limits o');
            (status, error, valid_prefix, user) = tide_parse_tide_bytes alloc (tide_source_data source) (tide_source_size source) True
              (Some limits) None () tide_error_clear 0
          in (status, Some (Some \<lparr>rp_source = src, rp_valid_prefix = valid_prefix, rp_error = error\<rparr>))
      | _ \<Rightarrow> (TIDE_STATUS_INVALID_ARGUMENT, out))"

text \<open>The local that \<open>tide_demux_stream_info\<close> stores through; its content is not read before.\<close>

definition unset_stream_info :: tide_stream_info where
  "unset_stream_info = \<lparr>si_track_id = 0, si_generation = 0, si_media_kind = 0, si_codec_tag = 0,
     si_time_base = \<lparr>numerator = 0, denominator = 0\<rparr>, si_config = None, si_config_size = 0\<rparr>"

fun tide_copy_streams ::
    "(nat \<Rightarrow> bool) \<Rightarrow> tide_demux option \<Rightarrow> tide_mux option \<Rightarrow> nat list \<Rightarrow> tide_status \<times> tide_mux option" where
  "tide_copy_streams alloc demux mux [] = (TIDE_STATUS_OK, mux)"
| "tide_copy_streams alloc demux mux (i # is) =
     (let (status, stream) = tide_demux_stream_info demux i (Some unset_stream_info);
          (status, mux) = (if status = TIDE_STATUS_OK then tide_mux_add_stream alloc mux stream else (status, mux))
      in if status \<noteq> TIDE_STATUS_OK then (status, mux) else tide_copy_streams alloc demux mux is)"

lemma tide_demux_next_progress:
  "tide_demux_next h (Some d) out = (TIDE_STATUS_OK, d', p, h') \<Longrightarrow> dx_packet_count (the d') - dx_cursor (the d') < dx_packet_count d - dx_cursor d"
  by (auto simp: tide_demux_next_def split: if_splits prod.splits option.splits)

function tide_copy_packets ::
    "(nat \<Rightarrow> bool) \<Rightarrow> lease_heap \<Rightarrow> tide_demux \<Rightarrow> tide_mux option \<Rightarrow> tide_status \<times> lease_heap \<times> tide_demux \<times> tide_mux option" where
  "tide_copy_packets alloc h d mux =
     (case tide_demux_next h (Some d) (Some tide_packet_ref_init) of (status, d', packet, h1) \<Rightarrow>
        if status = TIDE_STATUS_WOULD_BLOCK then (TIDE_STATUS_OK, h1, the d', mux)
        else if status \<noteq> TIDE_STATUS_OK then (status, snd (tide_packet_ref_reset h1 (the packet)), the d', mux)
        else case tide_mux_write_packet alloc h1 mux packet of (status, mux, packet, h2) \<Rightarrow>
          case tide_packet_ref_reset h2 (the packet) of (_, h3) \<Rightarrow>
            if status \<noteq> TIDE_STATUS_OK then (status, h3, the d', mux) else tide_copy_packets alloc h3 (the d') mux)"
  by pat_completeness auto

termination
  by (relation "measure (\<lambda>(alloc, h, d, mux). dx_packet_count d - dx_cursor d)") (auto dest!: tide_demux_next_progress [OF sym])

declare tide_copy_packets.simps [simp del]

text \<open>The options that \<open>tide_repair_write\<close> opens the demultiplexer with.\<close>

definition repair_demux_options :: tide_demux_options where
  "repair_demux_options = \<lparr>do_limits = tide_limits_default, do_selected_track = 0, do_strict = False\<rparr>"

text \<open>From the creation of the multiplexer to the cleanup at the end of \<open>tide_repair_write\<close>.\<close>

definition tide_repair_copy ::
    "(nat \<Rightarrow> bool) \<Rightarrow> lease_heap \<Rightarrow> tide_os \<Rightarrow> tide_demux \<Rightarrow> string option \<Rightarrow> tide_status \<times> tide_os \<times> lease_heap" where
  "tide_repair_copy alloc h os d path =
     (case tide_mux_create alloc os (Some None) path None of (status, mux, os) \<Rightarrow>
      if status \<noteq> TIDE_STATUS_OK then (status, os, tide_demux_close h (Some d))
      else case tide_copy_streams alloc (Some d) (the mux) [0..<tide_demux_stream_count (Some d)] of (status, mux) \<Rightarrow>
      if status \<noteq> TIDE_STATUS_OK then (status, tide_mux_abort os mux, tide_demux_close h (Some d))
      else case tide_copy_packets alloc h d mux of (status, h, d, mux) \<Rightarrow>
      if status \<noteq> TIDE_STATUS_OK then (status, tide_mux_abort os mux, tide_demux_close h (Some d))
      else case tide_mux_close alloc os mux of (status, os) \<Rightarrow> (status, os, tide_demux_close h (Some d)))"

definition tide_repair_write ::
    "(nat \<Rightarrow> bool) \<Rightarrow> lease_heap \<Rightarrow> tide_os \<Rightarrow> tide_repair_plan option \<Rightarrow> string option \<Rightarrow> tide_status \<times> tide_os \<times> lease_heap" where
  "tide_repair_write alloc h os plan path =
     (if plan = None \<or> path = None \<or> rp_valid_prefix (the plan) = 0 then (TIDE_STATUS_INVALID_ARGUMENT, os, h)
      else case tide_source_from_memory alloc (Some None) (tide_source_data (Some (rp_source (the plan)))) (unat (rp_valid_prefix (the plan))) of
        (status, prefix_source) \<Rightarrow>
      if status \<noteq> TIDE_STATUS_OK then (status, os, h)
      else case tide_demux_open alloc h (Some None) (the prefix_source) (Some repair_demux_options) of (status, demux, h) \<Rightarrow>
      let status = (if status = TIDE_STATUS_PARTIAL then TIDE_STATUS_OK else status) in
      if status \<noteq> TIDE_STATUS_OK then (status, os, tide_demux_close h (the demux))
      else tide_repair_copy alloc h os (the (the demux)) path)"

definition tide_repair_plan_valid_prefix :: "tide_repair_plan option \<Rightarrow> u64" where
  "tide_repair_plan_valid_prefix plan = (case plan of None \<Rightarrow> 0 | Some p \<Rightarrow> rp_valid_prefix p)"

definition tide_repair_plan_error :: "tide_repair_plan option \<Rightarrow> tide_error option" where
  "tide_repair_plan_error plan = map_option rp_error plan"

definition tide_repair_plan_destroy :: "tide_repair_plan option \<Rightarrow> tide_repair_plan option" where
  "tide_repair_plan_destroy plan = None"

subsection \<open>The copying loops\<close>

lemma release_None [simp]: "tide_payload_lease_release h None = h"
  by (simp add: tide_payload_lease_release_def)

text \<open>Writing a packet and resetting it afterwards releases its lease once, whatever the multiplexer does.\<close>

lemma write_packet_release:
  assumes "tide_mux_write_packet alloc h mux (Some q) = (status, mux', q', h')"
  shows "snd (tide_packet_ref_reset h' (the q')) = tide_payload_lease_release h (pr_lease q)" and "mux = Some m \<Longrightarrow> \<exists>m'. mux' = Some m'"
  using assms by (auto simp: tide_mux_write_packet_def tide_packet_ref_reset_def split: option.splits if_splits prod.splits)

lemma tide_copy_packets_cases:
  assumes inv: "demux_inv R (d, h)"
  obtains (finished) "\<not> dx_cursor d < dx_packet_count d" and "tide_copy_packets alloc h d mux = (TIDE_STATUS_OK, h, d, mux)"
  | (step) q d1 h1 status mux1 where "dx_cursor d < dx_packet_count d" and "q = dx_packets d ! dx_cursor d"
      and "d1 = d\<lparr>dx_packets := (dx_packets d)[dx_cursor d := tide_packet_ref_init], dx_cursor := dx_cursor d + 1\<rparr>"
      and "demux_inv R (d1, h1)" and "h1 = tide_payload_lease_release h (pr_lease q)"
      and "\<exists>q' h'. tide_mux_write_packet alloc h mux (Some q) = (status, mux1, q', h')"
      and "tide_copy_packets alloc h d mux = (if status \<noteq> TIDE_STATUS_OK then (status, h1, d1, mux1) else tide_copy_packets alloc h1 d1 mux1)"
proof (cases "dx_cursor d < dx_packet_count d")
  case False
  then show thesis by (intro finished) (simp_all add: tide_copy_packets.simps [of alloc h d] tide_demux_next_def)
next
  case True
  let ?q = "dx_packets d ! dx_cursor d" and ?h = "tide_payload_lease_release h (pr_lease (dx_packets d ! dx_cursor d))"
  let ?d = "d\<lparr>dx_packets := (dx_packets d)[dx_cursor d := tide_packet_ref_init], dx_cursor := dx_cursor d + 1\<rparr>"
  note n = tide_demux_next_spec [OF inv True pr_lease_init]
  obtain status mux1 q' h' where w: "tide_mux_write_packet alloc h mux (Some ?q) = (status, mux1, q', h')" by (metis surj_pair)
  have "demux_inv R (?d, ?h)" by (rule demux_inv_release [OF n(2)])
  moreover have "tide_copy_packets alloc h d mux = (if status \<noteq> TIDE_STATUS_OK then (status, ?h, ?d, mux1) else tide_copy_packets alloc ?h ?d mux1)"
    using write_packet_release(1) [OF w]
    by (subst tide_copy_packets.simps) (cases "tide_packet_ref_reset h' (the q')", simp add: n(1) w)
  ultimately show thesis using True w by (intro step [of ?q ?d ?h status mux1]) auto
qed

lemma tide_copy_packets_keeps:
  assumes "demux_inv R (d, h)" and "tide_copy_packets alloc h d mux = (status, h', d', mux')"
  shows "demux_inv R (d', h') \<and> dx_streams d' = dx_streams d"
  using assms
proof (induction d h arbitrary: mux rule: demux_induct)
  case (finished d h)
  then show ?case by (simp add: tide_copy_packets.simps [of alloc h d] tide_demux_next_def)
next
  case (step d h q d1)
  from step(1) show ?case
    by (cases rule: tide_copy_packets_cases [where alloc = alloc and mux = mux]) (use step in \<open>auto split: if_splits\<close>)
qed

lemmas tide_copy_packets_inv = tide_copy_packets_keeps [THEN conjunct1]
  and tide_copy_packets_streams = tide_copy_packets_keeps [THEN conjunct2]

lemma mux_do_heap: "fst (mux_do alloc h m c) = fst (mux_do alloc h' m c) \<and> fst (snd (mux_do alloc h m c)) = fst (snd (mux_do alloc h' m c))"
  by (cases c) (auto simp: tide_mux_write_packet_def split: prod.splits)

text \<open>The loops are sequences of multiplexer calls, which do not depend on the lease heap.\<close>

lemma tide_copy_streams_calls:
  assumes "list_all (\<lambda>i. i < dx_stream_count d) is"
    and "mux_calls alloc h m (map (\<lambda>i. Add_Stream (dx_streams d ! i)) is) = (status, m', h')"
  shows "tide_copy_streams alloc (Some d) (Some m) is = (status, Some m')"
  using assms
proof (induction "is" arbitrary: m)
  case (Cons i "is")
  obtain st mux1 where a: "tide_mux_add_stream alloc (Some m) (Some (dx_streams d ! i)) = (st, mux1)" by fastforce
  obtain m1 where m1: "mux1 = Some m1" using a by (auto simp: tide_mux_add_stream_def apsnd_def map_prod_def split_beta split: if_splits)
  show ?case using Cons a m1 by (auto simp: tide_demux_stream_info_def split: if_splits)
qed simp

lemma tide_copy_packets_calls:
  assumes "demux_inv R (d, h)" and "mux_calls alloc h0 m (map Write_Packet (drop (dx_cursor d) (dx_used d))) = (status, m', h0')"
  shows "\<exists>h' d'. tide_copy_packets alloc h d (Some m) = (status, h', d', Some m')"
  using assms
proof (induction "dx_packet_count d - dx_cursor d" arbitrary: d h h0 m rule: less_induct)
  case less
  from less.prems(1) show ?case
  proof (cases rule: tide_copy_packets_cases [where alloc = alloc and mux = "Some m"])
    case finished
    then show ?thesis using less.prems(2) by simp
  next
    case (step q d1 h1 st mux1)
    have len: "dx_packet_count d \<le> length (dx_packets d)" using less.prems(1) by (simp add: demux_inv_def)
    have dr: "drop (dx_cursor d) (dx_used d) = q # drop (dx_cursor d1) (dx_used d1)"
      using step(1,2,3) len by (simp add: Cons_nth_drop_Suc [symmetric] take_update_swap)
    obtain q' h2 where w: "tide_mux_write_packet alloc h (Some m) (Some q) = (st, mux1, q', h2)" using step(6) by blast
    obtain m1 where m1: "mux1 = Some m1" using write_packet_release(2) [OF w] by blast
    obtain h3 where c: "mux_do alloc h0 m (Write_Packet q) = (st, m1, h3)"
      using mux_do_heap [of alloc h0 m "Write_Packet q" h] w m1 by (cases "mux_do alloc h0 m (Write_Packet q)") simp
    show ?thesis
      using less.hyps [OF _ step(4), of h3 m1] less.prems(2) step(1,3,7) m1 c dr by (auto split: if_splits)
  qed
qed

lemma tide_copy_packets_holds:
  assumes "demux_inv R (d, h)" and "mux_holds m its" and "list_all (item_wf \<circ> Mux_Packet \<circ> pr_info) (drop (dx_cursor d) (dx_used d))"
    and "tide_copy_packets alloc h d (Some m) = (TIDE_STATUS_OK, h', d', mux')"
  shows "\<exists>m'. mux' = Some m' \<and> same_mux m m' \<and> mux_holds m' (its @ map (Mux_Packet \<circ> pr_info) (drop (dx_cursor d) (dx_used d)))"
proof -
  let ?cs = "map Write_Packet (drop (dx_cursor d) (dx_used d))"
  obtain st m' h0 where c: "mux_calls alloc h m ?cs = (st, m', h0)" by (metis surj_pair)
  with tide_copy_packets_calls [OF assms(1) this] assms(4) have "st = TIDE_STATUS_OK" "mux' = Some m'" by auto
  moreover have "list_all (item_wf \<circ> call_item) ?cs" using assms(3) by (simp add: list.pred_map comp_def)
  ultimately show ?thesis using mux_calls_hold [OF assms(2) _ c [unfolded \<open>st = TIDE_STATUS_OK\<close>]] by (auto simp: comp_def)
qed

lemma tide_copy_streams_holds:
  assumes "mux_holds m its" and "list_all (\<lambda>i. i < dx_stream_count d \<and> item_wf (Mux_Stream (dx_streams d ! i))) is"
    and "tide_copy_streams alloc (Some d) (Some m) is = (TIDE_STATUS_OK, mux')"
  shows "\<exists>m'. mux' = Some m' \<and> same_mux m m' \<and> mux_holds m' (its @ map (\<lambda>i. Mux_Stream (dx_streams d ! i)) is)"
proof -
  let ?cs = "map (\<lambda>i. Add_Stream (dx_streams d ! i)) is"
  obtain st m' h0 where c: "mux_calls alloc lease_heap_empty m ?cs = (st, m', h0)" by (metis surj_pair)
  have "tide_copy_streams alloc (Some d) (Some m) is = (st, Some m')"
    using assms(2) by (intro tide_copy_streams_calls [OF _ c]) (simp add: list_all_iff)
  then have st: "st = TIDE_STATUS_OK" "mux' = Some m'" using assms(3) by auto
  have "list_all (item_wf \<circ> call_item) ?cs" using assms(2) by (simp add: list.pred_map comp_def list_all_iff)
  then show ?thesis using mux_calls_hold [OF assms(1) _ c [unfolded st(1)]] st(2) by (auto simp: comp_def)
qed

subsection \<open>What a parse puts into a demultiplexer can be multiplexed again\<close>

definition stream_key :: "tide_stream_info \<Rightarrow> u32 \<times> u32" where
  "stream_key si = (si_track_id si, si_generation si)"

definition packet_track :: "tide_packet_info \<Rightarrow> u32 \<times> u32" where
  "packet_track p = (pk_track_id p, pk_generation p)"

definition demux_valid :: "(u32 \<times> u32) set \<Rightarrow> tide_demux \<Rightarrow> bool" where
  "demux_valid keys d \<longleftrightarrow> (\<forall>si \<in> set (dx_streams d). item_wf (Mux_Stream si)) \<and> distinct (map stream_key (dx_streams d)) \<and>
     stream_key ` set (dx_streams d) = keys \<and> (\<forall>p \<in> set (dx_used d). item_wf (Mux_Packet (pr_info p)) \<and> packet_track (pr_info p) \<in> keys)"

definition demux_full :: "(nat \<Rightarrow> bool) \<Rightarrow> nat multiset \<Rightarrow> bytes \<Rightarrow> demux_user tide_decoder_impl \<Rightarrow> bool" where
  "demux_full alloc R data s \<longleftrightarrow> (\<forall>m. alloc m) \<and> length data < 2 ^ 61 \<and> demux_state alloc R s \<and> tracks_ok s \<and>
     demux_valid (track_key ` set (di_tracks s)) (fst (di_user s))"

lemma add_stream_valid:
  assumes "\<And>m. alloc m" and "demux_valid keys d" and "item_wf (Mux_Stream si)" and "stream_key si \<notin> keys"
  shows "\<exists>d'. tide_demux_add_stream alloc d si = (TIDE_STATUS_OK, d') \<and> demux_valid (insert (stream_key si) keys) d'"
  using assms by (auto simp: tide_demux_add_stream_def demux_valid_def Let_def stream_key_def view_ok_def split: option.splits)

lemma add_packet_valid:
  assumes alloc: "\<And>m. alloc m" and inv: "demux_inv R (d, h)" and valid: "demux_valid keys d"
    and p: "item_wf (Mux_Packet p)" "packet_track p \<in> keys"
  shows "\<exists>d' h'. tide_demux_add_packet alloc h d p = (TIDE_STATUS_OK, d', h') \<and> demux_valid keys d'"
  using inv
proof (cases rule: tide_demux_add_packet_cases [where p = p and alloc = alloc])
  case skipped
  then show ?thesis using valid by auto
next
  case failed
  then show ?thesis using alloc p by simp
next
  case (added l h')
  note g = demux_grown [OF inv]
  have v: "view_ok (pv_data (pk_payload p)) (pv_size (pk_payload p))" using p by simp
  obtain a where l: "l = Some a"
    using added(2) alloc v by (auto simp: tide_payload_lease_create_copy_def view_ok_def split: if_splits option.splits)
  note w = create_copy_view [OF added(2) [unfolded l] v]
  let ?q = "\<lparr>pr_info = p\<lparr>pk_payload := \<lparr>pv_data = tide_payload_lease_data h' l, pv_size = tide_payload_lease_size h' l, pv_lease = l\<rparr>\<rparr>, pr_lease = l\<rparr>"
  let ?d = "(demux_grown d)\<lparr>dx_packets := (dx_packets (demux_grown d))[dx_packet_count d := ?q], dx_packet_count := dx_packet_count d + 1\<rparr>"
  have used: "dx_used ?d = dx_used d @ [?q]" using g(2,3,4) by (simp add: take_Suc_conv_app_nth)
  have "item_wf (Mux_Packet (pr_info ?q))" "packet_track (pr_info ?q) = packet_track p"
    using p w l view_ok_bytes [OF v] by (simp_all add: packet_track_def) (simp add: view_ok_def)
  then have "demux_valid keys ?d" using valid p(2) g(5) unfolding demux_valid_def used by auto
  then show ?thesis using added(4) by blast
qed

lemma record_payload_length: "record_valid data f \<Longrightarrow> length (fr_payload data f) \<le> length data"
  by (simp add: byte_span_def)

lemma demux_full_updates [simp]:
  "demux_full alloc R data (s\<lparr>di_error := e\<rparr>) = demux_full alloc R data s"
  "demux_full alloc R data (s\<lparr>di_valid_prefix := v\<rparr>) = demux_full alloc R data s"
  by (simp_all add: demux_full_def)

interpretation full: decoder_invariant alloc' data "demux_full alloc R data" for alloc' alloc data R
proof
  fix s :: "demux_user tide_decoder_impl" and f :: tide_record_frame
  assume c: "demux_full alloc R data s" and rv: "record_valid data f"
  obtain d h where u: "di_user s = (d, h)" by (cases "di_user s")
  have ds: "demux_state alloc R s" "tracks_ok s" "\<And>m. alloc m" "length data < 2 ^ 61" using c by (simp_all add: demux_full_def)
  have valid: "demux_valid (track_key ` set (di_tracks s)) d" using c u by (simp add: demux_full_def)
  show "demux_full alloc R data (snd (tide_notify_record s (tide_event f)))"
    using c by (simp add: tide_notify_record_def demux_full_def demux_state_def demux_callbacks_def)
  show "demux_full alloc R data (snd (tide_emit_stream alloc' s (fr_payload data f) f))" if t: "fr_type f = TIDE_RECORD_STREAM_DESC"
  proof (cases rule: tide_emit_stream_cases [of alloc' s "fr_payload data f" f])
    case bad
    then show ?thesis using c by simp
  next
    case (refused stream r status s1)
    then show ?thesis using c tide_add_track_fail [OF refused(3,4)] by auto
  next
    case (added stream r s1)
    note a = tide_add_track_OK [OF added(4)]
    have "item_wf (Mux_Stream stream)"
      using tide_read_stream_view [OF added(1)] added(3) record_payload_length [OF rv] ds(4) by (auto simp: view_ok_def)
    moreover have "stream_key stream \<notin> track_key ` set (di_tracks s)" using a(1) by (simp add: stream_key_def)
    ultimately obtain d1 where d1: "tide_demux_add_stream alloc d stream = (TIDE_STATUS_OK, d1)"
        "demux_valid (insert (stream_key stream) (track_key ` set (di_tracks s))) d1"
      using add_stream_valid [of alloc "track_key ` set (di_tracks s)" d stream] ds(3) valid by blast
    have "snd (tide_emit_stream alloc' s (fr_payload data f) f) = s1\<lparr>di_user := (d1, h)\<rparr>"
      using added(5) a ds(1) u d1(1) by (simp add: demux_state_def demux_callbacks_def on_demux_stream_def)
    moreover have "insert (stream_key stream) (track_key ` set (di_tracks s)) = track_key ` set (di_tracks s1)"
      using a(2) by (simp add: stream_key_def)
    ultimately show ?thesis
      using demux.stream_kept [OF ds(1) rv t, of alloc'] tracks.stream_kept [OF ds(2) rv t, of alloc'] ds(3,4) d1(2)
      by (simp add: demux_full_def)
  qed
  show "demux_full alloc R data (snd (tide_emit_packet s (fr_payload data f) f))" if t: "fr_type f = TIDE_RECORD_PACKET"
  proof (cases rule: tide_emit_packet_cases [of s "fr_payload data f" f])
    case bad
    then show ?thesis using c by simp
  next
    case (good packet r)
    have "item_wf (Mux_Packet packet)"
      using tide_read_packet_view [OF good(1)] good(3) record_payload_length [OF rv] ds(4) by (auto simp: view_ok_def)
    moreover have "packet_track packet \<in> track_key ` set (di_tracks s)"
      using good(4) by (simp only: tide_find_track_None not_not packet_track_def)
    moreover have "demux_inv R (d, h)" using ds(1) u by (simp add: demux_state_def)
    ultimately obtain d1 h1 where d1: "tide_demux_add_packet alloc h d packet = (TIDE_STATUS_OK, d1, h1)"
        "demux_valid (track_key ` set (di_tracks s)) d1"
      using add_packet_valid [of alloc R d h "track_key ` set (di_tracks s)" packet] ds(3) valid by blast
    have "snd (tide_emit_packet s (fr_payload data f) f) = s\<lparr>di_user := (d1, h1)\<rparr>"
      using good(5) ds(1) u d1(1) by (simp add: demux_state_def demux_callbacks_def on_demux_packet_def)
    then show ?thesis
      using demux.packet_kept [OF ds(1) rv t] ds d1(2) by (simp add: demux_full_def)
  qed
qed simp_all

lemma demux_open_valid:
  assumes "\<And>m. alloc m" and "source_ok src" and "src_size src < 2 ^ 61" and "leases_owned h R"
    and "tide_demux_open alloc h (Some out) (Some src) options = (status, Some (Some d), h')"
  shows "\<exists>keys. demux_valid keys d" and "dx_stream_count d \<le> unat (max_tracks (demux_limits options))"
proof -
  obtain st err v d1 h1 where p: "tide_parse_tide_bytes alloc (src_data src) (src_size src) True (Some (demux_limits options)) (Some (demux_callbacks alloc))
      (demux_fresh src (demux_track options), h) tide_error_clear 0 = (st, err, v, (d1, h1))"
    by (metis surj_pair)
  note p' = p [unfolded tide_parse_source [OF assms(2)]]
  have d: "d = d1\<lparr>dx_error := err\<rparr>"
    using assms(5) tide_demux_open_eq [of alloc, OF assms(1) p, of out] by (auto split: if_splits)
  have n: "src_size src \<le> length (source_bytes src)" "src_size src \<le> SIZE_MAX" using assms(2,3) by (simp_all add: source_ok_def SIZE_MAX_def)
  have "\<exists>keys. demux_valid keys d1 \<and> dx_stream_count d1 \<le> unat (max_tracks (demux_limits options))"
    using n
  proof (cases rule: tide_parse_tide_bytes_cases [where alloc = alloc and at_end = True and limits = "Some (demux_limits options)"
      and callbacks = "Some (demux_callbacks alloc)" and user = "(demux_fresh src (demux_track options), h)" and e = tide_error_clear and v = 0])
    case header
    then have "d1 = demux_fresh src (demux_track options)" using p' by simp
    then show ?thesis by (simp add: demux_valid_def demux_fresh_def)
  next
    case (records s st' s')
    let ?data = "take (src_size src) (source_bytes src)"
    have i: "demux_inv R (demux_fresh src (demux_track options), h)" by (rule demux_inv_fresh [OF assms(4)])
    have "length ?data < 2 ^ 61" using assms(3) by simp
    then have "demux_full alloc R ?data s"
      using assms(1) i by (subst records(1)) (simp add: demux_full_def demux_state_def tide_decoder_fresh_def tracks_ok_def demux_valid_def demux_fresh_def)
    then have full: "demux_full alloc R ?data s'"
      using full.parse_kept [of alloc R ?data s "src_size src" TIDE_HEADER_SIZE alloc 0] n records(2,3) by simp
    have cfg: "same_config s s'"
      using config.parse_kept [of s s "src_size src" TIDE_HEADER_SIZE ?data alloc 0] n records(2,3) by (simp add: same_config_def)
    have lims: "di_limits s' = demux_limits options"
      using cfg by (subst (asm) records(1)) (simp add: same_config_def tide_decoder_fresh_def)
    have u: "fst (di_user s') = d1" using p' records(4) by simp
    have v: "demux_valid (track_key ` set (di_tracks s')) d1" and t: "tracks_ok s'" using full u by (simp_all add: demux_full_def)
    have "dx_stream_count d1 = card (track_key ` set (di_tracks s'))"
      using v distinct_card [of "map stream_key (dx_streams d1)"] by (simp add: demux_valid_def)
    also have "\<dots> \<le> length (di_tracks s')" by (metis card_image_le card_length finite_set le_trans)
    finally show ?thesis using v t lims by (auto simp: tracks_ok_def)
  qed
  then show "\<exists>keys. demux_valid keys d" "dx_stream_count d \<le> unat (max_tracks (demux_limits options))"
    using d by (auto simp: demux_valid_def)
qed

lemma items_ok_packets:
  "(\<And>p. p \<in> set ps \<Longrightarrow> item_wf (Mux_Packet p) \<and> packet_track p \<in> set ks \<and> payload_fits lims (length (packet_payload_bytes p))) \<Longrightarrow>
     items_ok lims ks (map Mux_Packet ps)"
  by (induction ps) (auto simp: packet_track_def)

lemma items_ok_streams:
  assumes "\<And>si. si \<in> set ss \<Longrightarrow> item_wf (Mux_Stream si) \<and> payload_fits lims (length (stream_payload_bytes si))"
    and "distinct (map stream_key ss @ ks)" and "length ss + length ks \<le> unat (max_tracks lims)"
    and "items_ok lims (rev (map stream_key ss) @ ks) its"
  shows "items_ok lims ks (map Mux_Stream ss @ its)"
  using assms by (induction ss arbitrary: ks) (auto simp: stream_key_def)

lemma demux_items_ok:
  assumes "demux_valid keys d" and "dx_stream_count d \<le> unat (max_tracks lims)"
    and fits: "\<And>it. it \<in> set (map Mux_Stream (dx_streams d) @ map (Mux_Packet \<circ> pr_info) (dx_used d)) \<Longrightarrow> payload_fits lims (length (item_payload it))"
  shows "items_ok lims [] (map Mux_Stream (dx_streams d) @ map (Mux_Packet \<circ> pr_info) (dx_used d))"
proof -
  have fs: "payload_fits lims (length (stream_payload_bytes si))" if "si \<in> set (dx_streams d)" for si
    using fits [of "Mux_Stream si"] that by simp
  have fp: "payload_fits lims (length (packet_payload_bytes p))" if "p \<in> set (map pr_info (dx_used d))" for p
    using fits [of "Mux_Packet p"] that by auto
  have "set (rev (map stream_key (dx_streams d)) @ []) = keys" using assms(1) by (simp add: demux_valid_def)
  then have "items_ok lims (rev (map stream_key (dx_streams d)) @ []) (map Mux_Packet (map pr_info (dx_used d)))"
    using assms(1) fp by (intro items_ok_packets) (auto simp: demux_valid_def)
  then have "items_ok lims [] (map Mux_Stream (dx_streams d) @ map Mux_Packet (map pr_info (dx_used d)))"
    using assms(1,2) fs by (intro items_ok_streams) (simp_all add: demux_valid_def)
  then show ?thesis by simp
qed

subsection \<open>Writing a repaired file\<close>

lemma prefix_source:
  assumes "source_ok src" and "n \<le> src_size src" and "n \<noteq> 0"
    and "tide_source_from_memory alloc (Some None) (tide_source_data (Some src)) n = (TIDE_STATUS_OK, out)"
  obtains s where "out = Some (Some s)" and "source_ok s" and "source_bytes s = take n (source_bytes src)" and "src_size s = n"
proof -
  obtain d where d: "src_data src = Some d" "n \<le> length d" using assms(1-3) by (cases "src_data src") (auto simp: source_ok_def source_bytes_def)
  from assms(4) show thesis
    by (rule tide_source_from_memory_OK) (use d that in \<open>auto simp: tide_source_data_def source_bytes_def\<close>)
qed

lemma tide_demux_close_None [simp]: "tide_demux_close h None = h"
  by (simp add: tide_demux_close_def)

lemma tide_repair_copy_leases:
  assumes "demux_inv R (d, h)" and "tide_repair_copy alloc h os d path = (status, os', h')"
  shows "leases_owned h' R"
  using assms tide_demux_close_owned [OF assms(1)]
  by (auto simp: tide_repair_copy_def split: prod.splits if_splits dest!: tide_copy_packets_inv [OF assms(1)] intro: tide_demux_close_owned)

lemma tide_repair_write_cases:
  assumes plan: "rp_valid_prefix plan \<noteq> 0" "source_ok (rp_source plan)" "unat (rp_valid_prefix plan) \<le> src_size (rp_source plan)"
    and sz: "src_size (rp_source plan) \<le> SIZE_MAX" and own: "leases_owned h R"
    and w: "tide_repair_write alloc h os (Some plan) (Some path) = (status, os', h')"
  obtains (failed) "status \<noteq> TIDE_STATUS_OK" and "leases_owned h' R"
  | (opened) src st d h1 where "source_ok src" and "source_bytes src = take (unat (rp_valid_prefix plan)) (source_bytes (rp_source plan))"
      and "src_size src = unat (rp_valid_prefix plan)"
      and "tide_demux_open alloc h (Some None) (Some src) (Some repair_demux_options) = (st, Some (Some d), h1)" and "demux_inv R (d, h1)" and "dx_cursor d = 0"
      and "tide_repair_copy alloc h1 os d (Some path) = (status, os', h')" and "leases_owned h' R"
proof -
  let ?n = "unat (rp_valid_prefix plan)"
  have n0: "?n \<noteq> 0" using plan(1) by (simp add: unat_eq_0)
  obtain st0 out0 where s0: "tide_source_from_memory alloc (Some None) (tide_source_data (Some (rp_source plan))) ?n = (st0, out0)" by fastforce
  show thesis
  proof (cases "st0 = TIDE_STATUS_OK")
    case False
    then have "status = st0" "h' = h" using w s0 plan(1) by (simp_all add: tide_repair_write_def)
    then show thesis using False own by (intro failed) simp_all
  next
    case True
    obtain src where src: "out0 = Some (Some src)" "source_ok src" "source_bytes src = take ?n (source_bytes (rp_source plan))" "src_size src = ?n"
      by (rule prefix_source [OF plan(2,3) n0 s0 [unfolded True]])
    have szs: "src_size src \<le> SIZE_MAX" using src(4) plan(3) sz by simp
    obtain st1 out1 h1 where o: "tide_demux_open alloc h (Some None) (Some src) (Some repair_demux_options) = (st1, out1, h1)" by (metis surj_pair)
    show thesis
    proof (cases "st1 = TIDE_STATUS_OK \<or> st1 = TIDE_STATUS_PARTIAL")
      case False
      then have "out1 = Some None \<and> leases_owned h1 R"
        using tide_demux_open_outcome [OF src(2) szs own o] by (auto simp: demux_keeps_def)
      moreover have "status = st1" "h' = tide_demux_close h1 (the out1)"
        using w s0 True src(1) o False plan(1) by (simp_all add: tide_repair_write_def)
      ultimately show thesis using False by (intro failed) simp_all
    next
      case kept: True
      have "\<exists>d. out1 = Some (Some d)"
        using tide_demux_open_outcome [OF src(2) szs own o] kept o by (auto simp: repair_demux_options_def demux_keeps_def)
      then obtain d where d: "out1 = Some (Some d)" by blast
      have cp: "tide_repair_copy alloc h1 os d (Some path) = (status, os', h')"
        using w s0 True src(1) o kept d plan(1) by (auto simp: tide_repair_write_def)
      note i = tide_demux_open_inv [OF src(2) szs own o [unfolded d]]
      show thesis
        using tide_repair_copy_leases [OF i(1) cp] by (intro opened [OF src(2-4) o [unfolded d] i(1,2) cp])
    qed
  qed
qed

lemma repair_write_leases:
  assumes "source_ok (rp_source plan)" and "src_size (rp_source plan) \<le> SIZE_MAX" and "unat (rp_valid_prefix plan) \<le> src_size (rp_source plan)"
    and "leases_owned h R" and "tide_repair_write alloc h os (Some plan) (Some path) = (status, os', h')"
  shows "leases_owned h' R"
proof (cases "rp_valid_prefix plan = 0")
  case True
  then show ?thesis using assms(4,5) by (simp add: tide_repair_write_def)
next
  case False
  from tide_repair_write_cases [OF False assms(1,3,2,4,5)] show ?thesis by metis
qed

definition demux_items :: "tide_demux \<Rightarrow> mux_item list" where
  "demux_items d = map Mux_Stream (dx_streams d) @ map (Mux_Packet \<circ> pr_info) (dx_used d)"

lemma demux_items_lists [simp]:
  "item_streams (demux_items d) = dx_streams d" "item_packets (demux_items d) = map pr_info (dx_used d)"
proof -
  have "item_streams (map Mux_Stream ss @ map (Mux_Packet \<circ> pr_info) ps) = ss" for ss and ps :: "tide_packet_ref list"
    by (induction ss) (simp, induction ps, simp_all)
  then show "item_streams (demux_items d) = dx_streams d" by (simp add: demux_items_def)
  have "item_packets (map Mux_Stream ss @ map (Mux_Packet \<circ> pr_info) ps) = map pr_info ps" for ss and ps :: "tide_packet_ref list"
    by (induction ss) (simp, induction ps, simp_all)
  then show "item_packets (demux_items d) = map pr_info (dx_used d)" by (simp add: demux_items_def)
qed

lemma copied_file_written:
  assumes inv: "demux_inv R (d, h)" "dx_cursor d = 0" "demux_valid keys d"
    and m: "mux_holds m []" "mx_file m = Some path" "os_files os path = Some []"
    and s: "tide_copy_streams alloc (Some d) (Some m) [0..<tide_demux_stream_count (Some d)] = (TIDE_STATUS_OK, mux1)"
    and p: "tide_copy_packets alloc h d mux1 = (TIDE_STATUS_OK, h2, d2, mux2)"
    and cl: "tide_mux_close alloc os mux2 = (TIDE_STATUS_OK, os')"
  shows "os_files os' path = Some (tide_file_bytes (mx_movie_time_base m) tide_mux_uuid (mx_write_footer m) (demux_items d))"
    and "list_all (item_single (mx_limits m)) (demux_items d)"
proof -
  have "list_all (\<lambda>i. i < dx_stream_count d \<and> item_wf (Mux_Stream (dx_streams d ! i))) [0..<dx_stream_count d]"
    using inv(3) by (simp add: list_all_iff demux_valid_def)
  from tide_copy_streams_holds [OF m(1) this s [unfolded tide_demux_stream_count_def option.case]] obtain m1
    where m1: "mux1 = Some m1" "same_mux m m1" "mux_holds m1 (map (\<lambda>i. Mux_Stream (dx_streams d ! i)) [0..<dx_stream_count d])" by auto
  have "map (\<lambda>i. Mux_Stream (dx_streams d ! i)) [0..<dx_stream_count d] = map Mux_Stream (map ((!) (dx_streams d)) [0..<dx_stream_count d])"
    by simp
  then have h1: "mux_holds m1 (map Mux_Stream (dx_streams d))" using m1(3) by (simp only: map_nth)
  have "list_all (item_wf \<circ> Mux_Packet \<circ> pr_info) (drop (dx_cursor d) (dx_used d))"
    using inv(2,3) by (simp add: list_all_iff demux_valid_def)
  from tide_copy_packets_holds [OF inv(1) h1 this p [unfolded m1(1)]] obtain m2 where m2: "mux2 = Some m2" "same_mux m1 m2" "mux_holds m2 (demux_items d)"
    using inv(2) by (auto simp: demux_items_def)
  have same: "same_mux m m2" using m1(2) m2(2) by (rule same_mux_trans)
  then show "os_files os' path = Some (tide_file_bytes (mx_movie_time_base m) tide_mux_uuid (mx_write_footer m) (demux_items d))"
    using tide_mux_close_writes [OF m2(3) cl [unfolded m2(1)] _ m(3)] m by (simp add: same_mux_def)
  show "list_all (item_single (mx_limits m)) (demux_items d)" using m2(3) same by (simp add: mux_holds_def same_mux_def)
qed

lemma tide_repair_copy_writes:
  assumes inv: "demux_inv R (d, h)" "dx_cursor d = 0" "demux_valid keys d"
    and cp: "tide_repair_copy alloc h os d (Some path) = (TIDE_STATUS_OK, os', h')"
  shows "os_files os' path = Some (tide_file_bytes \<lparr>numerator = 1, denominator = 1000\<rparr> tide_mux_uuid True (demux_items d))"
    and "list_all (item_single tide_limits_default) (demux_items d)"
proof -
  obtain mux os1 mux1 h2 d2 mux2 where c: "tide_mux_create alloc os (Some None) (Some path) None = (TIDE_STATUS_OK, mux, os1)"
      and cp: "tide_copy_streams alloc (Some d) (the mux) [0..<tide_demux_stream_count (Some d)] = (TIDE_STATUS_OK, mux1)"
      "tide_copy_packets alloc h d mux1 = (TIDE_STATUS_OK, h2, d2, mux2)" "tide_mux_close alloc os1 mux2 = (TIDE_STATUS_OK, os')"
    using cp by (auto simp: tide_repair_copy_def split: prod.splits if_splits)
  from c obtain m where m: "mux = Some (Some m)" "mux_holds m []" "mx_file m = Some path" "os_files os1 path = Some []" "mx_limits m = tide_limits_default"
      "mx_movie_time_base m = \<lparr>numerator = 1, denominator = 1000\<rparr>" "mx_write_footer m"
    by (rule tide_mux_create_holds) auto
  have "tide_copy_streams alloc (Some d) (Some m) [0..<tide_demux_stream_count (Some d)] = (TIDE_STATUS_OK, mux1)" using cp(1) m(1) by simp
  from copied_file_written [OF inv m(2-4) this cp(2,3)] m(5-7)
  show "os_files os' path = Some (tide_file_bytes \<lparr>numerator = 1, denominator = 1000\<rparr> tide_mux_uuid True (demux_items d))"
    "list_all (item_single tide_limits_default) (demux_items d)" by simp_all
qed

text \<open>Whatever fits the multiplexer's default limits fits the reader's.\<close>

lemma item_single_fits: "item_single tide_limits_default it \<Longrightarrow> payload_fits tide_limits_default (length (item_payload it))"
  by (simp add: item_single_def payload_fits_def tide_limits_default_def)

lemma repaired_file_opens:
  assumes alloc: "\<And>m. alloc m" and "demux_valid keys d" and "dx_stream_count d \<le> unat (max_tracks tide_limits_default)"
    and "list_all (item_single tide_limits_default) (demux_items d)"
    and "source_ok src" and "source_bytes src = tide_file_bytes \<lparr>numerator = 1, denominator = 1000\<rparr> tide_mux_uuid True (demux_items d)"
    and "src_size src \<le> SIZE_MAX" and "leases_owned h R"
  shows "\<exists>d2 h2. tide_demux_open alloc h (Some None) (Some src) None = (TIDE_STATUS_OK, Some (Some d2), h2) \<and>
    demux_holds d2 (dx_streams d) (map pr_info (dx_used d)) \<and> demux_inv R (d2, h2)"
proof -
  have lims: "demux_limits None = tide_limits_default" "demux_track None = 0" by (simp_all add: demux_limits_def demux_track_def)
  have "items_ok tide_limits_default [] (demux_items d)"
    using assms(2-4) item_single_fits unfolding demux_items_def by (intro demux_items_ok) (auto simp: list_all_iff)
  then show ?thesis
    using demux_written_file [of alloc "\<lparr>numerator = 1, denominator = 1000\<rparr>" tide_mux_uuid None "demux_items d" src True h R None] assms lims
    by (auto simp: tide_rational_is_valid_def tide_gcd_u64.simps tide_limits_default_def payload_fits_def)
qed

lemma tide_repair_scan_plan:
  assumes "alloc sizeof_repair_plan" and "source_ok src" and "src_size src \<le> SIZE_MAX"
  shows "\<exists>status plan. tide_repair_scan alloc (Some src) options (Some out) = (status, Some (Some plan)) \<and> rp_source plan = src \<and>
    unat (rp_valid_prefix plan) \<le> src_size src \<and> (rp_valid_prefix plan = 0 \<or> TIDE_HEADER_SIZE \<le> unat (rp_valid_prefix plan)) \<and>
    (status = TIDE_STATUS_OK \<longrightarrow> unat (rp_valid_prefix plan) = src_size src)"
proof -
  let ?lims = "Some (case options of None \<Rightarrow> tide_limits_default
    | Some o' \<Rightarrow> if max_record_size (ro_limits o') = 0 then tide_limits_default else ro_limits o')"
  obtain status e v u where p: "tide_parse_tide_bytes alloc (src_data src) (src_size src) True ?lims None () tide_error_clear 0 = (status, e, v, u)"
    using prod_cases4 by blast
  note b = parse_prefix_bounds [OF _ assms(3) p [unfolded tide_parse_source [OF assms(2)]]]
  show ?thesis
    using assms(1,2) b p by (auto simp: tide_repair_scan_def tide_source_data_def tide_source_size_def source_ok_def)
qed

subsection \<open>Properties\<close>

text \<open>C31: a scan that gets its memory always delivers a plan for the source it was given, with a valid prefix inside the
  source: nothing if the header is rejected, otherwise at least the header, and the whole source if the scan reports success.\<close>

theorem tide_repair_scan_prefix:
  assumes "alloc sizeof_repair_plan" and "source_ok src" and "src_size src \<le> SIZE_MAX"
  shows "\<exists>status plan. tide_repair_scan alloc (Some src) options (Some out) = (status, Some (Some plan)) \<and> rp_source plan = src \<and>
    unat (rp_valid_prefix plan) \<le> src_size src \<and> (rp_valid_prefix plan = 0 \<or> TIDE_HEADER_SIZE \<le> unat (rp_valid_prefix plan)) \<and>
    (status = TIDE_STATUS_OK \<longrightarrow> unat (rp_valid_prefix plan) = src_size src)"
  using assms by (rule tide_repair_scan_plan)

theorem tide_repair_scan_prefix_witness:
  "\<exists>status plan. tide_repair_scan (\<lambda>_. True) (Some \<lparr>src_data = Some [1, 2], src_size = 2, src_generation = 1\<rparr>) None (Some None) =
     (status, Some (Some plan)) \<and> unat (rp_valid_prefix plan) \<le> 2"
  using tide_repair_scan_prefix [of "\<lambda>_. True" "\<lparr>src_data = Some [1, 2], src_size = 2, src_generation = 1\<rparr>" None None]
  by (auto simp: source_ok_def source_bytes_def SIZE_MAX_def)

text \<open>Writing a repaired file keeps the accounting of payload leases on every path, whatever the source holds and
  wherever the call fails.\<close>

theorem tide_repair_write_leases:
  assumes "source_ok (rp_source plan)" and "src_size (rp_source plan) \<le> SIZE_MAX" and "unat (rp_valid_prefix plan) \<le> src_size (rp_source plan)"
    and "leases_owned h R" and "tide_repair_write alloc h os (Some plan) (Some path) = (status, os', h')"
  shows "leases_owned h' R"
  by (rule repair_write_leases [OF assms])

text \<open>A source that holds a header and no record, and its repair.\<close>

definition header_source :: tide_source where
  "header_source = \<lparr>src_data = Some (tide_file_bytes (si_time_base sample_stream) tide_mux_uuid False []), src_size = 72, src_generation = 1\<rparr>"

lemma header_source_ok: "source_ok header_source" "src_size header_source = 72"
  by (simp_all add: header_source_def source_ok_def source_bytes_def tide_file_bytes_def tide_file_body_def TIDE_HEADER_SIZE_def)

lemma header_plan:
  "\<exists>e. tide_repair_scan (\<lambda>_. True) (Some header_source) None (Some None) =
     (TIDE_STATUS_OK, Some (Some \<lparr>rp_source = header_source, rp_valid_prefix = 72, rp_error = e\<rparr>))"
proof -
  let ?h = "tide_header_bytes (si_time_base sample_stream) tide_mux_uuid"
  have "tide_validate_header (?h @ []) tide_limits_default tide_error_clear = (TIDE_STATUS_OK, tide_error_clear)"
    by (rule tide_validate_header_written [OF sample_valid(1) tide_mux_uuid]) (simp add: tide_limits_default_def)
  then show ?thesis
    using header_source_ok
    by (simp add: tide_repair_scan_def tide_source_data_def tide_source_size_def tide_parse_tide_bytes_def header_source_def
        tide_file_bytes_def tide_file_body_def TIDE_HEADER_SIZE_def tide_decoder_fresh_def tide_parse_records.simps)
qed

lemma header_repair:
  "\<exists>os' h'. tide_repair_write (\<lambda>_. True) lease_heap_empty sample_os (Some \<lparr>rp_source = header_source, rp_valid_prefix = 72, rp_error = e\<rparr>) (Some ''b'') =
     (TIDE_STATUS_OK, os', h') \<and> os' = sample_os\<lparr>os_files := os_files os'\<rparr> \<and> (\<exists>c. os_files os' ''b'' = Some c \<and> length c \<le> 169)"
proof -
  let ?a = "\<lambda>_ :: nat. True" and ?o = "Some repair_demux_options"
  have lims: "demux_limits ?o = tide_limits_default" by (simp add: demux_limits_def repair_demux_options_def tide_limits_default_def)
  have src: "tide_source_from_memory ?a (Some None) (tide_source_data (Some header_source)) 72 = (TIDE_STATUS_OK, Some (Some header_source))"
    using header_source_ok(1) by (simp add: tide_source_from_memory_def tide_source_data_def header_source_def source_ok_def source_bytes_def)
  obtain d h1 where d: "tide_demux_open ?a lease_heap_empty (Some None) (Some header_source) ?o = (TIDE_STATUS_OK, Some (Some d), h1)"
      "demux_inv {#} (d, h1)" "demux_holds d [] []"
    using demux_written_file [of ?a "si_time_base sample_stream" tide_mux_uuid ?o "[]" header_source False lease_heap_empty "{#}" None]
      sample_valid(1) lims header_source_ok leases_owned_empty
    by (auto simp: tide_limits_default_def payload_fits_def header_source_def source_bytes_def SIZE_MAX_def)
  then have none: "dx_streams d = []" "\<not> dx_cursor d < dx_packet_count d" by (auto simp: demux_holds_def demux_inv_def)
  have cp: "tide_copy_packets ?a h1 d mux = (TIDE_STATUS_OK, h1, d, mux)" for mux
    using d(2) by (cases rule: tide_copy_packets_cases [where alloc = ?a and mux = mux]) (use none in auto)
  obtain out os1 where c: "tide_mux_create ?a sample_os (Some None) (Some ''b'') None = (TIDE_STATUS_OK, out, os1)"
    using tide_mux_create_succeeds [of ?a sample_os "''b''" None] by (cases "tide_mux_create ?a sample_os (Some None) (Some ''b'') None") (auto simp: sample_os_def)
  then obtain m where m: "out = Some (Some m)" "mux_holds m []" "os1 = sample_os\<lparr>os_files := (os_files sample_os)(''b'' \<mapsto> [])\<rparr>"
      "mx_limits m = tide_limits_default" "buf_limit (mx_buffer m) = max_aggregate_alloc tide_limits_default" "mx_file m = Some ''b''"
    by (rule tide_mux_create_holds) auto
  have hl: "buf_size (mx_buffer m) = 72" using m(2) by (simp add: mux_holds_def tide_file_body_def TIDE_HEADER_SIZE_def)
  have "length (footer_record_bytes 0 x) \<le> 97" for x
    using record_bytes_bound [of 3 TIDE_RECORD_FOOTER 0 0 "footer_payload_bytes (length x + footer_record_size 0) x"] by (simp add: footer_record_bytes_def)
  then have len: "length (tide_file_bytes (mx_movie_time_base m) tide_mux_uuid (mx_write_footer m) []) \<le> 169"
    using add_mono [of 72 72 _ 97] by (auto simp: tide_file_bytes_def tide_file_body_def TIDE_HEADER_SIZE_def)
  have "fst (tide_mux_close ?a os1 (Some m)) = TIDE_STATUS_OK"
    using len m hl by (intro tide_mux_close_succeeds [OF _ m(2)])
      (auto simp: mux_room_def tide_limits_default_def tide_buffer_fits_def SIZE_MAX_def os_works_def sample_os_def)
  then obtain os2 where os2: "tide_mux_close ?a os1 (Some m) = (TIDE_STATUS_OK, os2)" by (cases "tide_mux_close ?a os1 (Some m)") simp
  have "os2 = sample_os\<lparr>os_files := os_files os2\<rparr>"
    using os2 m(3) by (auto simp: tide_mux_close_def os_fwrite_def Let_def split: prod.splits if_splits)
  moreover have "\<exists>c. os_files os2 ''b'' = Some c \<and> length c \<le> 169"
    using tide_mux_close_writes [OF m(2) os2 m(6)] m(3) len by simp
  ultimately show ?thesis
    using src d(1) c m(1) none cp os2
    by (simp add: tide_repair_write_def tide_repair_copy_def tide_demux_stream_count_def)
qed

text \<open>C7: when memory suffices and the repair reports success, the file it wrote opens without error, and holds the streams
  and packets that demultiplexing the whole valid prefix of the damaged source gives, all of them and in the same order.\<close>

theorem tide_repair_write_valid:
  assumes "\<And>m. alloc m" and "source_ok src" and "src_size src < 2 ^ 61" and "leases_owned h R"
    and "tide_repair_scan alloc (Some src) options (Some None) = (st, Some (Some plan))"
    and "tide_repair_write alloc h os (Some plan) (Some path) = (TIDE_STATUS_OK, os', h')"
    and "tide_source_from_file alloc os' (Some None) (Some path) = (TIDE_STATUS_OK, Some (Some src2))"
  shows "\<exists>prefix st1 d h1 d2 h2. source_ok prefix \<and> src_size prefix = unat (rp_valid_prefix plan) \<and>
    source_bytes prefix = take (unat (rp_valid_prefix plan)) (source_bytes src) \<and>
    tide_demux_open alloc h (Some None) (Some prefix) (Some repair_demux_options) = (st1, Some (Some d), h1) \<and>
    tide_demux_open alloc h' (Some None) (Some src2) None = (TIDE_STATUS_OK, Some (Some d2), h2) \<and>
    demux_holds d2 (dx_streams d) (map pr_info (dx_used d))"
proof -
  have sz: "src_size src \<le> SIZE_MAX" using assms(3) by (simp add: SIZE_MAX_def)
  have plan: "rp_source plan = src" "unat (rp_valid_prefix plan) \<le> src_size src"
    using tide_repair_scan_plan [of alloc src options None, OF assms(1,2) sz] assms(5) by auto
  have nz: "rp_valid_prefix plan \<noteq> 0" using assms(6) by (auto simp: tide_repair_write_def)
  have ok: "source_ok (rp_source plan)" "unat (rp_valid_prefix plan) \<le> src_size (rp_source plan)" "src_size (rp_source plan) \<le> SIZE_MAX"
    using assms(2) plan sz by simp_all
  from nz ok assms(4,6) show ?thesis
  proof (cases rule: tide_repair_write_cases)
    case failed
    then show ?thesis by simp
  next
    case (opened prefix st1 d h1)
    have small: "src_size prefix < 2 ^ 61" using opened(3) plan(2) assms(3) by simp
    obtain keys where v: "demux_valid keys d"
      using demux_open_valid(1) [of alloc, OF assms(1) opened(1) small assms(4) opened(4)] by blast
    have tr: "dx_stream_count d \<le> unat (max_tracks tide_limits_default)"
      using demux_open_valid(2) [of alloc, OF assms(1) opened(1) small assms(4) opened(4)]
      by (simp add: demux_limits_def repair_demux_options_def tide_limits_default_def)
    note w = tide_repair_copy_writes [OF opened(5,6) v opened(7)]
    have "source_ok src2 \<and> source_bytes src2 = tide_file_bytes \<lparr>numerator = 1, denominator = 1000\<rparr> tide_mux_uuid True (demux_items d) \<and> src_size src2 \<le> SIZE_MAX"
      by (rule tide_source_from_file_OK [OF assms(7)]) (use w(1) in \<open>simp add: SIZE_MAX_def\<close>)
    then obtain d2 h2 where "tide_demux_open alloc h' (Some None) (Some src2) None = (TIDE_STATUS_OK, Some (Some d2), h2)"
        "demux_holds d2 (dx_streams d) (map pr_info (dx_used d))"
      using repaired_file_opens [of alloc, OF assms(1) v tr w(2) _ _ _ opened(8), of src2] by auto
    then show ?thesis using opened(1-4) plan(1) by blast
  qed
qed

theorem tide_repair_write_valid_witness:
  "\<exists>plan os' h' src2 d2 h2. tide_repair_scan (\<lambda>_. True) (Some header_source) None (Some None) = (TIDE_STATUS_OK, Some (Some plan)) \<and>
    tide_repair_write (\<lambda>_. True) lease_heap_empty sample_os (Some plan) (Some ''b'') = (TIDE_STATUS_OK, os', h') \<and>
    tide_source_from_file (\<lambda>_. True) os' (Some None) (Some ''b'') = (TIDE_STATUS_OK, Some (Some src2)) \<and>
    tide_demux_open (\<lambda>_. True) h' (Some None) (Some src2) None = (TIDE_STATUS_OK, Some (Some d2), h2)"
proof -
  let ?a = "\<lambda>_ :: nat. True"
  obtain plan where p: "tide_repair_scan ?a (Some header_source) None (Some None) = (TIDE_STATUS_OK, Some (Some plan))"
    "plan = \<lparr>rp_source = header_source, rp_valid_prefix = 72, rp_error = rp_error plan\<rparr>" using header_plan by auto
  obtain os' h' c where w: "tide_repair_write ?a lease_heap_empty sample_os (Some plan) (Some ''b'') = (TIDE_STATUS_OK, os', h')"
      "os' = sample_os\<lparr>os_files := os_files os'\<rparr>" "os_files os' ''b'' = Some c" "length c \<le> 169"
    using header_repair [of "rp_error plan"] p(2) by auto
  have "os_works os' (length c)" by (subst w(2)) (use w(4) in \<open>simp add: os_works_def sample_os_def\<close>)
  from tide_source_from_file_works [of ?a, OF TrueI this w(3)] obtain src2
    where f: "tide_source_from_file ?a os' (Some None) (Some ''b'') = (TIDE_STATUS_OK, Some (Some src2))" by blast
  have "src_size header_source < 2 ^ 61" using header_source_ok by simp
  from tide_repair_write_valid [of ?a, OF TrueI header_source_ok(1) this leases_owned_empty p(1) w(1) f] obtain d2 h2
    where "tide_demux_open ?a h' (Some None) (Some src2) None = (TIDE_STATUS_OK, Some (Some d2), h2)" by blast
  with p(1) w(1) f show ?thesis by (intro exI conjI) assumption+
qed

theorem tide_repair_write_leases_witness:
  "\<exists>status os' h'. tide_repair_write (\<lambda>_. False) lease_heap_empty sample_os
     (Some \<lparr>rp_source = header_source, rp_valid_prefix = 72, rp_error = tide_error_clear\<rparr>) (Some ''b'') = (status, os', h') \<and> leases_owned h' {#}"
proof -
  let ?plan = "\<lparr>rp_source = header_source, rp_valid_prefix = 72, rp_error = tide_error_clear\<rparr>"
  obtain status os' h' where w: "tide_repair_write (\<lambda>_. False) lease_heap_empty sample_os (Some ?plan) (Some ''b'') = (status, os', h')"
    using prod_cases3 by blast
  from tide_repair_write_leases [OF _ _ _ leases_owned_empty this] header_source_ok
  have "leases_owned h' {#}" by (simp add: SIZE_MAX_def)
  with w show ?thesis by blast
qed

end
