(* ===== verification/Tide_Cli.thy ===== *)
theory Tide_Cli
  imports Tide_Repair
begin

text \<open>
  The command line program (\<open>src/cli/main.c\<close>): \<open>inspect\<close> (with its aliases \<open>demux\<close> and \<open>index\<close>), \<open>remux\<close> and
  \<open>repair\<close>.

  A process is the host's files, the heap of payload leases and what was printed on the two output streams. A
  command returns its exit code and the process it leaves behind. \<open>argv\<close> is the list of its strings.
\<close>

subsection \<open>The program\<close>

record tide_process =
  ps_os :: tide_os
  ps_heap :: lease_heap
  ps_stdout :: string
  ps_stderr :: string

definition fprintf_stdout :: "tide_process \<Rightarrow> string \<Rightarrow> tide_process" where
  "fprintf_stdout ps text = ps\<lparr>ps_stdout := ps_stdout ps @ text\<rparr>"

definition fprintf_stderr :: "tide_process \<Rightarrow> string \<Rightarrow> tide_process" where
  "fprintf_stderr ps text = ps\<lparr>ps_stderr := ps_stderr ps @ text\<rparr>"

definition newline :: string where "newline = [CHR 0x0A]"

text \<open>The conversions \<open>%u\<close>, \<open>%zu\<close> and \<open>%llu\<close>.\<close>

fun decimal :: "nat \<Rightarrow> string" where
  "decimal n = (if n < 10 then [char_of (48 + n)] else decimal (n div 10) @ [char_of (48 + n mod 10)])"

declare decimal.simps [simp del]

fun status_to_exit :: "tide_status \<Rightarrow> int" where
  "status_to_exit TIDE_STATUS_OK = 0"
| "status_to_exit TIDE_STATUS_INVALID_ARGUMENT = 2"
| "status_to_exit TIDE_STATUS_FORMAT = 3"
| "status_to_exit TIDE_STATUS_UNSUPPORTED = 3"
| "status_to_exit TIDE_STATUS_INTEGRITY = 3"
| "status_to_exit TIDE_STATUS_TIMELINE = 3"
| "status_to_exit TIDE_STATUS_INDEX = 3"
| "status_to_exit TIDE_STATUS_RESOURCE = 4"
| "status_to_exit TIDE_STATUS_CANCELLED = 5"
| "status_to_exit TIDE_STATUS_PARTIAL = 6"
| "status_to_exit _ = 10"

definition cli_demux_options :: tide_demux_options where
  "cli_demux_options = \<lparr>do_limits = tide_limits_default, do_selected_track = 0, do_strict = False\<rparr>"

definition cli_mux_options :: tide_mux_options where
  "cli_mux_options = \<lparr>mo_limits = tide_limits_default, mo_movie_time_base = \<lparr>numerator = 1, denominator = 1000\<rparr>, mo_write_footer = True\<rparr>"

definition inspect_stream_line :: "tide_stream_info \<Rightarrow> string" where
  "inspect_stream_line stream = ''stream track='' @ decimal (unat (si_track_id stream)) @ '' generation='' @ decimal (unat (si_generation stream)) @
     '' time_base='' @ decimal (unat (numerator (si_time_base stream))) @ ''/'' @ decimal (unat (denominator (si_time_base stream))) @
     '' codec='' @ decimal (unat (si_codec_tag stream)) @ newline"

fun inspect_streams :: "tide_process \<Rightarrow> tide_demux option \<Rightarrow> nat list \<Rightarrow> tide_process" where
  "inspect_streams ps demux [] = ps"
| "inspect_streams ps demux (i # is) =
     (case tide_demux_stream_info demux i (Some unset_stream_info) of (status, stream) \<Rightarrow>
        inspect_streams (if status = TIDE_STATUS_OK then fprintf_stdout ps (inspect_stream_line (the stream)) else ps) demux is)"

definition inspect_cmd :: "(nat \<Rightarrow> bool) \<Rightarrow> tide_process \<Rightarrow> string \<Rightarrow> int \<times> tide_process" where
  "inspect_cmd alloc ps path =
     (case tide_source_from_file alloc (ps_os ps) (Some None) (Some path) of (status, source) \<Rightarrow>
      if status \<noteq> TIDE_STATUS_OK then
        (status_to_exit status, fprintf_stderr ps (''source: '' @ tide_status_string status @ newline))
      else case tide_demux_open alloc (ps_heap ps) (Some None) (the source) (Some cli_demux_options) of (status, demux, h) \<Rightarrow>
      let ps = ps\<lparr>ps_heap := h\<rparr> in
      if status \<noteq> TIDE_STATUS_OK \<and> status \<noteq> TIDE_STATUS_PARTIAL then
        (status_to_exit status, fprintf_stderr ps (''decode: '' @ tide_status_string status @ newline))
      else let
        ps = fprintf_stdout ps (''status='' @ tide_status_string status @ newline);
        ps = fprintf_stdout ps (''streams='' @ decimal (tide_demux_stream_count (the demux)) @ newline);
        ps = inspect_streams ps (the demux) [0..<tide_demux_stream_count (the demux)]
      in (status_to_exit status, ps\<lparr>ps_heap := tide_demux_close (ps_heap ps) (the demux)\<rparr>))"

text \<open>The part of \<open>remux_cmd\<close> that runs once the multiplexer exists: the two copying loops and the close, which is
  not skipped when a copy fails.\<close>

definition remux_copy ::
    "(nat \<Rightarrow> bool) \<Rightarrow> lease_heap \<Rightarrow> tide_os \<Rightarrow> tide_demux \<Rightarrow> tide_mux option \<Rightarrow> tide_status \<times> lease_heap \<times> tide_os \<times> tide_demux" where
  "remux_copy alloc h os d mux =
     (case tide_copy_streams alloc (Some d) mux [0..<tide_demux_stream_count (Some d)] of (status, mux) \<Rightarrow>
      case (if status = TIDE_STATUS_OK then tide_copy_packets alloc h d mux else (status, h, d, mux)) of (status, h, d, mux) \<Rightarrow>
      if mux = None then (status, h, os, d)
      else case tide_mux_close alloc os mux of (close_status, os) \<Rightarrow>
        (if status = TIDE_STATUS_OK then close_status else status, h, os, d))"

definition remux_cmd :: "(nat \<Rightarrow> bool) \<Rightarrow> tide_process \<Rightarrow> string \<Rightarrow> string \<Rightarrow> int \<times> tide_process" where
  "remux_cmd alloc ps in_path out_path =
     (case tide_source_from_file alloc (ps_os ps) (Some None) (Some in_path) of (status, source) \<Rightarrow>
      case (if status = TIDE_STATUS_OK then tide_demux_open alloc (ps_heap ps) (Some None) (the source) (Some cli_demux_options)
            else (status, Some None, ps_heap ps)) of (status, demux, h) \<Rightarrow>
      case (if status = TIDE_STATUS_OK then tide_mux_create alloc (ps_os ps) (Some None) (Some out_path) (Some cli_mux_options)
            else (status, Some None, ps_os ps)) of (status, mux, os) \<Rightarrow>
      case (if status = TIDE_STATUS_OK then
              (case remux_copy alloc h os (the (the demux)) (the mux) of (status, h, os, d) \<Rightarrow> (status, h, os, Some d))
            else (status, h, os, the demux)) of (status, h, os, demux) \<Rightarrow>
      let ps = ps\<lparr>ps_os := os, ps_heap := tide_demux_close h demux\<rparr> in
      (status_to_exit status,
       if status \<noteq> TIDE_STATUS_OK then fprintf_stderr ps (''remux: '' @ tide_status_string status @ newline) else ps))"

definition repair_cmd :: "(nat \<Rightarrow> bool) \<Rightarrow> tide_process \<Rightarrow> string \<Rightarrow> string \<Rightarrow> int \<times> tide_process" where
  "repair_cmd alloc ps in_path out_path =
     (case tide_source_from_file alloc (ps_os ps) (Some None) (Some in_path) of (status, source) \<Rightarrow>
      case (if status = TIDE_STATUS_OK then tide_repair_scan alloc (the source) None (Some None) else (status, Some None)) of (status, plan) \<Rightarrow>
      case (if status = TIDE_STATUS_OK \<or> status = TIDE_STATUS_PARTIAL then
              let ps = fprintf_stdout ps (''valid_prefix='' @ decimal (unat (tide_repair_plan_valid_prefix (the plan))) @ newline)
              in case tide_repair_write alloc (ps_heap ps) (ps_os ps) (the plan) (Some out_path) of (status, os, h) \<Rightarrow>
                   (status, ps\<lparr>ps_os := os, ps_heap := h\<rparr>)
            else (status, ps)) of (status, ps) \<Rightarrow>
      (status_to_exit status,
       if status \<noteq> TIDE_STATUS_OK then fprintf_stderr ps (''repair: '' @ tide_status_string status @ newline) else ps))"

definition usage :: "tide_process \<Rightarrow> tide_process" where
  "usage ps = fold (\<lambda>line ps. fprintf_stderr ps (line @ newline))
     [''usage:'', ''  tide inspect <file>'', ''  tide demux <file>'', ''  tide remux <in> <out>'', ''  tide index <file>'', ''  tide repair <in> <out>''] ps"

definition tide_main :: "(nat \<Rightarrow> bool) \<Rightarrow> tide_process \<Rightarrow> string list \<Rightarrow> int \<times> tide_process" where
  "tide_main alloc ps argv =
     (if length argv < 3 then (2, usage ps)
      else if argv ! 1 = ''inspect'' \<and> length argv = 3 then inspect_cmd alloc ps (argv ! 2)
      else if argv ! 1 = ''demux'' \<and> length argv = 3 then inspect_cmd alloc ps (argv ! 2)
      else if argv ! 1 = ''index'' \<and> length argv = 3 then inspect_cmd alloc ps (argv ! 2)
      else if argv ! 1 = ''remux'' \<and> length argv = 4 then remux_cmd alloc ps (argv ! 2) (argv ! 3)
      else if argv ! 1 = ''repair'' \<and> length argv = 4 then repair_cmd alloc ps (argv ! 2) (argv ! 3)
      else (2, usage ps))"

subsection \<open>Lease accounting\<close>

lemma fprintf_keeps [simp]:
  "ps_heap (fprintf_stdout ps t) = ps_heap ps" "ps_os (fprintf_stdout ps t) = ps_os ps"
  "ps_heap (fprintf_stderr ps t) = ps_heap ps" "ps_os (fprintf_stderr ps t) = ps_os ps"
  by (simp_all add: fprintf_stdout_def fprintf_stderr_def)

lemma inspect_streams_keeps [simp]: "ps_heap (inspect_streams ps demux is) = ps_heap ps" "ps_os (inspect_streams ps demux is) = ps_os ps"
  by (induction "is" arbitrary: ps) (auto split: prod.split)

lemma usage_keeps [simp]: "ps_heap (usage ps) = ps_heap ps" "ps_os (usage ps) = ps_os ps"
  by (simp_all add: usage_def)

lemma status_to_exit_range: "status_to_exit status \<in> {0, 2, 3, 4, 5, 6, 10}"
  by (cases status) simp_all

lemma status_to_exit_0 [simp]: "status_to_exit status = 0 \<longleftrightarrow> status = TIDE_STATUS_OK"
  by (cases status) simp_all

text \<open>The source a command works on, and what opening a demultiplexer on it does to the leases.\<close>

lemma cli_source:
  assumes "tide_source_from_file alloc os (Some None) (Some path) = (TIDE_STATUS_OK, source)"
  obtains src where "source = Some (Some src)" and "source_ok src" and "src_size src \<le> SIZE_MAX" and "os_files os path = Some (source_bytes src)"
  using assms by (rule tide_source_from_file_OK) (simp add: SIZE_MAX_def that)

lemma cli_keeps: "demux_keeps (Some cli_demux_options) status \<longleftrightarrow> status = TIDE_STATUS_OK \<or> status = TIDE_STATUS_PARTIAL"
  by (auto simp: demux_keeps_def cli_demux_options_def)

lemma inspect_cmd_leases:
  assumes "leases_owned (ps_heap ps) R" and "inspect_cmd alloc ps path = (code, ps')"
  shows "leases_owned (ps_heap ps') R" and "ps_os ps' = ps_os ps" and "code \<in> {0, 2, 3, 4, 5, 6, 10}"
proof -
  obtain st source where s: "tide_source_from_file alloc (ps_os ps) (Some None) (Some path) = (st, source)" by fastforce
  have "leases_owned (ps_heap ps') R \<and> ps_os ps' = ps_os ps \<and> code \<in> {0, 2, 3, 4, 5, 6, 10}"
  proof (cases "st = TIDE_STATUS_OK")
    case False
    then show ?thesis using assms s status_to_exit_range [of st] by (auto simp: inspect_cmd_def)
  next
    case True
    obtain src where src: "source = Some (Some src)" "source_ok src" "src_size src \<le> SIZE_MAX" by (rule cli_source [OF s [unfolded True]])
    obtain st1 demux h where o: "tide_demux_open alloc (ps_heap ps) (Some None) (Some src) (Some cli_demux_options) = (st1, demux, h)" by (metis surj_pair)
    note c = tide_demux_open_outcome [OF src(2,3) assms(1) o]
    show ?thesis
    proof (cases "demux_keeps (Some cli_demux_options) st1")
      case False
      then show ?thesis using assms(2) s True src(1) o c status_to_exit_range [of st1] by (auto simp: inspect_cmd_def cli_keeps Let_def)
    next
      case k: True
      obtain d where d: "demux = Some (Some d)" using c k by blast
      have "leases_owned (tide_demux_close h (Some d)) R"
        by (rule tide_demux_close_owned [OF tide_demux_open_inv(1) [OF src(2,3) assms(1) o [unfolded d]]])
      then show ?thesis using assms(2) s True src(1) o d k status_to_exit_range [of st1] by (auto simp: inspect_cmd_def cli_keeps Let_def)
    qed
  qed
  then show "leases_owned (ps_heap ps') R" and "ps_os ps' = ps_os ps" and "code \<in> {0, 2, 3, 4, 5, 6, 10}" by blast+
qed

lemma remux_copy_inv:
  assumes "demux_inv R (d, h)" and "remux_copy alloc h os d mux = (status, h', os', d')"
  shows "demux_inv R (d', h')"
  using assms by (auto simp: remux_copy_def split: prod.splits if_splits dest: tide_copy_packets_inv)

lemma remux_cmd_leases:
  assumes "leases_owned (ps_heap ps) R" and "remux_cmd alloc ps in_path out_path = (code, ps')"
  shows "leases_owned (ps_heap ps') R" and "code \<in> {0, 2, 3, 4, 5, 6, 10}"
proof -
  obtain st source where s: "tide_source_from_file alloc (ps_os ps) (Some None) (Some in_path) = (st, source)" by fastforce
  have "leases_owned (ps_heap ps') R"
  proof (cases "st = TIDE_STATUS_OK")
    case False
    then show ?thesis using assms s by (auto simp: remux_cmd_def Let_def)
  next
    case True
    obtain src where src: "source = Some (Some src)" "source_ok src" "src_size src \<le> SIZE_MAX" by (rule cli_source [OF s [unfolded True]])
    obtain st1 demux h where o: "tide_demux_open alloc (ps_heap ps) (Some None) (Some src) (Some cli_demux_options) = (st1, demux, h)" by (metis surj_pair)
    note c = tide_demux_open_outcome [OF src(2,3) assms(1) o]
    show ?thesis
    proof (cases "demux_keeps (Some cli_demux_options) st1")
      case False
      then show ?thesis using assms(2) s True src(1) o c by (auto simp: remux_cmd_def cli_keeps Let_def)
    next
      case k: True
      obtain d where d: "demux = Some (Some d)" using c k by blast
      note i = tide_demux_open_inv(1) [OF src(2,3) assms(1) o [unfolded d]]
      show ?thesis
        using assms(2) s True src(1) o d tide_demux_close_owned [OF i]
        by (auto simp: remux_cmd_def Let_def split: prod.splits if_splits dest!: remux_copy_inv [OF i] intro: tide_demux_close_owned)
    qed
  qed
  then show "leases_owned (ps_heap ps') R" .
  show "code \<in> {0, 2, 3, 4, 5, 6, 10}"
    using assms(2) status_to_exit_range by (auto simp only: remux_cmd_def Let_def prod.inject split: prod.splits)
qed


lemma repair_cmd_leases:
  assumes "leases_owned (ps_heap ps) R" and "repair_cmd alloc ps in_path out_path = (code, ps')"
  shows "leases_owned (ps_heap ps') R" and "code \<in> {0, 2, 3, 4, 5, 6, 10}"
proof -
  obtain st source where s: "tide_source_from_file alloc (ps_os ps) (Some None) (Some in_path) = (st, source)" by fastforce
  show "leases_owned (ps_heap ps') R"
  proof (cases "st = TIDE_STATUS_OK \<and> alloc sizeof_repair_plan")
    case False
    then show ?thesis using assms s by (auto simp: repair_cmd_def tide_repair_scan_def tide_repair_write_def Let_def split: prod.splits option.splits if_splits)
  next
    case True
    then have ok: "st = TIDE_STATUS_OK" "alloc sizeof_repair_plan" by simp_all
    obtain src where src: "source = Some (Some src)" "source_ok src" "src_size src \<le> SIZE_MAX" by (rule cli_source [OF s [unfolded ok(1)]])
    obtain st1 plan where p: "tide_repair_scan alloc (Some src) None (Some None) = (st1, Some (Some plan))" "rp_source plan = src"
        "unat (rp_valid_prefix plan) \<le> src_size src"
      using tide_repair_scan_plan [of alloc src None None, OF ok(2) src(2,3)] by blast
    obtain st2 os h where w: "tide_repair_write alloc (ps_heap ps) (ps_os ps) (Some plan) (Some out_path) = (st2, os, h)" by (metis surj_pair)
    have "leases_owned h R" using src p(2,3) by (intro repair_write_leases [OF _ _ _ assms(1) w]) simp_all
    then show ?thesis using assms s ok src(1) p(1) w by (auto simp: repair_cmd_def Let_def split: if_splits)
  qed
  show "code \<in> {0, 2, 3, 4, 5, 6, 10}"
    using assms(2) status_to_exit_range by (auto simp only: repair_cmd_def Let_def prod.inject split: prod.splits)
qed


subsection \<open>What \<open>remux\<close> writes\<close>

lemma cli_demux_options [simp]: "demux_limits (Some cli_demux_options) = tide_limits_default" "demux_track (Some cli_demux_options) = 0"
  by (simp_all add: demux_limits_def demux_track_def cli_demux_options_def tide_limits_default_def)

abbreviation cli_time_base :: tide_rational where
  "cli_time_base \<equiv> \<lparr>numerator = 1, denominator = 1000\<rparr>"

lemma copy_keeps_mux:
  assumes "demux_inv R (d, h)" and "tide_copy_streams alloc (Some d) (Some m) [0..<tide_demux_stream_count (Some d)] = (st, mux1)"
    and "tide_copy_packets alloc h d mux1 = (st', h', d', mux2)"
  shows "mux2 \<noteq> None"
proof -
  obtain st1 m1 h1 where "mux_calls alloc h m (map (\<lambda>i. Add_Stream (dx_streams d ! i)) [0..<dx_stream_count d]) = (st1, m1, h1)" by (metis surj_pair)
  from tide_copy_streams_calls [OF _ this] have "mux1 = Some m1" using assms(2) by (simp add: tide_demux_stream_count_def list_all_iff)
  moreover obtain st2 m2 h2 where "mux_calls alloc h m1 (map Write_Packet (drop (dx_cursor d) (dx_used d))) = (st2, m2, h2)" by (metis surj_pair)
  ultimately show ?thesis using tide_copy_packets_calls [OF assms(1)] assms(3) by fastforce
qed

lemma remux_cmd_writes:
  assumes "\<And>m. alloc m" and "leases_owned (ps_heap ps) R" and "os_files (ps_os ps) in_path = Some c" and "length c < 2 ^ 61"
    and "remux_cmd alloc ps in_path out_path = (0, ps')"
  obtains src d h keys where "source_ok src" and "source_bytes src = c" and "src_size src \<le> SIZE_MAX"
    and "tide_demux_open alloc (ps_heap ps) (Some None) (Some src) (Some cli_demux_options) = (TIDE_STATUS_OK, Some (Some d), h)"
    and "demux_valid keys d" and "dx_stream_count d \<le> unat (max_tracks tide_limits_default)"
    and "list_all (item_single tide_limits_default) (demux_items d)"
    and "os_files (ps_os ps') out_path = Some (tide_file_bytes cli_time_base tide_mux_uuid True (demux_items d))"
proof -
  obtain source demux h mux os h' os' d' where s: "tide_source_from_file alloc (ps_os ps) (Some None) (Some in_path) = (TIDE_STATUS_OK, source)"
    and o: "tide_demux_open alloc (ps_heap ps) (Some None) (the source) (Some cli_demux_options) = (TIDE_STATUS_OK, demux, h)"
    and c: "tide_mux_create alloc (ps_os ps) (Some None) (Some out_path) (Some cli_mux_options) = (TIDE_STATUS_OK, mux, os)"
    and r: "remux_copy alloc h os (the (the demux)) (the mux) = (TIDE_STATUS_OK, h', os', d')" and ps: "ps_os ps' = os'"
    using assms(5) by (auto simp: remux_cmd_def Let_def split: prod.splits if_splits)
  obtain src where src: "source = Some (Some src)" "source_ok src" "src_size src \<le> SIZE_MAX" "source_bytes src = c"
    by (rule cli_source [OF s]) (use assms(3) in simp)
  have small: "src_size src < 2 ^ 61" using src assms(4) by (simp add: source_ok_def)
  note o' = o [unfolded src(1) option.sel]
  obtain d where d: "demux = Some (Some d)" using tide_demux_open_outcome [OF src(2,3) assms(2) o'] by (auto simp: cli_keeps)
  note i = tide_demux_open_inv [OF src(2,3) assms(2) o' [unfolded d]]
  obtain keys where v: "demux_valid keys d" using demux_open_valid(1) [of alloc, OF assms(1) src(2) small assms(2) o' [unfolded d]] by blast
  have tr: "dx_stream_count d \<le> unat (max_tracks tide_limits_default)"
    using demux_open_valid(2) [of alloc, OF assms(1) src(2) small assms(2) o' [unfolded d]] by simp
  from c obtain m where m: "mux = Some (Some m)" "mux_holds m []" "mx_file m = Some out_path" "os_files os out_path = Some []"
      "mx_limits m = tide_limits_default" "mx_movie_time_base m = cli_time_base" "mx_write_footer m"
    by (rule tide_mux_create_holds) (auto simp: cli_mux_options_def tide_limits_default_def)
  obtain mux1 mux2 where "tide_copy_streams alloc (Some d) (Some m) [0..<tide_demux_stream_count (Some d)] = (TIDE_STATUS_OK, mux1)"
      "tide_copy_packets alloc h d mux1 = (TIDE_STATUS_OK, h', d', mux2)" and "mux2 \<noteq> None \<Longrightarrow> tide_mux_close alloc os mux2 = (TIDE_STATUS_OK, os')"
    using r d m(1) by (auto simp: remux_copy_def split: prod.splits if_splits)
  moreover from copy_keeps_mux [OF i(1) this(1,2)] have "mux2 \<noteq> None" .
  ultimately have w: "os_files os' out_path = Some (tide_file_bytes cli_time_base tide_mux_uuid True (demux_items d))"
      "list_all (item_single tide_limits_default) (demux_items d)"
    using copied_file_written [OF i(1,2) v m(2-4)] m(5-7) by auto
  show thesis by (rule that [OF src(2,4,3) o' [unfolded d] v tr w(2)]) (use w(1) ps in simp)
qed


lemma cli_file_opens:
  assumes "\<And>m. alloc m" and "demux_valid keys d" and "dx_stream_count d \<le> unat (max_tracks tide_limits_default)"
    and "list_all (item_single tide_limits_default) (demux_items d)"
    and "source_ok src" and "source_bytes src = tide_file_bytes cli_time_base tide_mux_uuid True (demux_items d)"
    and "src_size src \<le> SIZE_MAX" and "leases_owned h R" and "demux_limits options = tide_limits_default" and "demux_track options = 0"
  shows "\<exists>d2 h2. tide_demux_open alloc h (Some None) (Some src) options = (TIDE_STATUS_OK, Some (Some d2), h2) \<and>
    demux_holds d2 (dx_streams d) (map pr_info (dx_used d)) \<and> demux_inv R (d2, h2) \<and> dx_cursor d2 = 0"
proof -
  have "items_ok tide_limits_default [] (demux_items d)"
    using assms(2-4) item_single_fits unfolding demux_items_def by (intro demux_items_ok) (auto simp: list_all_iff)
  then show ?thesis
    using demux_written_file [of alloc cli_time_base tide_mux_uuid options "demux_items d" src True h R None] assms
    by (auto simp: tide_rational_is_valid_def tide_gcd_u64.simps tide_limits_default_def payload_fits_def)
qed

text \<open>The bytes written for streams and packets only depend on what a reader sees of them.\<close>

definition item_read_back :: "mux_item \<Rightarrow> mux_item" where
  "item_read_back it = (case it of Mux_Stream si \<Rightarrow> Mux_Stream (stream_read_back si) | Mux_Packet p \<Rightarrow> Mux_Packet (packet_read_back p))"

lemma read_back_payload [simp]:
  "view_ok (si_config si) (si_config_size si) \<Longrightarrow> stream_payload_bytes (stream_read_back si) = stream_payload_bytes si"
  "view_ok (pv_data (pk_payload p)) (pv_size (pk_payload p)) \<Longrightarrow> packet_payload_bytes (packet_read_back p) = packet_payload_bytes p"
  by (simp_all add: stream_read_back_def packet_read_back_def stream_payload_bytes_def packet_payload_bytes_def view_bytes_def view_ok_def
      split: option.splits)

lemma item_read_back_payload:
  "item_wf it \<Longrightarrow> item_payload (item_read_back it) = item_payload it" "item_type (item_read_back it) = item_type it"
  by (cases it; simp add: item_read_back_def)+

lemma written_items_read_back: "list_all item_wf its \<Longrightarrow> written_items sq (map item_read_back its) = written_items sq its"
  by (induction its arbitrary: sq) (simp_all add: item_read_back_payload)

lemma tide_file_bytes_read_back:
  assumes "list_all item_wf its" and "list_all item_wf its'" and "map item_read_back its = map item_read_back its'"
  shows "tide_file_bytes tb uuid footer its = tide_file_bytes tb uuid footer its'"
proof -
  have "written_items 0 its = written_items 0 its'"
    using written_items_read_back [OF assms(1), of 0] written_items_read_back [OF assms(2), of 0] assms(3) by simp
  moreover have "length its = length its'" by (metis assms(3) length_map)
  ultimately show ?thesis by (simp add: tide_file_bytes_def tide_file_body_def)
qed

lemma demux_valid_items: "demux_valid keys d \<Longrightarrow> list_all item_wf (demux_items d)"
  by (auto simp: demux_valid_def demux_items_def list_all_iff)

lemma demux_holds_read_back:
  assumes "demux_holds d2 (dx_streams d) (map pr_info (dx_used d))"
  shows "map item_read_back (demux_items d2) = map item_read_back (demux_items d)"
proof -
  have eq: "map item_read_back (demux_items e) = map Mux_Stream (map stream_read_back (dx_streams e)) @ map Mux_Packet (map (packet_read_back \<circ> pr_info) (dx_used e))" for e
    by (simp add: demux_items_def item_read_back_def)
  have "map stream_read_back (dx_streams d2) = map stream_read_back (dx_streams d)"
    "map (packet_read_back \<circ> pr_info) (dx_used d2) = map (packet_read_back \<circ> pr_info) (dx_used d)"
    using assms by (simp_all add: demux_holds_def)
  then show ?thesis by (simp only: eq)
qed


subsection \<open>When \<open>remux\<close> succeeds\<close>

text \<open>What \<open>remux\<close> makes of the contents of a file: the streams first, then the packets.\<close>

definition streams_first :: "mux_item list \<Rightarrow> mux_item list" where
  "streams_first its = map Mux_Stream (item_streams its) @ map Mux_Packet (item_packets its)"

definition items_size :: "mux_item list \<Rightarrow> nat" where
  "items_size its = (\<Sum>it\<leftarrow>its. length (item_payload it) + 48)"

lemma items_size_streams_first: "items_size (streams_first its) = items_size its"
  by (induction its rule: item_streams.induct) (auto simp: streams_first_def items_size_def)

lemma set_streams_first: "set (streams_first its) = set its"
  by (induction its rule: item_streams.induct) (auto simp: streams_first_def)

lemma length_written_items: "length (written_items sq its) \<le> items_size its"
proof (induction its arbitrary: sq)
  case (Cons it its)
  have "length (tide_record_bytes (item_type it) 0 3 sq (item_payload it)) \<le> length (item_payload it) + 48" by (rule record_bytes_bound) simp
  then show ?case using Cons [of "sq + 1"] by (simp add: items_size_def)
qed simp

lemma length_tide_file_bytes:
  "length uuid = 16 \<Longrightarrow> length (tide_file_bytes tb uuid footer its) \<le> items_size its + 169"
proof -
  assume "length uuid = 16"
  have "length (footer_record_bytes sq x) \<le> 97" for sq x
    using record_bytes_bound [of 3 TIDE_RECORD_FOOTER 0 sq "footer_payload_bytes (length x + footer_record_size sq) x"]
    by (simp add: footer_record_bytes_def)
  from this [of "of_nat (length its)" "tide_header_bytes tb uuid @ written_items 0 its"] show ?thesis
    using \<open>length uuid = 16\<close> length_written_items [of 0 its] by (simp add: tide_file_bytes_def tide_file_body_def TIDE_HEADER_SIZE_def)
qed

lemma cli_mux_create [simp]:
  "tide_mux_create alloc os out path (Some cli_mux_options) = tide_mux_create alloc os out path None"
  by (simp add: tide_mux_create_def cli_mux_options_def tide_limits_default_def)

lemma demux_holds_items:
  assumes "demux_holds d (item_streams its) (item_packets its)"
  shows "map item_read_back (demux_items d) = map item_read_back (streams_first its)"
proof -
  have "map item_read_back (demux_items d) =
      map Mux_Stream (map stream_read_back (dx_streams d)) @ map Mux_Packet (map (packet_read_back \<circ> pr_info) (dx_used d))"
    by (simp add: demux_items_def item_read_back_def)
  moreover have "map stream_read_back (dx_streams d) = map stream_read_back (item_streams its)"
    "map (packet_read_back \<circ> pr_info) (dx_used d) = map packet_read_back (item_packets its)"
    using assms by (simp_all add: demux_holds_def)
  ultimately show ?thesis by (simp add: streams_first_def item_read_back_def)
qed

lemma read_back_payloads:
  assumes "list_all item_wf its" and "list_all item_wf its'" and "map item_read_back its = map item_read_back its'"
  shows "map item_payload its = map item_payload its'"
proof -
  have "map item_payload xs = map item_payload (map item_read_back xs)" if "list_all item_wf xs" for xs
    using that by (simp add: list_all_iff item_read_back_payload)
  then show ?thesis using assms by metis
qed


lemma demuxed_items:
  assumes "demux_holds d (item_streams its) (item_packets its)" and "demux_valid keys d" and "items_ok lims [] its"
  shows "items_size (demux_items d) = items_size its"
    and "list_all (item_single lims') its \<Longrightarrow> list_all (item_single lims') (demux_items d)"
    and "tide_file_bytes tb uuid footer (demux_items d) = tide_file_bytes tb uuid footer (streams_first its)"
proof -
  have wf: "list_all item_wf (streams_first its)" using items_ok_wf [OF assms(3)] by (simp add: list_all_iff set_streams_first)
  note rb = demux_holds_items [OF assms(1)]
  show "tide_file_bytes tb uuid footer (demux_items d) = tide_file_bytes tb uuid footer (streams_first its)"
    by (rule tide_file_bytes_read_back [OF demux_valid_items [OF assms(2)] wf rb])
  have pl: "map item_payload (demux_items d) = map item_payload (streams_first its)"
    by (rule read_back_payloads [OF demux_valid_items [OF assms(2)] wf rb])
  show "items_size (demux_items d) = items_size its"
    using arg_cong [OF pl, of "\<lambda>ps. \<Sum>p\<leftarrow>ps. length p + 48"] items_size_streams_first [of its] by (simp add: items_size_def comp_def)
  have eq: "list_all (item_single lims') xs = list_all (\<lambda>p. max_single_alloc lims' = 0 \<or> length p \<le> max_single_alloc lims') (map item_payload xs)" for xs
    by (simp add: list_all_iff item_single_def)
  show "list_all (item_single lims') (demux_items d)" if "list_all (item_single lims') its"
  proof -
    have "list_all (item_single lims') (streams_first its)" using that by (simp add: list_all_iff set_streams_first)
    then show ?thesis unfolding eq pl .
  qed
qed

lemma os_works_less: "os_works os n \<Longrightarrow> k \<le> n \<Longrightarrow> os_works os k"
  by (simp add: os_works_def)

text \<open>With enough memory, room and a working disk, copying out a demultiplexer succeeds.\<close>

lemma copy_succeeds:
  assumes alloc: "\<And>k. alloc k" and inv: "demux_inv R (d, h)" "dx_cursor d = 0" "demux_valid keys d"
    and m: "mux_holds m []" "mx_limits m = tide_limits_default" "buf_limit (mx_buffer m) = max_aggregate_alloc tide_limits_default"
    and single: "list_all (item_single tide_limits_default) (demux_items d)"
    and total: "items_size (demux_items d) + 217 \<le> max_aggregate_alloc tide_limits_default"
    and os: "os_works os (max_aggregate_alloc tide_limits_default)"
  shows "\<exists>mux1 h' d' m2 os'. tide_copy_streams alloc (Some d) (Some m) [0..<tide_demux_stream_count (Some d)] = (TIDE_STATUS_OK, mux1) \<and>
    tide_copy_packets alloc h d mux1 = (TIDE_STATUS_OK, h', d', Some m2) \<and> tide_mux_close alloc os (Some m2) = (TIDE_STATUS_OK, os')"
proof -
  let ?c1 = "map (\<lambda>i. Add_Stream (dx_streams d ! i)) [0..<dx_stream_count d]" and ?c2 = "map Write_Packet (drop (dx_cursor d) (dx_used d))"
  have "map call_item ?c1 = map Mux_Stream (map ((!) (dx_streams d)) [0..<dx_stream_count d])" by simp
  then have c1: "map call_item ?c1 = map Mux_Stream (dx_streams d)" by (simp only: map_nth)
  have c2: "map call_item ?c2 = map (Mux_Packet \<circ> pr_info) (dx_used d)" using inv(2) by simp
  have items: "demux_items d = map call_item ?c1 @ map call_item ?c2" unfolding c1 c2 demux_items_def ..
  have size: "calls_size ?c1 + calls_size ?c2 = items_size (demux_items d)"
    unfolding items by (simp only: calls_size_def items_size_def map_append map_map sum_list_append comp_def)
  have wf: "list_all (item_wf \<circ> call_item) ?c1" "list_all (item_wf \<circ> call_item) ?c2"
    using demux_valid_items [OF inv(3)] unfolding items list.pred_map list_all_append by blast+
  have fits: "list_all (single_fits tide_limits_default) ?c1" "list_all (single_fits tide_limits_default) ?c2"
    using single unfolding items list.pred_map list_all_append comp_def single_fits_def item_single_def by blast+
  have bs: "buf_size (mx_buffer m) = 72" using m(1) by (simp add: mux_holds_def tide_file_body_def TIDE_HEADER_SIZE_def)
  have room: "tide_buffer_fits (mx_buffer m) (calls_size ?c1 + (calls_size ?c2 + 145))"
    using total size bs m(3) by (simp add: tide_buffer_fits_def SIZE_MAX_def tide_limits_default_def)
  obtain m1 h1 where m1: "mux_calls alloc h m ?c1 = (TIDE_STATUS_OK, m1, h1)" "tide_buffer_fits (mx_buffer m1) (calls_size ?c2 + 145)"
    using mux_calls_succeed [of alloc, OF alloc m(1) wf(1) _ room, of h] fits(1) m(2) by auto
  note k1 = mux_calls_hold [OF m(1) wf(1) m1(1)]
  obtain m2 h2 where m2: "mux_calls alloc h m1 ?c2 = (TIDE_STATUS_OK, m2, h2)" "tide_buffer_fits (mx_buffer m2) 145"
    using mux_calls_succeed [of alloc, OF alloc k1(1) wf(2) _ m1(2), of h] fits(2) m(2) k1(2) by (auto simp: same_mux_def)
  note k2 = mux_calls_hold [OF k1(1) wf(2) m2(1)]
  have same: "same_mux m m2" using k1(2) k2(2) by (rule same_mux_trans)
  have st: "tide_copy_streams alloc (Some d) (Some m) [0..<tide_demux_stream_count (Some d)] = (TIDE_STATUS_OK, Some m1)"
    using tide_copy_streams_calls [OF _ m1(1)] by (simp add: tide_demux_stream_count_def list_all_iff)
  obtain h' d' where pk: "tide_copy_packets alloc h d (Some m1) = (TIDE_STATUS_OK, h', d', Some m2)"
    using tide_copy_packets_calls [OF inv(1) m2(1)] by blast
  have len: "length (tide_file_bytes tb tide_mux_uuid footer (map call_item ?c1 @ map call_item ?c2)) \<le> max_aggregate_alloc tide_limits_default" for tb footer
    using length_tide_file_bytes [of tide_mux_uuid tb footer "demux_items d"] total unfolding items by simp
  have h2: "mux_holds m2 (map call_item ?c1 @ map call_item ?c2)" using k2(1) by simp
  have r2: "mux_room m2 97" using m2(2) m(2) same by (simp add: mux_room_def same_mux_def tide_limits_default_def)
  have "fst (tide_mux_close alloc os (Some m2)) = TIDE_STATUS_OK"
    by (rule tide_mux_close_succeeds [of alloc, OF alloc h2 r2 os_works_less [OF os len]])
  then obtain os' where "tide_mux_close alloc os (Some m2) = (TIDE_STATUS_OK, os')" by (cases "tide_mux_close alloc os (Some m2)") simp
  then show ?thesis using st pk by blast
qed


lemma mux_created:
  assumes "\<And>k. alloc k" and "os_writable os path"
  obtains m os1 where "tide_mux_create alloc os (Some None) (Some path) None = (TIDE_STATUS_OK, Some (Some m), os1)"
    and "mux_holds m []" and "mx_limits m = tide_limits_default" and "buf_limit (mx_buffer m) = max_aggregate_alloc tide_limits_default"
    and "os1 = os\<lparr>os_files := (os_files os)(path \<mapsto> [])\<rparr>"
proof -
  obtain mux os1 where c: "tide_mux_create alloc os (Some None) (Some path) None = (TIDE_STATUS_OK, mux, os1)"
    using tide_mux_create_succeeds [of alloc, OF assms, of None] by (cases "tide_mux_create alloc os (Some None) (Some path) None") auto
  then show thesis by (rule tide_mux_create_holds) (use that c in auto)
qed

lemma cli_opens_written:
  assumes "\<And>m. alloc m" and "tide_rational_is_valid tb" and "length uuid = 16" "uuid \<noteq> replicate 16 0" and "items_ok tide_limits_default [] its"
    and "source_ok src" and "source_bytes src = tide_file_bytes tb uuid footer its" and "src_size src \<le> SIZE_MAX" and "leases_owned h R"
  shows "\<exists>d h'. tide_demux_open alloc h (Some None) (Some src) (Some cli_demux_options) = (TIDE_STATUS_OK, Some (Some d), h') \<and> demux_inv R (d, h') \<and>
    demux_holds d (item_streams its) (item_packets its) \<and> dx_cursor d = 0"
proof -
  have "64 * 1024 * 1024 \<le> max_record_size tide_limits_default" "payload_fits tide_limits_default 49"
    by (simp_all add: tide_limits_default_def payload_fits_def)
  from demux_written_file [of alloc, OF assms(1-4), of "Some cli_demux_options", unfolded cli_demux_options, OF assms(5) this assms(6-9), of None]
  show ?thesis by simp
qed

lemma remux_cmd_completes:
  assumes alloc: "\<And>m. alloc m" and own: "leases_owned (ps_heap ps) R"
    and tb: "tide_rational_is_valid tb" and uuid: "length uuid = 16" "uuid \<noteq> replicate 16 0"
    and its: "items_ok tide_limits_default [] its" "list_all (item_single tide_limits_default) its"
      "items_size its + 217 \<le> max_aggregate_alloc tide_limits_default"
    and inp: "os_files (ps_os ps) in_path = Some (tide_file_bytes tb uuid footer its)"
    and os: "os_works (ps_os ps) (max_aggregate_alloc tide_limits_default)" "os_writable (ps_os ps) out_path"
  shows "\<exists>ps'. remux_cmd alloc ps in_path out_path = (0, ps') \<and>
    os_files (ps_os ps') out_path = Some (tide_file_bytes cli_time_base tide_mux_uuid True (streams_first its))"
proof -
  let ?c = "tide_file_bytes tb uuid footer its"
  have len: "length ?c \<le> max_aggregate_alloc tide_limits_default" using length_tide_file_bytes [OF uuid(1), of tb footer its] its(3) by simp
  obtain src where s: "tide_source_from_file alloc (ps_os ps) (Some None) (Some in_path) = (TIDE_STATUS_OK, Some (Some src))"
    using tide_source_from_file_works [of alloc, OF alloc os_works_less [OF os(1) len] inp] by blast
  have src: "source_ok src \<and> src_size src \<le> SIZE_MAX \<and> source_bytes src = ?c" by (rule cli_source [OF s]) (use inp in simp)
  obtain d h where o: "tide_demux_open alloc (ps_heap ps) (Some None) (Some src) (Some cli_demux_options) = (TIDE_STATUS_OK, Some (Some d), h)"
    and inv: "demux_inv R (d, h)" "dx_cursor d = 0" and holds: "demux_holds d (item_streams its) (item_packets its)"
    using cli_opens_written [of alloc, OF alloc tb uuid its(1) _ _ _ own] src by blast
  have "src_size src = length ?c" using src by (auto simp: source_ok_def)
  then have small: "src_size src < 2 ^ 61" using len by (simp add: tide_limits_default_def)
  obtain keys where v: "demux_valid keys d" using demux_open_valid(1) [of alloc, OF alloc _ small own o] src by blast
  note fit = demuxed_items [OF holds v its(1)]
  obtain m os1 where m: "tide_mux_create alloc (ps_os ps) (Some None) (Some out_path) None = (TIDE_STATUS_OK, Some (Some m), os1)"
      "mux_holds m []" "mx_limits m = tide_limits_default" "buf_limit (mx_buffer m) = max_aggregate_alloc tide_limits_default"
      "os1 = (ps_os ps)\<lparr>os_files := (os_files (ps_os ps))(out_path \<mapsto> [])\<rparr>"
    by (rule mux_created [of alloc, OF alloc os(2)])
  have "os_works os1 (max_aggregate_alloc tide_limits_default)" using os(1) m(5) by (simp add: os_works_def)
  then obtain h' os' d' where "remux_copy alloc h os1 d (Some m) = (TIDE_STATUS_OK, h', os', d')"
    using copy_succeeds [of alloc, OF alloc inv v m(2-4) fit(2) [OF its(2)], of os1] its(3) fit(1) by (auto simp: remux_copy_def)
  then obtain ps' where ok: "remux_cmd alloc ps in_path out_path = (0, ps')" using s o m(1) by (simp add: remux_cmd_def)
  have big: "length ?c < 2 ^ 61" using len by (simp add: tide_limits_default_def)
  obtain src2 d2 h2 keys2 where w: "source_ok src2" "source_bytes src2 = ?c" "src_size src2 \<le> SIZE_MAX"
      "tide_demux_open alloc (ps_heap ps) (Some None) (Some src2) (Some cli_demux_options) = (TIDE_STATUS_OK, Some (Some d2), h2)"
      "demux_valid keys2 d2" "os_files (ps_os ps') out_path = Some (tide_file_bytes cli_time_base tide_mux_uuid True (demux_items d2))"
    by (rule remux_cmd_writes [of alloc, OF alloc own inp big ok])
  have "demux_holds d2 (item_streams its) (item_packets its)"
    using cli_opens_written [of alloc, OF alloc tb uuid its(1) w(1-3) own] w(4) by auto
  from demuxed_items(3) [OF this w(5) its(1)] w(6) ok show ?thesis by simp
qed

lemma mux_touches_files:
  "tide_mux_create alloc os out path options = (status, mux, os') \<Longrightarrow> \<exists>f. os' = os\<lparr>os_files := f\<rparr>"
  "tide_mux_close alloc os m = (status', os') \<Longrightarrow> \<exists>f. os' = os\<lparr>os_files := f\<rparr>"
proof -
  have keep: "\<exists>f. os = os\<lparr>os_files := f\<rparr>" by (rule exI [of _ "os_files os"]) simp
  show "tide_mux_create alloc os out path options = (status, mux, os') \<Longrightarrow> \<exists>f. os' = os\<lparr>os_files := f\<rparr>"
    using keep by (auto simp: tide_mux_create_def os_fopen_wb_def tide_mux_abort_def Let_def split: if_splits prod.splits)
  show "tide_mux_close alloc os m = (status', os') \<Longrightarrow> \<exists>f. os' = os\<lparr>os_files := f\<rparr>"
    using keep by (auto simp: tide_mux_close_def os_fwrite_def Let_def split: if_splits prod.splits option.splits)
qed

lemma remux_touches_files:
  assumes "remux_cmd alloc ps in_path out_path = (code, ps')"
  shows "\<exists>f. ps_os ps' = (ps_os ps)\<lparr>os_files := f\<rparr>"
proof -
  have keep: "\<exists>f. os = os\<lparr>os_files := f\<rparr>" for os by (rule exI [of _ "os_files os"]) simp
  have "\<exists>f. os' = os\<lparr>os_files := f\<rparr>" if "remux_copy alloc h os d mux = (status, h', os', d')" for h os d mux status h' os' d'
    using that keep by (auto simp: remux_copy_def split: prod.splits if_splits dest: mux_touches_files(2))
  then show ?thesis
    using assms keep unfolding remux_cmd_def Let_def
    by (auto split: prod.splits if_splits dest!: mux_touches_files(1)) (metis tide_os.update_convs(1) tide_os.surjective)+
qed

subsection \<open>Properties\<close>

text \<open>A file with one stream and one packet, and a process that can read it.\<close>

definition sample_items :: "mux_item list" where
  "sample_items = [Mux_Stream sample_stream, Mux_Packet sample_packet]"

definition sample_file :: bytes where
  "sample_file = tide_file_bytes cli_time_base tide_mux_uuid True sample_items"

definition sample_process :: tide_process where
  "sample_process = \<lparr>ps_os = \<lparr>os_files = [''a'' \<mapsto> sample_file], os_writable = (\<lambda>_. True), os_seek_ok = True, os_tell_ok = True,
     os_read_max = 2 ^ 40, os_write_max = 2 ^ 40, os_close_ok = True\<rparr>, ps_heap = lease_heap_empty, ps_stdout = [], ps_stderr = []\<rparr>"

lemma sample_items:
  "items_ok tide_limits_default [] sample_items" "list_all (item_single tide_limits_default) sample_items"
  "items_size sample_items + 217 \<le> max_aggregate_alloc tide_limits_default" "streams_first sample_items = sample_items"
  "tide_rational_is_valid cli_time_base" "length sample_file < 2 ^ 61"
proof -
  show "items_ok tide_limits_default [] sample_items"
    using sample_valid length_sample_payloads by (simp add: sample_items_def tide_limits_default_def payload_fits_def)
      (simp add: sample_stream_def sample_packet_def)
  show "list_all (item_single tide_limits_default) sample_items" "items_size sample_items + 217 \<le> max_aggregate_alloc tide_limits_default"
    "streams_first sample_items = sample_items"
    by (simp_all add: sample_items_def item_single_def length_sample_payloads tide_limits_default_def items_size_def streams_first_def)
  show "tide_rational_is_valid cli_time_base" by (simp add: tide_rational_is_valid_def tide_gcd_u64.simps)
  have "items_size sample_items = 171" by (simp add: items_size_def sample_items_def length_sample_payloads)
  then show "length sample_file < 2 ^ 61" using length_tide_file_bytes [of tide_mux_uuid cli_time_base True sample_items] by (simp add: sample_file_def)
qed

lemma sample_process:
  "leases_owned (ps_heap sample_process) {#}" "os_works (ps_os sample_process) (max_aggregate_alloc tide_limits_default)"
  "os_writable (ps_os sample_process) path" "os_files (ps_os sample_process) ''a'' = Some sample_file"
  by (simp_all add: sample_process_def leases_owned_empty os_works_def tide_limits_default_def)

lemma sample_remux:
  assumes "leases_owned (ps_heap ps) {#}" and "os_works (ps_os ps) (max_aggregate_alloc tide_limits_default)" and "\<And>p. os_writable (ps_os ps) p"
    and "os_files (ps_os ps) in_path = Some sample_file"
  obtains ps' where "remux_cmd (\<lambda>_. True) ps in_path out_path = (0, ps')" and "os_files (ps_os ps') out_path = Some sample_file"
    and "leases_owned (ps_heap ps') {#}" and "os_works (ps_os ps') (max_aggregate_alloc tide_limits_default)" and "\<And>p. os_writable (ps_os ps') p"
proof -
  obtain ps' where r: "remux_cmd (\<lambda>_. True) ps in_path out_path = (0, ps')" "os_files (ps_os ps') out_path = Some sample_file"
    using remux_cmd_completes [of "\<lambda>_. True", OF TrueI assms(1) sample_items(5) tide_mux_uuid sample_items(1-3) _ assms(2,3), of in_path True out_path]
      assms(4) unfolding sample_file_def sample_items(4) by blast
  obtain f where "ps_os ps' = (ps_os ps)\<lparr>os_files := f\<rparr>" using remux_touches_files [OF r(1)] by blast
  then show thesis using assms(2,3) remux_cmd_leases(1) [OF assms(1) r(1)] by (intro that [OF r]) (simp_all add: os_works_def)
qed

text \<open>C10: every run of the program, with any arguments, any files, and wherever memory or the disk fail, ends with one of the
  documented exit codes and keeps the accounting of payload leases: nothing leaks and no freed payload is used.\<close>

theorem tide_main_leases:
  assumes "leases_owned (ps_heap ps) R" and "tide_main alloc ps argv = (code, ps')"
  shows "leases_owned (ps_heap ps') R \<and> code \<in> {0, 2, 3, 4, 5, 6, 10}"
  using assms inspect_cmd_leases [OF assms(1)] remux_cmd_leases [OF assms(1)] repair_cmd_leases [OF assms(1)]
  unfolding tide_main_def by (auto simp del: insert_iff split: if_splits) 

theorem tide_main_leases_witness:
  "\<exists>code ps'. tide_main (\<lambda>_. False) sample_process [''tide'', ''remux'', ''a'', ''b''] = (code, ps') \<and> leases_owned (ps_heap ps') {#}"
proof -
  obtain code ps' where m: "tide_main (\<lambda>_. False) sample_process [''tide'', ''remux'', ''a'', ''b''] = (code, ps')" by fastforce
  from tide_main_leases [OF sample_process(1) this] m show ?thesis by blast
qed

text \<open>C14: \<open>remux\<close> keeps the content: when it exits with 0, the whole contents of its input demultiplex without error, and the file
  it wrote demultiplexes to the same streams and packets, all of them and in the same order.\<close>

theorem remux_cmd_preserves:
  assumes "\<And>m. alloc m" and "leases_owned (ps_heap ps) R" and "os_files (ps_os ps) in_path = Some c" and "length c < 2 ^ 61"
    and "remux_cmd alloc ps in_path out_path = (0, ps')"
    and "tide_source_from_file alloc (ps_os ps') (Some None) (Some out_path) = (TIDE_STATUS_OK, Some (Some src2))"
  shows "\<exists>src d h d2 h2. source_ok src \<and> src_size src = length c \<and> source_bytes src = c \<and>
    tide_demux_open alloc (ps_heap ps) (Some None) (Some src) (Some cli_demux_options) = (TIDE_STATUS_OK, Some (Some d), h) \<and>
    tide_demux_open alloc (ps_heap ps') (Some None) (Some src2) (Some cli_demux_options) = (TIDE_STATUS_OK, Some (Some d2), h2) \<and>
    demux_holds d2 (dx_streams d) (map pr_info (dx_used d))"
proof -
  obtain src d h keys where w: "source_bytes src = c"
      "tide_demux_open alloc (ps_heap ps) (Some None) (Some src) (Some cli_demux_options) = (TIDE_STATUS_OK, Some (Some d), h)"
      "demux_valid keys d" "dx_stream_count d \<le> unat (max_tracks tide_limits_default)" "list_all (item_single tide_limits_default) (demux_items d)"
      "os_files (ps_os ps') out_path = Some (tide_file_bytes cli_time_base tide_mux_uuid True (demux_items d))" and src: "source_ok src"
    by (rule remux_cmd_writes [of alloc, OF assms(1-5)])
  have "src_size src = length c" using src w(1) by (simp add: source_ok_def)
  moreover have src2: "source_ok src2 \<and> src_size src2 \<le> SIZE_MAX \<and> source_bytes src2 = tide_file_bytes cli_time_base tide_mux_uuid True (demux_items d)"
    by (rule cli_source [OF assms(6)]) (use w(6) in simp)
  moreover have "leases_owned (ps_heap ps') R" by (rule remux_cmd_leases [OF assms(2,5)])
  ultimately show ?thesis
    using cli_file_opens [of alloc, OF assms(1) w(3-5), of src2 "ps_heap ps'" R "Some cli_demux_options"] src w(1,2) by auto
qed

theorem remux_cmd_preserves_witness:
  "\<exists>ps' src2 d2 h2. remux_cmd (\<lambda>_. True) sample_process ''a'' ''b'' = (0, ps') \<and>
    tide_source_from_file (\<lambda>_. True) (ps_os ps') (Some None) (Some ''b'') = (TIDE_STATUS_OK, Some (Some src2)) \<and>
    tide_demux_open (\<lambda>_. True) (ps_heap ps') (Some None) (Some src2) (Some cli_demux_options) = (TIDE_STATUS_OK, Some (Some d2), h2)"
proof -
  let ?a = "\<lambda>_ :: nat. True"
  obtain ps' where r: "remux_cmd ?a sample_process ''a'' ''b'' = (0, ps')" "os_files (ps_os ps') ''b'' = Some sample_file"
      "os_works (ps_os ps') (max_aggregate_alloc tide_limits_default)"
    by (rule sample_remux [OF sample_process])
  have "length sample_file \<le> max_aggregate_alloc tide_limits_default"
    using length_tide_file_bytes [of tide_mux_uuid cli_time_base True sample_items] sample_items(3) by (simp add: sample_file_def)
  from tide_source_from_file_works [of ?a, OF TrueI os_works_less [OF r(3) this] r(2)] obtain src2
    where f: "tide_source_from_file ?a (ps_os ps') (Some None) (Some ''b'') = (TIDE_STATUS_OK, Some (Some src2))" by blast
  from remux_cmd_preserves [of ?a, OF TrueI sample_process(1,4) sample_items(6) r(1) f] r(1) f show ?thesis by blast
qed

text \<open>C15: \<open>remux\<close> is idempotent: remultiplexing a file that \<open>remux\<close> wrote gives the same file, byte for byte.\<close>

theorem remux_cmd_idempotent:
  assumes "\<And>m. alloc m" and "leases_owned (ps_heap ps) R" and "os_files (ps_os ps) in_path = Some c" and "length c < 2 ^ 61"
    and "remux_cmd alloc ps in_path path1 = (0, ps1)" and "os_files (ps_os ps1) path1 = Some c1" and "length c1 < 2 ^ 61"
    and "remux_cmd alloc ps1 path1 path2 = (0, ps2)"
  shows "os_files (ps_os ps2) path2 = Some c1"
proof -
  obtain src d h keys where w: "demux_valid keys d" "dx_stream_count d \<le> unat (max_tracks tide_limits_default)"
      "list_all (item_single tide_limits_default) (demux_items d)" "c1 = tide_file_bytes cli_time_base tide_mux_uuid True (demux_items d)"
    by (rule remux_cmd_writes [of alloc, OF assms(1-5)]) (use assms(6) in simp)
  have own: "leases_owned (ps_heap ps1) R" by (rule remux_cmd_leases [OF assms(2,5)])
  obtain src2 d2 h2 keys2 where w2: "source_ok src2" "source_bytes src2 = c1" "src_size src2 \<le> SIZE_MAX"
      "tide_demux_open alloc (ps_heap ps1) (Some None) (Some src2) (Some cli_demux_options) = (TIDE_STATUS_OK, Some (Some d2), h2)"
      "demux_valid keys2 d2" "os_files (ps_os ps2) path2 = Some (tide_file_bytes cli_time_base tide_mux_uuid True (demux_items d2))"
    by (rule remux_cmd_writes [of alloc, OF assms(1) own assms(6-8)])
  have "demux_holds d2 (dx_streams d) (map pr_info (dx_used d))"
    using cli_file_opens [of alloc, OF assms(1) w(1-3) w2(1) _ w2(3) own, of "Some cli_demux_options"] w(4) w2(2,4) by simp
  then have "map item_read_back (demux_items d2) = map item_read_back (demux_items d)" by (rule demux_holds_read_back)
  from tide_file_bytes_read_back [OF demux_valid_items [OF w2(5)] demux_valid_items [OF w(1)] this] w(4) w2(6) show ?thesis by simp
qed

theorem remux_cmd_idempotent_witness:
  "\<exists>ps1 ps2 c. remux_cmd (\<lambda>_. True) sample_process ''a'' ''b'' = (0, ps1) \<and> remux_cmd (\<lambda>_. True) ps1 ''b'' ''c'' = (0, ps2) \<and>
    os_files (ps_os ps1) ''b'' = Some c \<and> os_files (ps_os ps2) ''c'' = Some c"
proof -
  let ?a = "\<lambda>_ :: nat. True"
  obtain ps1 where r: "remux_cmd ?a sample_process ''a'' ''b'' = (0, ps1)" "os_files (ps_os ps1) ''b'' = Some sample_file"
      "leases_owned (ps_heap ps1) {#}" "os_works (ps_os ps1) (max_aggregate_alloc tide_limits_default)" "\<And>p. os_writable (ps_os ps1) p"
    by (rule sample_remux [OF sample_process, where out_path = "''b''"]) blast
  obtain ps2 where r2: "remux_cmd ?a ps1 ''b'' ''c'' = (0, ps2)" by (rule sample_remux [OF r(3,4,5,2)])
  from remux_cmd_idempotent [of ?a, OF TrueI sample_process(1,4) sample_items(6) r(1,2) sample_items(6) r2] r(1,2) r2 show ?thesis by blast
qed

text \<open>C4: \<open>remux\<close> does its work: given a file the format allows, whose records are within the multiplexer's limits, enough memory
  and a working disk, it terminates with exit code 0 and leaves the file with the same streams, then the same packets.\<close>

theorem remux_cmd_succeeds:
  assumes "\<And>m. alloc m" and "leases_owned (ps_heap ps) R" and "tide_rational_is_valid tb" and "length uuid = 16" "uuid \<noteq> replicate 16 0"
    and "items_ok tide_limits_default [] its" and "list_all (item_single tide_limits_default) its"
    and "items_size its + 217 \<le> max_aggregate_alloc tide_limits_default"
    and "os_files (ps_os ps) in_path = Some (tide_file_bytes tb uuid footer its)"
    and "os_works (ps_os ps) (max_aggregate_alloc tide_limits_default)" and "os_writable (ps_os ps) out_path"
  shows "\<exists>ps'. remux_cmd alloc ps in_path out_path = (0, ps') \<and>
    os_files (ps_os ps') out_path = Some (tide_file_bytes cli_time_base tide_mux_uuid True (streams_first its))"
  by (rule remux_cmd_completes [OF assms])

theorem remux_cmd_succeeds_witness:
  "\<exists>ps'. remux_cmd (\<lambda>_. True) sample_process ''a'' ''b'' = (0, ps') \<and> os_files (ps_os ps') ''b'' = Some sample_file"
  using remux_cmd_succeeds [of "\<lambda>_. True", OF TrueI sample_process(1) sample_items(5) tide_mux_uuid sample_items(1-3)
      sample_process(4) [unfolded sample_file_def] sample_process(2,3)]
  by (simp add: sample_items(4) flip: sample_file_def)

end
