(* ===== verification/Tide_Recovery.thy ===== *)
theory Tide_Recovery
  imports Tide_Cli
begin

text \<open>
  Files that were cut short, for instance by a writer that was interrupted.

  \<open>decode_cut_record\<close>: a proper prefix of a record is reported as truncated, never as malformed and never as a record.
  \<open>complete_items\<close> are the streams and packets of a file whose records lie in front of the cut; a parse delivers exactly them and
  reports the end of the last one (\<open>cut_file_parses\<close>). The properties carry this through \<open>src/demux/demux.c\<close>,
  \<open>src/repair/scanner.c\<close> and the \<open>repair\<close> command of \<open>src/cli/main.c\<close>.
\<close>

subsection \<open>A record that is cut short\<close>

lemma tide_read_prefix_written:
  assumes "length payload < 2 ^ 62"
  shows "tide_read_prefix (tide_reader_init (tide_record_bytes type flags al sq payload)) =
    Some ((type, flags, of_nat (record_header_size (length payload) sq), al, of_nat (length payload), sq),
      rd_advance (record_header_size (length payload) sq) (tide_reader_init (tide_record_bytes type flags al sq payload)))"
proof -
  let ?R = "tide_record_bytes type flags al sq payload" and ?hs = "record_header_size (length payload) sq"
  obtain zs where "rd_rest (tide_reader_init ?R) = u16_bytes type @ u16_bytes flags @ u16_bytes (of_nat ?hs) @ [al] @ [0] @
      tide_uleb128_bytes (of_nat (length payload)) @ tide_uleb128_bytes sq @ zs"
    by (auto simp: tide_record_bytes_def record_body_bytes_def record_prefix_bytes_def Let_def)
  from tide_read_prefix_decodes [OF rd_ok_init this] show ?thesis
    by (simp add: record_header_size_def tide_uleb128_size_eq)
qed

lemma decode_cut_record:
  assumes al: "al \<le> 4" and n: "length payload < 2 ^ 62"
    and cut: "byte_span data offset stop = take m (tide_record_bytes type flags al sq payload)" "m < length (tide_record_bytes type flags al sq payload)"
    and m: "m = stop - offset" "stop \<le> length data" "offset \<le> stop"
    and size: "offset + length (tide_record_bytes type flags al sq payload) \<le> SIZE_MAX"
  shows "tide_decode_record_prefix data stop offset depth e = Inl (TIDE_STATUS_TRUNCATED, e)"
proof (cases "tide_read_prefix (tide_reader_init (take m (tide_record_bytes type flags al sq payload)))")
  case None
  then show ?thesis by (simp add: tide_decode_record_prefix_def cut(1))
next
  case (Some x)
  let ?R = "tide_record_bytes type flags al sq payload" and ?hs = "record_header_size (length payload) sq"
  obtain y r where x: "x = (y, r)" by (cases x)
  from prefix_fields.extends [OF Some [unfolded x], of "drop m ?R"]
  have ext: "tide_read_prefix (tide_reader_init ?R) = Some (y, rd_advance (rd_offset r) (tide_reader_init ?R))" by simp
  note w = tide_read_prefix_written [OF n, of type flags al sq]
  have y: "y = (type, flags, of_nat ?hs, al, of_nat (length payload), sq)" using ext w by simp
  have r: "rd_offset r = ?hs" using ext w by (simp add: rd_advance_def tide_reader_init_def)
  have hs: "?hs \<le> 28" by (rule record_header_size_bounds)
  let ?m = "align_up (unat al) (?hs + length payload)"
  have lenR: "length ?R = ?m + 4" by (rule length_tide_record_bytes)
  have place: "tide_place_record offset (of_nat ?hs) (of_nat (length payload)) al = Some (of_nat (offset + ?hs + length payload),
      of_nat (offset + ?m), of_nat (offset + ?m + 4))"
    using size lenR hs n by (intro tide_place_record_written [OF al]) simp_all
  have "unat (of_nat (offset + ?m + 4) :: u64) > stop" using size lenR cut(2) m by (simp del: of_nat_add)
  then show ?thesis
    unfolding tide_decode_record_prefix_def cut(1) Some x y option.case prod.case place
    using al r by (simp add: unat_header_size del: of_nat_add)
qed


text \<open>A proper, non-empty prefix of a record of at most \<open>b\<close> bytes.\<close>

definition cut_record :: "nat \<Rightarrow> bytes \<Rightarrow> bool" where
  "cut_record b tail \<longleftrightarrow> (\<exists>type flags al sq payload. al \<le> 4 \<and> length payload < 2 ^ 62 \<and> length (tide_record_bytes type flags al sq payload) \<le> b \<and>
     tail \<noteq> [] \<and> length tail < length (tide_record_bytes type flags al sq payload) \<and>
     tail = take (length tail) (tide_record_bytes type flags al sq payload))"

lemma cut_recordI:
  assumes "al \<le> 4" and "length payload < 2 ^ 62" and "0 < k" and "k < length (tide_record_bytes type flags al sq payload)"
    and "length (tide_record_bytes type flags al sq payload) \<le> b"
  shows "cut_record b (take k (tide_record_bytes type flags al sq payload))"
  unfolding cut_record_def
  by (rule exI [of _ type], rule exI [of _ flags], rule exI [of _ al], rule exI [of _ sq], rule exI [of _ payload]) (use assms in auto)

lemma parse_cut_record:
  assumes "cut_record b tail" and "length pre + b \<le> SIZE_MAX"
  shows "tide_parse_records alloc s (pre @ tail) (length pre) (length (pre @ tail)) depth =
    (TIDE_STATUS_TRUNCATED, s\<lparr>di_valid_prefix := of_nat (length pre)\<rparr>)"
proof -
  from assms(1) obtain type flags al sq payload where c: "al \<le> 4" "length payload < 2 ^ 62"
      "length (tide_record_bytes type flags al sq payload) \<le> b" "tail \<noteq> []" "length tail < length (tide_record_bytes type flags al sq payload)"
      "tail = take (length tail) (tide_record_bytes type flags al sq payload)"
    unfolding cut_record_def by blast
  have "byte_span (pre @ tail) (length pre) (length (pre @ tail)) = take (length tail) (tide_record_bytes type flags al sq payload)"
    using c(6) by (simp add: byte_span_def)
  then have "tide_decode_record_prefix (pre @ tail) (length (pre @ tail)) (length pre) depth (di_error s) = Inl (TIDE_STATUS_TRUNCATED, di_error s)"
    using c assms(2) by (intro decode_cut_record [OF c(1,2)]) auto
  then show ?thesis
    using c assms(2) by (simp add: tide_parse_records.simps [of alloc s])
qed

subsection \<open>The records that are complete\<close>

text \<open>The items whose records lie within the first \<open>k\<close> bytes.\<close>

fun complete_items :: "nat \<Rightarrow> u64 \<Rightarrow> mux_item list \<Rightarrow> mux_item list" where
  "complete_items k sq [] = []"
| "complete_items k sq (it # its) = (let n = length (tide_record_bytes (item_type it) 0 3 sq (item_payload it)) in
     if n \<le> k then it # complete_items (k - n) (sq + 1) its else [])"

lemma take_written_items:
  assumes "list_all (\<lambda>it. length (item_payload it) < 2 ^ 62) its" and "k < length (written_items sq its @ ft)"
    and "ft = [] \<or> (\<exists>type flags al sq payload. ft = tide_record_bytes type flags al sq payload \<and> al \<le> 4 \<and> length payload < 2 ^ 62)"
  shows "\<exists>tail. take k (written_items sq its @ ft) = written_items sq (complete_items k sq its) @ tail \<and>
    (tail = [] \<or> cut_record (length (written_items sq its @ ft) - length (written_items sq (complete_items k sq its))) tail)"
  using assms
proof (induction its arbitrary: k sq)
  case Nil
  then have lt: "k < length ft" by simp
  with Nil(3) obtain type flags al q payload where ft: "ft = tide_record_bytes type flags al q payload" "al \<le> 4" "length payload < 2 ^ 62" by auto
  have "k = 0 \<or> cut_record (length ft) (take k ft)"
    using lt ft by (auto intro: cut_recordI)
  then show ?case by auto
next
  case (Cons it its)
  let ?R = "tide_record_bytes (item_type it) 0 3 sq (item_payload it)"
  show ?case
  proof (cases "length ?R \<le> k")
    case True
    have wf: "list_all (\<lambda>it. length (item_payload it) < 2 ^ 62) its" using Cons.prems(1) by simp
    have lt: "k - length ?R < length (written_items (sq + 1) its @ ft)" using Cons.prems(2) True by simp
    from Cons.IH [OF wf lt Cons.prems(3)] obtain tail where t:
        "take (k - length ?R) (written_items (sq + 1) its @ ft) = written_items (sq + 1) (complete_items (k - length ?R) (sq + 1) its) @ tail"
        "tail = [] \<or> cut_record (length (written_items (sq + 1) its @ ft) - length (written_items (sq + 1) (complete_items (k - length ?R) (sq + 1) its))) tail"
      by blast
    show ?thesis using t True by (intro exI [of _ tail]) simp
  next
    case False
    have "k = 0 \<or> cut_record (length ?R + length (written_items (sq + 1) its @ ft)) (take k ?R)"
      using False Cons.prems(1) by (auto intro: cut_recordI)
    then show ?thesis using False by (intro exI [of _ "take k ?R"]) auto
  qed
qed


lemma complete_items_prefix: "\<exists>rest. its = complete_items k sq its @ rest"
  by (induction its arbitrary: k sq) (simp_all add: Let_def)

lemma items_ok_append: "items_ok lims ks (xs @ ys) \<Longrightarrow> items_ok lims ks xs"
  by (induction lims ks xs rule: items_ok.induct) auto

lemma complete_items_ok:
  "items_ok lims ks its \<Longrightarrow> items_ok lims ks (complete_items k sq its)"
  "list_all P its \<Longrightarrow> list_all P (complete_items k sq its)"
  "items_size (complete_items k sq its) \<le> items_size its"
proof -
  obtain rest where r: "its = complete_items k sq its @ rest" using complete_items_prefix by blast
  show "items_ok lims ks its \<Longrightarrow> items_ok lims ks (complete_items k sq its)" by (rule items_ok_append [of _ _ _ rest]) (simp flip: r)
  show "list_all P its \<Longrightarrow> list_all P (complete_items k sq its)" by (subst (asm) r) simp
  show "items_size (complete_items k sq its) \<le> items_size its" by (subst (2) r) (simp add: items_size_def)
qed

lemma items_ok_small: "items_ok lims ks its \<Longrightarrow> list_all (\<lambda>it. length (item_payload it) < 2 ^ 62) its"
  by (induction lims ks its rule: items_ok.induct) (auto simp: payload_fits_def)

text \<open>A file that is cut behind its header: its complete items, and possibly a record that is cut short.\<close>

lemma take_tide_file:
  assumes "items_ok lims [] its" and "length uuid = 16" and "TIDE_HEADER_SIZE \<le> k" and "k < length (tide_file_bytes tb uuid footer its)"
  defines "found \<equiv> complete_items (k - TIDE_HEADER_SIZE) 0 its"
  obtains tail where "take k (tide_file_bytes tb uuid footer its) = tide_file_body tb uuid found @ tail"
    and "tail = [] \<or> cut_record (length (tide_file_bytes tb uuid footer its) - length (tide_file_body tb uuid found)) tail"
proof -
  let ?h = "tide_header_bytes tb uuid" and ?f = "tide_file_bytes tb uuid footer its"
  define ft where "ft = (if footer then footer_record_bytes (of_nat (length its)) (tide_file_body tb uuid its) else [])"
  have fl: "?f = ?h @ (written_items 0 its @ ft)" by (simp add: tide_file_bytes_def tide_file_body_def ft_def)
  have hl: "length ?h = TIDE_HEADER_SIZE" using assms(2) by simp
  have "ft = [] \<or> (\<exists>type flags al sq payload. ft = tide_record_bytes type flags al sq payload \<and> al \<le> 4 \<and> length payload < 2 ^ 62)"
    by (fastforce simp: ft_def footer_record_bytes_def)
  moreover have "k - TIDE_HEADER_SIZE < length (written_items 0 its @ ft)" using assms(3,4) hl by (simp add: fl)
  ultimately obtain tail where t: "take (k - TIDE_HEADER_SIZE) (written_items 0 its @ ft) = written_items 0 found @ tail"
      "tail = [] \<or> cut_record (length (written_items 0 its @ ft) - length (written_items 0 found)) tail"
    using take_written_items [OF items_ok_small [OF assms(1)], of "k - TIDE_HEADER_SIZE" 0 ft] unfolding found_def by blast
  have "take k ?f = ?h @ take (k - TIDE_HEADER_SIZE) (written_items 0 its @ ft)" using assms(3) hl by (simp add: fl)
  then have "take k ?f = tide_file_body tb uuid found @ tail" using t(1) by (simp add: tide_file_body_def)
  moreover have "length ?f - length (tide_file_body tb uuid found) = length (written_items 0 its @ ft) - length (written_items 0 found)"
    using hl by (simp add: fl tide_file_body_def)
  ultimately show thesis using t(2) by (intro that [of tail]) simp_all
qed

lemma cut_file_parses:
  assumes alloc: "\<And>m. alloc m" and tb: "tide_rational_is_valid tb" and uuid: "length uuid = 16" "uuid \<noteq> replicate 16 0"
    and lims: "64 * 1024 * 1024 \<le> max_record_size lims" and its: "items_ok lims [] its"
    and cb: "on_record cbs = None" and del: "deliver (stream_handler cbs) (packet_handler cbs) u found = Some u'"
    and k: "TIDE_HEADER_SIZE \<le> k" "k < length (tide_file_bytes tb uuid footer its)" "length (tide_file_bytes tb uuid footer its) \<le> SIZE_MAX"
    and found: "found = complete_items (k - TIDE_HEADER_SIZE) 0 its"
  defines "body \<equiv> tide_file_body tb uuid found"
  shows "\<exists>err. tide_parse_tide_bytes alloc (Some (take k (tide_file_bytes tb uuid footer its))) k end (Some lims) (Some cbs) u e v =
      (if k = length body then TIDE_STATUS_OK else if end then TIDE_STATUS_PARTIAL else TIDE_STATUS_TRUNCATED, err, of_nat (length body), u')"
    and "take (length body) (take k (tide_file_bytes tb uuid footer its)) = body" and "length body \<le> k"
proof -
  let ?f = "tide_file_bytes tb uuid footer its"
  obtain tail where t: "take k ?f = body @ tail" "tail = [] \<or> cut_record (length ?f - length body) tail"
    unfolding body_def found by (rule take_tide_file [OF its uuid(1) k(1,2)])
  have len: "length (body @ tail) = k" using k(2) unfolding t(1) [symmetric] by simp
  then show "take (length body) (take k ?f) = body" "length body \<le> k" by (simp_all add: t(1))
  have sz: "length (body @ tail) \<le> SIZE_MAX" using len k by simp
  have ok: "items_ok lims [] found" using complete_items_ok(1) [OF its] by (simp add: found)
  from parse_file_items [of alloc, OF alloc tb uuid lims ok cb del t(1) [unfolded body_def], folded body_def] obtain s' where
    s': "tide_parse_tide_bytes alloc (Some (body @ tail)) (length (body @ tail)) end (Some lims) (Some cbs) u e v =
      (case tide_parse_records alloc s' (body @ tail) (length body) (length (body @ tail)) 0 of (status, t) \<Rightarrow>
        (if status = TIDE_STATUS_TRUNCATED \<and> end then TIDE_STATUS_PARTIAL else status, di_error t, di_valid_prefix t, di_user t))"
      "di_user s' = u'" "di_valid_prefix s' = of_nat (length body)"
    using sz unfolding t(1) by blast
  show "\<exists>err. tide_parse_tide_bytes alloc (Some (take k ?f)) k end (Some lims) (Some cbs) u e v =
      (if k = length body then TIDE_STATUS_OK else if end then TIDE_STATUS_PARTIAL else TIDE_STATUS_TRUNCATED, err, of_nat (length body), u')"
  proof (cases "tail = []")
    case True
    then show ?thesis using s' len t(1) by (simp add: tide_parse_records.simps [of alloc s'])
  next
    case False
    then have c: "cut_record (length ?f - length body) tail" using t(2) by simp
    have "length body + (length ?f - length body) \<le> SIZE_MAX" using len k by simp
    from parse_cut_record [OF c this, of alloc s' 0] show ?thesis using s' len t(1) False by auto
  qed
qed


subsection \<open>Repairing a file that was cut\<close>

lemma deliver_no_callbacks: "deliver (stream_handler no_callbacks) (packet_handler no_callbacks) u its = Some u"
  by (induction its rule: item_streams.induct) (simp_all add: stream_handler_def packet_handler_def no_callbacks_def)

lemma default_limits: "64 * 1024 * 1024 \<le> max_record_size tide_limits_default" "payload_fits tide_limits_default 49"
  by (simp_all add: tide_limits_default_def payload_fits_def)

lemma scan_cut_file:
  assumes alloc: "\<And>m. alloc m" and tb: "tide_rational_is_valid tb" and uuid: "length uuid = 16" "uuid \<noteq> replicate 16 0"
    and its: "items_ok tide_limits_default [] its"
    and k: "TIDE_HEADER_SIZE \<le> k" "k < length (tide_file_bytes tb uuid footer its)" "length (tide_file_bytes tb uuid footer its) \<le> SIZE_MAX"
    and src: "source_ok src" "source_bytes src = take k (tide_file_bytes tb uuid footer its)"
  defines "body \<equiv> tide_file_body tb uuid (complete_items (k - TIDE_HEADER_SIZE) 0 its)"
  shows "\<exists>err. tide_repair_scan alloc (Some src) None (Some None) =
    (if k = length body then TIDE_STATUS_OK else TIDE_STATUS_PARTIAL, Some (Some \<lparr>rp_source = src, rp_valid_prefix = of_nat (length body), rp_error = err\<rparr>))"
proof -
  have cb: "on_record no_callbacks = None" by (simp add: no_callbacks_def)
  from cut_file_parses(1) [of alloc, OF alloc tb uuid default_limits(1) its cb deliver_no_callbacks k refl, folded body_def, of True "()" tide_error_clear 0]
  obtain err where p: "tide_parse_tide_bytes alloc (Some (source_bytes src)) k True (Some tide_limits_default) (Some no_callbacks) () tide_error_clear 0 =
      (if k = length body then TIDE_STATUS_OK else TIDE_STATUS_PARTIAL, err, of_nat (length body), ())"
    unfolding src(2) by auto
  have "src_size src = k" using src k(2) by (simp add: source_ok_def)
  then have "tide_parse_tide_bytes alloc (tide_source_data (Some src)) (tide_source_size (Some src)) True (Some tide_limits_default) None () tide_error_clear 0 =
      (if k = length body then TIDE_STATUS_OK else TIDE_STATUS_PARTIAL, err, of_nat (length body), ())"
    using p tide_parse_source [OF src(1), of alloc True "Some tide_limits_default" None "()" tide_error_clear 0]
    by (simp add: tide_source_data_def tide_source_size_def tide_parse_tide_bytes_def)
  then show ?thesis using alloc by (simp add: tide_repair_scan_def)
qed

lemma tide_repair_copy_succeeds:
  assumes alloc: "\<And>k. alloc k" and inv: "demux_inv R (d, h)" "dx_cursor d = 0" "demux_valid keys d"
    and "list_all (item_single tide_limits_default) (demux_items d)"
    and "items_size (demux_items d) + 217 \<le> max_aggregate_alloc tide_limits_default"
    and os: "os_works os (max_aggregate_alloc tide_limits_default)" "os_writable os path"
  shows "\<exists>os' h'. tide_repair_copy alloc h os d (Some path) = (TIDE_STATUS_OK, os', h')"
proof -
  obtain m os1 where m: "tide_mux_create alloc os (Some None) (Some path) None = (TIDE_STATUS_OK, Some (Some m), os1)"
      "mux_holds m []" "mx_limits m = tide_limits_default" "buf_limit (mx_buffer m) = max_aggregate_alloc tide_limits_default"
      "os1 = os\<lparr>os_files := (os_files os)(path \<mapsto> [])\<rparr>"
    by (rule mux_created [of alloc, OF alloc os(2)])
  have "os_works os1 (max_aggregate_alloc tide_limits_default)" using os(1) m(5) by (simp add: os_works_def)
  from copy_succeeds [of alloc, OF alloc inv m(2-4) assms(5,6) this] m(1) show ?thesis by (auto simp: tide_repair_copy_def)
qed

lemma repair_write_cut_file:
  assumes alloc: "\<And>m. alloc m" and tb: "tide_rational_is_valid tb" and uuid: "length uuid = 16" "uuid \<noteq> replicate 16 0"
    and its: "items_ok tide_limits_default [] its" "list_all (item_single tide_limits_default) its"
      "items_size its + 217 \<le> max_aggregate_alloc tide_limits_default"
    and src: "source_ok src" "take (length (tide_file_body tb uuid its)) (source_bytes src) = tide_file_body tb uuid its"
      "length (tide_file_body tb uuid its) \<le> src_size src" "src_size src < 2 ^ 61"
    and own: "leases_owned h R" and os: "os_works os (max_aggregate_alloc tide_limits_default)" "os_writable os path"
    and plan: "plan = \<lparr>rp_source = src, rp_valid_prefix = of_nat (length (tide_file_body tb uuid its)), rp_error = err\<rparr>"
  shows "\<exists>os' h'. tide_repair_write alloc h os (Some plan) (Some path) = (TIDE_STATUS_OK, os', h') \<and>
    os_files os' path = Some (tide_file_bytes cli_time_base tide_mux_uuid True (streams_first its))"
proof -
  let ?b = "tide_file_body tb uuid its" and ?n = "length (tide_file_body tb uuid its)"
  have n: "?n \<noteq> 0" "?n \<le> SIZE_MAX" using uuid src(3,4) by (auto simp: tide_file_body_def TIDE_HEADER_SIZE_def SIZE_MAX_def)
  then have vp: "unat (rp_valid_prefix plan) = ?n" "rp_valid_prefix plan \<noteq> 0" by (simp_all add: plan flip: unat_eq_0)
  obtain out where o: "tide_source_from_memory alloc (Some None) (tide_source_data (Some src)) ?n = (TIDE_STATUS_OK, out)"
    using alloc src(1,3) n(1) by (cases "src_data src") (auto simp: tide_source_from_memory_def tide_source_data_def source_ok_def source_bytes_def)
  obtain p where p: "out = Some (Some p)" "source_ok p" "source_bytes p = ?b" "src_size p = ?n"
    by (rule prefix_source [OF src(1,3) n(1) o]) (use src(2) in simp)
  have opts: "repair_demux_options = cli_demux_options" by (simp add: repair_demux_options_def cli_demux_options_def)
  have body: "source_bytes p = tide_file_bytes tb uuid False its" using p(3) by (simp add: tide_file_bytes_def)
  obtain d h1 where d: "tide_demux_open alloc h (Some None) (Some p) (Some repair_demux_options) = (TIDE_STATUS_OK, Some (Some d), h1)"
      "demux_inv R (d, h1)" "demux_holds d (item_streams its) (item_packets its)" "dx_cursor d = 0"
    using cli_opens_written [of alloc, OF alloc tb uuid its(1) p(2) body _ own] p(4) n(2) unfolding opts by auto
  have "src_size p < 2 ^ 61" using p(4) src(3,4) by simp
  then obtain keys where v: "demux_valid keys d" using demux_open_valid(1) [of alloc, OF alloc p(2) _ own d(1)] by blast
  note fit = demuxed_items [OF d(3) v its(1)]
  obtain os' h' where c: "tide_repair_copy alloc h1 os d (Some path) = (TIDE_STATUS_OK, os', h')"
    using tide_repair_copy_succeeds [of alloc, OF alloc d(2,4) v fit(2) [OF its(2)] _ os] its(3) fit(1) by auto
  have "tide_repair_write alloc h os (Some plan) (Some path) = (TIDE_STATUS_OK, os', h')"
    unfolding tide_repair_write_def using vp o p(1) d(1) c by (simp add: plan)
  then show ?thesis using tide_repair_copy_writes(1) [OF d(2,4) v c] fit(3) by simp
qed


lemma repair_cmd_cut_file:
  assumes alloc: "\<And>m. alloc m" and own: "leases_owned (ps_heap ps) R"
    and tb: "tide_rational_is_valid tb" and uuid: "length uuid = 16" "uuid \<noteq> replicate 16 0"
    and its: "items_ok tide_limits_default [] its" "list_all (item_single tide_limits_default) its"
      "items_size its + 217 \<le> max_aggregate_alloc tide_limits_default"
    and k: "TIDE_HEADER_SIZE \<le> k" "k < length (tide_file_bytes tb uuid footer its)"
    and inp: "os_files (ps_os ps) in_path = Some (take k (tide_file_bytes tb uuid footer its))"
    and os: "os_works (ps_os ps) (max_aggregate_alloc tide_limits_default)" "os_writable (ps_os ps) out_path"
  defines "found \<equiv> complete_items (k - TIDE_HEADER_SIZE) 0 its"
  shows "\<exists>ps'. repair_cmd alloc ps in_path out_path = (0, ps') \<and>
    os_files (ps_os ps') out_path = Some (tide_file_bytes cli_time_base tide_mux_uuid True (streams_first found)) \<and>
    ps_stdout ps' = ps_stdout ps @ ''valid_prefix='' @ decimal (length (tide_file_body tb uuid found)) @ newline"
proof -
  let ?f = "tide_file_bytes tb uuid footer its" and ?b = "tide_file_body tb uuid found"
  have len: "length ?f \<le> max_aggregate_alloc tide_limits_default" using length_tide_file_bytes [OF uuid(1), of tb footer its] its(3) by simp
  then have small: "k < 2 ^ 61" "length ?f \<le> SIZE_MAX" using k(2) by (simp_all add: tide_limits_default_def SIZE_MAX_def)
  have "length (take k ?f) \<le> max_aggregate_alloc tide_limits_default" using len by simp
  from tide_source_from_file_works [of alloc, OF alloc os_works_less [OF os(1) this] inp] obtain src
    where s: "tide_source_from_file alloc (ps_os ps) (Some None) (Some in_path) = (TIDE_STATUS_OK, Some (Some src))" by blast
  have "source_ok src \<and> source_bytes src = take k ?f" by (rule cli_source [OF s]) (use inp in simp)
  then have src: "source_ok src" "source_bytes src = take k ?f" "src_size src = k" using k(2) by (auto simp: source_ok_def)
  obtain err where sc: "tide_repair_scan alloc (Some src) None (Some None) = (if k = length ?b then TIDE_STATUS_OK else TIDE_STATUS_PARTIAL,
      Some (Some \<lparr>rp_source = src, rp_valid_prefix = of_nat (length ?b), rp_error = err\<rparr>))"
    using scan_cut_file [of alloc, OF alloc tb uuid its(1) k small(2) src(1,2)] unfolding found_def by blast
  have cut: "take (length ?b) (take k ?f) = ?b" "length ?b \<le> k"
    using cut_file_parses(2,3) [of alloc, OF alloc tb uuid default_limits(1) its(1) _ deliver_no_callbacks k small(2) refl]
    unfolding found_def by (simp_all add: no_callbacks_def)
  have fok: "items_ok tide_limits_default [] found" "list_all (item_single tide_limits_default) found"
      "items_size found + 217 \<le> max_aggregate_alloc tide_limits_default"
    using complete_items_ok(1) [OF its(1)] complete_items_ok(2) [OF its(2)] complete_items_ok(3) [of "k - TIDE_HEADER_SIZE" 0 its] its(3)
    by (simp_all add: found_def)
  obtain os' h' where w: "tide_repair_write alloc (ps_heap ps) (ps_os ps) (Some \<lparr>rp_source = src, rp_valid_prefix = of_nat (length ?b), rp_error = err\<rparr>)
      (Some out_path) = (TIDE_STATUS_OK, os', h')"
    "os_files os' out_path = Some (tide_file_bytes cli_time_base tide_mux_uuid True (streams_first found))"
    using repair_write_cut_file [of alloc, OF alloc tb uuid fok src(1) _ _ _ own os refl, of err] cut small(1) unfolding src(2,3) by blast
  have "length ?b \<le> SIZE_MAX" using cut(2) small(1) by (simp add: SIZE_MAX_def)
  then show ?thesis
    using s sc w by (simp add: repair_cmd_def tide_repair_plan_valid_prefix_def fprintf_stdout_def)
qed

subsection \<open>Properties\<close>

text \<open>C2: recovery. Take any file the format allows, cut it anywhere behind its header, and run \<open>repair\<close> on what is left, with enough
  memory and a working disk: it terminates with exit code 0, reports the length of the intact records, and writes a complete file
  that holds exactly the streams and packets whose records were not cut, and nothing else.\<close>

theorem repair_cmd_recovers:
  assumes "\<And>m. alloc m" and "leases_owned (ps_heap ps) R"
    and "tide_rational_is_valid tb" and "length uuid = 16" "uuid \<noteq> replicate 16 0"
    and "items_ok tide_limits_default [] its" "list_all (item_single tide_limits_default) its"
      "items_size its + 217 \<le> max_aggregate_alloc tide_limits_default"
    and "TIDE_HEADER_SIZE \<le> k" "k < length (tide_file_bytes tb uuid footer its)"
    and "os_files (ps_os ps) in_path = Some (take k (tide_file_bytes tb uuid footer its))"
    and "os_works (ps_os ps) (max_aggregate_alloc tide_limits_default)" "os_writable (ps_os ps) out_path"
  shows "\<exists>ps'. repair_cmd alloc ps in_path out_path = (0, ps') \<and>
    os_files (ps_os ps') out_path = Some (tide_file_bytes cli_time_base tide_mux_uuid True (streams_first (complete_items (k - TIDE_HEADER_SIZE) 0 its))) \<and>
    ps_stdout ps' = ps_stdout ps @ ''valid_prefix='' @ decimal (length (tide_file_body tb uuid (complete_items (k - TIDE_HEADER_SIZE) 0 its))) @ newline"
  by (rule repair_cmd_cut_file [OF assms])

text \<open>Opening a file that was cut behind its header. Only a record that was cut makes the status PARTIAL: a file cut between two
  records opens with OK, for strict clients too, although it has no footer any more.\<close>

lemma tide_demux_open_cut:
  assumes "\<And>m. alloc m" and "leases_owned h R" and "tide_rational_is_valid tb" and "length uuid = 16" "uuid \<noteq> replicate 16 0"
    and "items_ok (demux_limits options) [] its" and "64 * 1024 * 1024 \<le> max_record_size (demux_limits options)"
    and "TIDE_HEADER_SIZE \<le> k" "k < length (tide_file_bytes tb uuid footer its)" "length (tide_file_bytes tb uuid footer its) \<le> SIZE_MAX"
    and "source_ok src" and "source_bytes src = take k (tide_file_bytes tb uuid footer its)"
    and "found = complete_items (k - TIDE_HEADER_SIZE) 0 its"
    and "status = (if k = length (tide_file_body tb uuid found) then TIDE_STATUS_OK else TIDE_STATUS_PARTIAL)"
  shows "\<exists>d h'. tide_demux_open alloc h (Some None) (Some src) options = (status, Some d, h') \<and>
    (if demux_keeps options status
     then d \<noteq> None \<and> demux_holds (the d) (item_streams found) (filter (\<lambda>p. demux_track options = 0 \<or> pk_track_id p = demux_track options) (item_packets found)) \<and>
       leases_owned h' (R + demux_refs (the d))
     else d = None \<and> leases_owned h' R)"
proof -
  let ?d0 = "demux_fresh src (demux_track options)"
  have ok: "items_ok (demux_limits options) [] found" using complete_items_ok(1) [OF assms(6)] by (simp add: assms(13))
  have "demux_holds ?d0 [] []" by (simp add: demux_holds_def demux_fresh_def)
  then obtain d h1 where del: "deliver (on_demux_stream alloc) (on_demux_packet alloc) (?d0, h) found = Some (d, h1)" and inv: "demux_inv R (d, h1)"
    and holds: "demux_holds d (item_streams found) (filter (demux_selects ?d0) (item_packets found))"
    using demux_deliver [of alloc found R ?d0 h "[]" "[]"] assms(1) items_ok_wf [OF ok] demux_inv_fresh [OF assms(2)] by auto
  have cb: "on_record (demux_callbacks alloc) = None" "stream_handler (demux_callbacks alloc) = on_demux_stream alloc"
    "packet_handler (demux_callbacks alloc) = on_demux_packet alloc" by (simp_all add: demux_callbacks_def stream_handler_def packet_handler_def)
  have "src_size src = k" using assms(9,11,12) by (simp add: source_ok_def)
  then obtain err where "tide_parse_tide_bytes alloc (src_data src) (src_size src) True (Some (demux_limits options)) (Some (demux_callbacks alloc))
      (?d0, h) tide_error_clear 0 = (status, err, of_nat (length (tide_file_body tb uuid found)), (d, h1))"
    using cut_file_parses(1) [of alloc, OF assms(1,3-5,7,6) cb(1) del [folded cb(2,3)] assms(8-10,13), of True tide_error_clear 0]
    unfolding tide_parse_source [OF assms(11)] assms(12,14) by auto
  from tide_demux_open_eq [of alloc, OF assms(1) this, of None]
  have o: "tide_demux_open alloc h (Some None) (Some src) options = (if demux_keeps options status then (status, Some (Some (d\<lparr>dx_error := err\<rparr>)), h1)
      else (status, Some None, tide_demux_close h1 (Some (d\<lparr>dx_error := err\<rparr>))))" by simp
  have inv': "demux_inv R (d\<lparr>dx_error := err\<rparr>, h1)" using inv by simp
  have sel: "demux_selects ?d0 = (\<lambda>p. demux_track options = 0 \<or> pk_track_id p = demux_track options)"
    by (simp add: demux_selects_def demux_fresh_def fun_eq_iff)
  show ?thesis
    using o holds tide_demux_close_owned [OF inv'] inv' unfolding sel by (auto simp: demux_holds_def demux_inv_def)
qed

text \<open>C16: opening a file that was cut inside a record behind its header, for a client whose limits admit the original file (and
  the 64 MiB record size that every written header announces). The status is PARTIAL; a client that allows partial input
  gets exactly the streams and packets (of the selected track) whose records are complete, and a strict client, or one that
  gives no options, gets no demultiplexer and no lease.\<close>

theorem tide_demux_open_truncated:
  assumes "\<And>m. alloc m" and "leases_owned h R" and "tide_rational_is_valid tb" and "length uuid = 16" "uuid \<noteq> replicate 16 0"
    and "items_ok (demux_limits options) [] its" and "64 * 1024 * 1024 \<le> max_record_size (demux_limits options)"
    and "TIDE_HEADER_SIZE \<le> k" "k < length (tide_file_bytes tb uuid footer its)" "length (tide_file_bytes tb uuid footer its) \<le> SIZE_MAX"
    and "source_ok src" and "source_bytes src = take k (tide_file_bytes tb uuid footer its)"
    and "found = complete_items (k - TIDE_HEADER_SIZE) 0 its" and "k \<noteq> length (tide_file_body tb uuid found)"
  shows "\<exists>d h'. tide_demux_open alloc h (Some None) (Some src) options = (TIDE_STATUS_PARTIAL, Some d, h') \<and>
    (if \<exists>opts. options = Some opts \<and> \<not> do_strict opts
     then d \<noteq> None \<and> demux_holds (the d) (item_streams found) (filter (\<lambda>p. demux_track options = 0 \<or> pk_track_id p = demux_track options) (item_packets found)) \<and>
       leases_owned h' (R + demux_refs (the d))
     else d = None \<and> leases_owned h' R)"
proof -
  have "demux_keeps options TIDE_STATUS_PARTIAL \<longleftrightarrow> (\<exists>opts. options = Some opts \<and> \<not> do_strict opts)"
    by (cases options) (simp_all add: demux_keeps_def)
  then show ?thesis
    using tide_demux_open_cut [OF assms(1-13) refl] assms(14) by simp
qed

lemma sample_stream_record: "length (tide_record_bytes TIDE_RECORD_STREAM_DESC 0 3 0 (stream_payload_bytes sample_stream)) = 44"
  by (simp add: length_tide_record_bytes record_header_size_def align_up_def length_sample_payloads tide_uleb128_size.simps [of 27] tide_uleb128_size.simps [of 0])

lemma sample_packet_record: "length (tide_record_bytes TIDE_RECORD_PACKET 0 3 1 (packet_payload_bytes sample_packet)) = 68"
  by (simp add: length_tide_record_bytes record_header_size_def align_up_def length_sample_payloads tide_uleb128_size.simps [of 48] tide_uleb128_size.simps [of 1] word_le_nat_alt)

lemma sample_cut: "complete_items (126 - TIDE_HEADER_SIZE) 0 sample_items = [Mux_Stream sample_stream]" "126 < length sample_file"
  by (simp_all add: sample_items_def sample_file_def tide_file_bytes_def tide_file_body_def TIDE_HEADER_SIZE_def sample_stream_record sample_packet_record)

theorem repair_cmd_recovers_witness:
  "let ps = sample_process\<lparr>ps_os := (ps_os sample_process)\<lparr>os_files := [''a'' \<mapsto> take 126 sample_file]\<rparr>\<rparr> in
   \<exists>ps'. repair_cmd (\<lambda>_. True) ps ''a'' ''b'' = (0, ps') \<and>
     os_files (ps_os ps') ''b'' = Some (tide_file_bytes cli_time_base tide_mux_uuid True [Mux_Stream sample_stream])"
proof -
  define ps where "ps = sample_process\<lparr>ps_os := (ps_os sample_process)\<lparr>os_files := [''a'' \<mapsto> take 126 sample_file]\<rparr>\<rparr>"
  have h: "TIDE_HEADER_SIZE \<le> 126" by (simp add: TIDE_HEADER_SIZE_def)
  have p: "leases_owned (ps_heap ps) {#}" "os_works (ps_os ps) (max_aggregate_alloc tide_limits_default)" "os_writable (ps_os ps) ''b''"
    "os_files (ps_os ps) ''a'' = Some (take 126 sample_file)"
    using sample_process by (simp_all add: ps_def os_works_def)
  from repair_cmd_recovers [of "\<lambda>_. True", OF TrueI p(1) sample_items(5) tide_mux_uuid sample_items(1-3) h sample_cut(2) [unfolded sample_file_def]
      p(4) [unfolded sample_file_def] p(2,3)] sample_cut(1)
  show ?thesis by (auto simp: streams_first_def Let_def simp flip: ps_def)
qed

theorem tide_demux_open_truncated_witness:
  "\<exists>d h'. tide_demux_open (\<lambda>_. True) lease_heap_empty (Some None) (Some \<lparr>src_data = Some (take 126 sample_file), src_size = 126, src_generation = 1\<rparr>)
      (Some cli_demux_options) = (TIDE_STATUS_PARTIAL, Some (Some d), h') \<and> demux_holds d [sample_stream] []"
proof -
  let ?src = "\<lparr>src_data = Some (take 126 sample_file), src_size = 126, src_generation = 1\<rparr> :: tide_source" and ?o = "Some cli_demux_options"
  let ?f = "tide_file_bytes cli_time_base tide_mux_uuid True sample_items"
  have src: "source_ok ?src" "source_bytes ?src = take 126 ?f" using sample_cut(2) by (simp_all add: source_ok_def source_bytes_def sample_file_def)
  have f: "TIDE_HEADER_SIZE \<le> 126" "126 < length ?f" "length ?f \<le> SIZE_MAX"
    using sample_cut(2) sample_items(6) by (simp_all add: TIDE_HEADER_SIZE_def SIZE_MAX_def sample_file_def)
  have st: "126 \<noteq> length (tide_file_body cli_time_base tide_mux_uuid [Mux_Stream sample_stream])"
    by (simp add: tide_file_body_def TIDE_HEADER_SIZE_def sample_stream_record)
  have l: "items_ok (demux_limits ?o) [] sample_items" "64 * 1024 * 1024 \<le> max_record_size (demux_limits ?o)"
    using sample_items(1) default_limits by simp_all
  have "\<not> do_strict cli_demux_options" by (simp add: cli_demux_options_def)
  then show ?thesis
    using tide_demux_open_truncated [of "\<lambda>_. True", OF TrueI leases_owned_empty sample_items(5) tide_mux_uuid l f src sample_cut(1) [symmetric] st]
    by auto
qed

end
