(* ===== verification/Tide_Feed.thy ===== *)
theory Tide_Feed
  imports Tide_Roundtrip
begin

text \<open>
  The incremental decoder (\<open>tide_decoder_feed\<close>, \<open>src/format/decoder.c\<close>) against the one-shot parse \<open>tide_parse_tide_bytes\<close>.

  A parse that stops at the end of the bytes it has is taken up again from the valid prefix it reported (\<open>parse_resume\<close>).
  \<open>resumable\<close> says that a decoder fed the bytes \<open>D\<close> is on the way of the parse of every file that starts with \<open>D\<close>;
  \<open>fed\<close> is the invariant a client that feeds chunks keeps, and \<open>feed_chunks_equivalent\<close> what it ends with.
\<close>

subsection \<open>Where a truncation can come from\<close>

text \<open>Callbacks that do not use the status the parser reserves for incomplete input.\<close>

definition calm :: "'u tide_callbacks \<Rightarrow> bool" where
  "calm cbs \<longleftrightarrow>
     (\<forall>f u ev. on_record cbs = Some f \<longrightarrow> fst (f u ev) \<noteq> TIDE_STATUS_TRUNCATED) \<and>
     (\<forall>f u si. on_stream cbs = Some f \<longrightarrow> fst (f u si) \<noteq> TIDE_STATUS_TRUNCATED) \<and>
     (\<forall>f u p. on_packet cbs = Some f \<longrightarrow> fst (f u p) \<noteq> TIDE_STATUS_TRUNCATED)"

lemma tide_check_simple_record_status:
  "tide_check_simple_record s data payload f = Some (status, message) \<Longrightarrow> status \<noteq> TIDE_STATUS_TRUNCATED"
  by (auto simp: tide_check_simple_record_def tide_check_packet_table_def tide_check_edit_list_def tide_check_discontinuity_def
      tide_check_seek_index_def tide_check_checkpoint_def tide_check_index_directory_def tide_check_footer_def
      split: if_splits option.splits sum.splits)

lemma err_code_parse_error [simp]: "err_code (tide_set_parse_error status off type depth msg) = status"
  by (simp add: tide_set_parse_error_def tide_error_value_def)

lemma tide_emit_stream_calm:
  assumes "\<And>m. alloc m" and "calm (di_callbacks s)"
  shows "fst (tide_emit_stream alloc s payload f) \<noteq> TIDE_STATUS_TRUNCATED"
proof (cases rule: tide_emit_stream_cases [of alloc s payload f])
  case (refused stream r status s1)
  then have "err_code (di_error s1) \<noteq> TIDE_STATUS_TRUNCATED"
    using assms(1) by (auto simp: tide_add_track_def Let_def split: if_splits)
  then show ?thesis using refused by simp
next
  case (added stream r s1)
  note a = tide_add_track_OK [OF added(4)]
  show ?thesis using added(5) assms(2) a(4) by (auto simp: calm_def split: option.splits prod.splits) (metis fst_conv)
qed auto

lemma tide_emit_packet_calm:
  assumes "calm (di_callbacks s)"
  shows "fst (tide_emit_packet s payload f) \<noteq> TIDE_STATUS_TRUNCATED"
proof (cases rule: tide_emit_packet_cases [of s payload f])
  case (good packet r)
  then show ?thesis using assms by (auto simp: calm_def split: option.splits prod.splits) (metis fst_conv)
qed auto

lemma process_calm:
  assumes alloc: "\<And>m. alloc m" and calm: "calm (di_callbacks s)"
  shows "fst (process_with alloc children s data f) \<noteq> TIDE_STATUS_TRUNCATED"
proof -
  obtain status s1 where n: "tide_notify_record s (tide_event f) = (status, s1)" by fastforce
  have st: "status \<noteq> TIDE_STATUS_TRUNCATED"
    using n calm by (auto simp: tide_notify_record_def calm_def split: option.splits prod.splits) (metis fst_conv)
  have c1: "calm (di_callbacks s1)" using tide_notify_record_state [of s "tide_event f"] n calm by auto
  have group: "tide_check_group lims payload f = Some (st, off, msg) \<Longrightarrow> st \<noteq> TIDE_STATUS_TRUNCATED" for lims payload st off msg
    by (auto simp: tide_check_group_def split: if_splits option.splits)
  have simple: "fst (tide_emit_simple_record s1 data payload f) \<noteq> TIDE_STATUS_TRUNCATED" for payload
    by (auto simp: tide_emit_simple_record_def split: option.split dest: tide_check_simple_record_status)
  show ?thesis
    unfolding process_with_def n Let_def prod.case
    using st simple tide_emit_stream_calm [of alloc, OF alloc c1] tide_emit_packet_calm [OF c1]
    by (auto split: option.split prod.split dest: group)
qed

subsection \<open>A parse continues where it stopped\<close>

lemma tide_decode_record_prefix_extend:
  assumes "stop \<le> stop'"
  shows "tide_decode_record_prefix data stop offset depth e = Inr f \<Longrightarrow> tide_decode_record_prefix data stop' offset depth e = Inr f"
    and "tide_decode_record_prefix data stop offset depth e = Inl (st, e') \<Longrightarrow> st \<noteq> TIDE_STATUS_TRUNCATED \<Longrightarrow>
      tide_decode_record_prefix data stop' offset depth e = Inl (st, e')"
proof -
  have *: "\<exists>r'. tide_read_prefix (tide_reader_init (byte_span data offset stop')) = Some (x, r') \<and> rd_offset r' = rd_offset r"
    if "8 \<le> stop - offset" "tide_read_prefix (tide_reader_init (byte_span data offset stop)) = Some (x, r)" for x r
    using prefix_fields.extends [OF that(2), of "byte_span data stop stop'"] byte_span_split [of offset stop stop' data] that(1) assms by simp
  show "tide_decode_record_prefix data stop offset depth e = Inr f \<Longrightarrow> tide_decode_record_prefix data stop' offset depth e = Inr f"
    using * assms by (fastforce simp: tide_decode_record_prefix_def not_less split: if_splits option.splits)
  show "tide_decode_record_prefix data stop offset depth e = Inl (st, e') \<Longrightarrow> st \<noteq> TIDE_STATUS_TRUNCATED \<Longrightarrow>
      tide_decode_record_prefix data stop' offset depth e = Inl (st, e')"
    using * assms by (fastforce simp: tide_decode_record_prefix_def not_less split: if_splits option.splits)
qed

lemma tide_decode_record_prefix_TRUNCATED:
  "tide_decode_record_prefix data stop offset depth e = Inl (TIDE_STATUS_TRUNCATED, e') \<Longrightarrow> e' = e"
  by (auto simp: tide_decode_record_prefix_def split: if_splits option.splits)


lemma process_config:
  assumes "record_valid data f" and "fr_crc_end f \<le> SIZE_MAX"
    and "process_with alloc (\<lambda>s. tide_parse_records alloc s data) s data f = (status, s1)" and "record_within (di_limits s) f"
  shows "same_config s s1"
proof -
  have "same_config s (snd (process_with alloc (\<lambda>s. tide_parse_records alloc s data) s data f))"
  proof (rule config.process_kept [OF _ assms(1,4)])
    fix t :: "'a tide_decoder_impl" and b e d
    assume "same_config s t" "b \<le> e" "e < fr_crc_end f"
    then show "same_config s (snd (tide_parse_records alloc t data b e d))"
      using assms(1,2) by (intro config.parse_kept) (auto simp: record_valid_def)
  qed (simp add: same_config_def)
  then show ?thesis using assms(3) by simp
qed

text \<open>
  What a parse up to \<open>stop\<close> says about a parse up to a later \<open>stop'\<close>: a failure is final, and after success or a truncation the
  parse goes on from the reported prefix.
\<close>

lemma parse_resume:
  assumes alloc: "\<And>m. alloc m" and "calm (di_callbacks s)" and "cursor \<le> stop" and "stop \<le> stop'" and "stop' \<le> length data" and "stop' \<le> SIZE_MAX"
    and "di_valid_prefix s = of_nat cursor" and "tide_parse_records alloc s data cursor stop depth = (status, s1)"
  shows "if status = TIDE_STATUS_OK \<or> status = TIDE_STATUS_TRUNCATED
    then \<exists>c. cursor \<le> c \<and> c \<le> stop \<and> di_valid_prefix s1 = of_nat c \<and> (status = TIDE_STATUS_OK \<longrightarrow> c = stop) \<and>
      tide_parse_records alloc s data cursor stop' depth = tide_parse_records alloc s1 data c stop' depth
    else tide_parse_records alloc s data cursor stop' depth = (status, s1)"
  using assms(2-)
proof (induction "stop - cursor" arbitrary: s cursor rule: less_induct)
  case less
  have b: "stop \<le> SIZE_MAX" "stop \<le> length data" using less.prems by simp_all
  note unf = tide_parse_records.simps [of alloc s data cursor stop' depth]
  note ext = tide_decode_record_prefix_extend [OF less.prems(3)]
  from b(1) less.prems(2) b(2) show ?case
  proof (cases rule: tide_parse_records_cases [where alloc = alloc and s = s and depth = depth])
    case finished
    then show ?thesis using less.prems by auto
  next
    case (prefix st error)
    show ?thesis
    proof (cases "st = TIDE_STATUS_TRUNCATED")
      case True
      then have "error = di_error s" using prefix(2) tide_decode_record_prefix_TRUNCATED by blast
      then have "s\<lparr>di_error := error, di_valid_prefix := of_nat cursor\<rparr> = s" using less.prems(6) by simp
      then have "s1 = s" "status = TIDE_STATUS_TRUNCATED" using prefix(3) less.prems(7) True by simp_all
      then show ?thesis using less.prems by auto
    next
      case False
      then have "tide_decode_record_prefix data stop' cursor depth (di_error s) = Inl (st, error)" by (rule ext(2) [OF prefix(2)])
      moreover have "st \<noteq> TIDE_STATUS_OK" using prefix(2) by (auto simp: tide_decode_record_prefix_def split: if_splits option.splits)
      ultimately show ?thesis using prefix less.prems False by (auto simp: unf)
    qed
  next
    case (limit f)
    then show ?thesis using less.prems by (auto simp: unf ext(1) [OF limit(2)])
  next
    case (integrity f st error)
    have "st \<noteq> TIDE_STATUS_TRUNCATED" using integrity(4) by (auto simp: tide_validate_record_integrity_def Let_def split: option.splits if_splits)
    then show ?thesis using integrity less.prems by (auto simp: unf ext(1) [OF integrity(2)])
  next
    case (framed f st s2)
    have nt: "st \<noteq> TIDE_STATUS_TRUNCATED" using process_calm [of alloc, OF alloc less.prems(1)] framed(9) by (metis fst_conv)
    let ?s = "s2\<lparr>di_valid_prefix := of_nat (fr_crc_end f)\<rparr>"
    have step: "tide_parse_records alloc s data cursor stop' depth =
        (if st \<noteq> TIDE_STATUS_OK then (st, s2) else tide_parse_records alloc ?s data (fr_crc_end f) stop' depth)"
      using framed less.prems by (simp add: unf ext(1) [OF framed(2)] tide_process_record_with)
    show ?thesis
    proof (cases "st = TIDE_STATUS_OK")
      case True
      have "same_config s s2" using framed(3,7) b by (intro process_config [OF framed(5) _ framed(9)]) (auto simp: record_within_def)
      then have "calm (di_callbacks ?s)" using less.prems(1) by (simp add: same_config_def)
      moreover have "tide_parse_records alloc ?s data (fr_crc_end f) stop depth = (status, s1)" using framed(10) less.prems(7) True by simp
      ultimately have ih: "if status = TIDE_STATUS_OK \<or> status = TIDE_STATUS_TRUNCATED
        then \<exists>c. fr_crc_end f \<le> c \<and> c \<le> stop \<and> di_valid_prefix s1 = of_nat c \<and> (status = TIDE_STATUS_OK \<longrightarrow> c = stop) \<and>
          tide_parse_records alloc ?s data (fr_crc_end f) stop' depth = tide_parse_records alloc s1 data c stop' depth
        else tide_parse_records alloc ?s data (fr_crc_end f) stop' depth = (status, s1)"
        using framed(1,6,7) less.prems by (intro less.hyps) auto
      show ?thesis
      proof (cases "status = TIDE_STATUS_OK \<or> status = TIDE_STATUS_TRUNCATED")
        case go_on: True
        with ih obtain c where "fr_crc_end f \<le> c" "c \<le> stop" "di_valid_prefix s1 = of_nat c" "status = TIDE_STATUS_OK \<longrightarrow> c = stop"
            "tide_parse_records alloc ?s data (fr_crc_end f) stop' depth = tide_parse_records alloc s1 data c stop' depth" by auto
        then show ?thesis using go_on step True framed(6) by (auto intro!: exI [of _ c])
      qed (use ih step True in auto)
    next
      case False
      then show ?thesis using framed(10) less.prems nt step by auto
    qed
  qed
qed


subsection \<open>Feeding a decoder piece by piece\<close>

text \<open>A client that feeds chunks, stops at the first failure, and ends with a last chunk.\<close>

fun feed_chunks :: "(nat \<Rightarrow> bool) \<Rightarrow> 'u tide_decoder option \<Rightarrow> bytes list \<Rightarrow> bytes \<Rightarrow> tide_status \<times> 'u tide_decoder option" where
  "feed_chunks alloc decoder [] lst = (case tide_decoder_feed alloc decoder (Some lst) (length lst) True of (status, n, decoder) \<Rightarrow> (status, decoder))"
| "feed_chunks alloc decoder (c # cs) lst = (case tide_decoder_feed alloc decoder (Some c) (length c) False of (status, n, decoder) \<Rightarrow>
     if status \<noteq> TIDE_STATUS_OK then (status, decoder) else feed_chunks alloc decoder cs lst)"

definition plain :: "'u tide_decoder_impl \<Rightarrow> 'u tide_decoder_impl" where
  "plain = with_input \<lparr>buf_data = [], buf_capacity = 0, buf_limit = 0\<rparr> 0 False"

lemma plain_input [simp]: "plain (with_input b p h s) = plain s"
  by (simp add: plain_def with_input_def)

lemma plain_fields [simp]:
  "di_error (plain s) = di_error s" "di_valid_prefix (plain s) = di_valid_prefix s" "di_user (plain s) = di_user s"
  by (simp_all add: plain_def with_input_def)

definition parse_start :: "tide_limits \<Rightarrow> 'u tide_callbacks \<Rightarrow> 'u \<Rightarrow> 'u tide_decoder_impl" where
  "parse_start lims cbs u = (tide_decoder_fresh lims cbs u)\<lparr>di_error := tide_error_clear, di_valid_prefix := of_nat TIDE_HEADER_SIZE\<rparr>"

text \<open>The decoder has got as far with the bytes \<open>D\<close> as a parse of all the input would.\<close>

definition resumable :: "(nat \<Rightarrow> bool) \<Rightarrow> 'u tide_decoder_impl \<Rightarrow> bytes \<Rightarrow> 'u tide_decoder_impl \<Rightarrow> bool" where
  "resumable alloc S D s \<longleftrightarrow> di_parse_offset s \<le> length D \<and> di_valid_prefix s = of_nat (di_parse_offset s) \<and>
     (\<forall>rest. length (D @ rest) \<le> SIZE_MAX \<longrightarrow> tide_parse_records alloc S (D @ rest) TIDE_HEADER_SIZE (length (D @ rest)) 0 =
       apsnd plain (tide_parse_records alloc s (D @ rest) (di_parse_offset s) (length (D @ rest)) 0))"

lemma resumable_parse:
  assumes "resumable alloc S D s" and "length (D @ rest) \<le> SIZE_MAX"
  shows "tide_parse_records alloc S (D @ rest) TIDE_HEADER_SIZE (length (D @ rest)) 0 =
    apsnd plain (tide_parse_records alloc s (D @ rest) (di_parse_offset s) (length (D @ rest)) 0)"
  using assms by (simp add: resumable_def)

lemma resumable_extend: "resumable alloc S D s \<Longrightarrow> resumable alloc S (D @ c) s"
  using resumable_parse [of alloc S D s "c @ _"] by (simp add: resumable_def)

lemma resumable_input:
  assumes "resumable alloc S D s" and "p = di_parse_offset s"
  shows "resumable alloc S D (with_input b p h s)"
proof -
  have "apsnd plain (tide_parse_records alloc (with_input b p h s) (D @ rest) (di_parse_offset s) (length (D @ rest)) 0) =
      apsnd plain (tide_parse_records alloc s (D @ rest) (di_parse_offset s) (length (D @ rest)) 0)"
    if "length (D @ rest) \<le> SIZE_MAX" for rest
    using that assms(1) input.parse_commutes [of "length (D @ rest)" "di_parse_offset s" "D @ rest" alloc b p h s 0]
    by (simp add: resumable_def apsnd_def map_prod_def split_beta)
  then show ?thesis using assms by (simp add: resumable_def with_input_def)
qed

lemma resumable_start:
  assumes "TIDE_HEADER_SIZE \<le> length D"
  shows "resumable alloc (parse_start lims cbs u) D (with_input b TIDE_HEADER_SIZE h (parse_start lims cbs u))"
proof -
  let ?S = "parse_start lims cbs u"
  have p: "plain ?S = ?S" by (simp add: plain_def with_input_def parse_start_def tide_decoder_fresh_def)
  have "tide_parse_records alloc ?S (D @ rest) TIDE_HEADER_SIZE (length (D @ rest)) 0 =
      apsnd plain (tide_parse_records alloc (with_input b TIDE_HEADER_SIZE h ?S) (D @ rest) TIDE_HEADER_SIZE (length (D @ rest)) 0)"
    if "length (D @ rest) \<le> SIZE_MAX" for rest
  proof -
    note c = input.parse_commutes [of "length (D @ rest)" TIDE_HEADER_SIZE "D @ rest" alloc _ _ _ ?S 0]
    have "tide_parse_records alloc (plain ?S) (D @ rest) TIDE_HEADER_SIZE (length (D @ rest)) 0 =
        apsnd plain (tide_parse_records alloc ?S (D @ rest) TIDE_HEADER_SIZE (length (D @ rest)) 0)"
      unfolding plain_def using that assms by (intro c) simp_all
    then show ?thesis using c that assms by (simp add: p apsnd_def map_prod_def split_beta)
  qed
  then show ?thesis by (simp add: resumable_def with_input_def parse_start_def assms)
qed


text \<open>One parse over the bytes fed so far.\<close>

lemma resumable_step:
  assumes alloc: "\<And>m. alloc m" and calm: "calm (di_callbacks s)" and res: "resumable alloc S D s" and "length D \<le> SIZE_MAX"
    and p: "tide_parse_records alloc s D (di_parse_offset s) (length D) 0 = (status, s1)"
  shows "status = TIDE_STATUS_TRUNCATED \<Longrightarrow> resumable alloc S D (s1\<lparr>di_parse_offset := unat (di_valid_prefix s1)\<rparr>)"
    and "status = TIDE_STATUS_OK \<Longrightarrow> resumable alloc S D (s1\<lparr>di_parse_offset := length D\<rparr>)"
    and "status \<noteq> TIDE_STATUS_OK \<Longrightarrow> status \<noteq> TIDE_STATUS_TRUNCATED \<Longrightarrow> length (D @ rest) \<le> SIZE_MAX \<Longrightarrow>
      tide_parse_records alloc S (D @ rest) TIDE_HEADER_SIZE (length (D @ rest)) 0 = (status, plain s1)"
proof -
  have o: "di_parse_offset s \<le> length D" "di_valid_prefix s = of_nat (di_parse_offset s)" using res by (simp_all add: resumable_def)
  have pm: "tide_parse_records alloc s (D @ rest) (di_parse_offset s) (length D) 0 = (status, s1)" for rest
    using p o assms(4) by (simp add: tide_parse_records_append)
  have r: "if status = TIDE_STATUS_OK \<or> status = TIDE_STATUS_TRUNCATED
    then \<exists>c. di_parse_offset s \<le> c \<and> c \<le> length D \<and> di_valid_prefix s1 = of_nat c \<and> (status = TIDE_STATUS_OK \<longrightarrow> c = length D) \<and>
      tide_parse_records alloc s (D @ rest) (di_parse_offset s) (length (D @ rest)) 0 = tide_parse_records alloc s1 (D @ rest) c (length (D @ rest)) 0
    else tide_parse_records alloc s (D @ rest) (di_parse_offset s) (length (D @ rest)) 0 = (status, s1)" if "length (D @ rest) \<le> SIZE_MAX" for rest
    using that o by (intro parse_resume [of alloc, OF alloc calm _ _ _ _ _ pm]) simp_all
  show "tide_parse_records alloc S (D @ rest) TIDE_HEADER_SIZE (length (D @ rest)) 0 = (status, plain s1)"
    if "status \<noteq> TIDE_STATUS_OK" "status \<noteq> TIDE_STATUS_TRUNCATED" "length (D @ rest) \<le> SIZE_MAX"
    using resumable_parse [OF res that(3)] r [OF that(3)] that by simp
  have go: "resumable alloc S D (s1\<lparr>di_parse_offset := c\<rparr>)"
    if st: "status = TIDE_STATUS_OK \<or> status = TIDE_STATUS_TRUNCATED" and c: "di_valid_prefix s1 = of_nat c" "c \<le> length D" for c
  proof -
    have s1: "s1\<lparr>di_parse_offset := c\<rparr> = with_input (di_buffer s1) c (di_header_validated s1) s1" by (simp add: with_input_def)
    have "tide_parse_records alloc S (D @ rest) TIDE_HEADER_SIZE (length (D @ rest)) 0 =
        apsnd plain (tide_parse_records alloc (s1\<lparr>di_parse_offset := c\<rparr>) (D @ rest) c (length (D @ rest)) 0)"
      if l: "length (D @ rest) \<le> SIZE_MAX" for rest
    proof -
      obtain c' where c': "c' \<le> length D" "di_valid_prefix s1 = of_nat c'"
          "tide_parse_records alloc s (D @ rest) (di_parse_offset s) (length (D @ rest)) 0 = tide_parse_records alloc s1 (D @ rest) c' (length (D @ rest)) 0"
        using r [OF l] st by auto
      have "c' = c" using c c'(1,2) assms(4) by (metis order_trans unat_of_nat_size)
      have "tide_parse_records alloc (with_input (di_buffer s1) c (di_header_validated s1) s1) (D @ rest) c (length (D @ rest)) 0 =
          apsnd (with_input (di_buffer s1) c (di_header_validated s1)) (tide_parse_records alloc s1 (D @ rest) c (length (D @ rest)) 0)"
        using l c(2) by (intro input.parse_commutes) simp_all
      then show ?thesis
        unfolding s1 using resumable_parse [OF res l] c'(3) \<open>c' = c\<close> by (simp add: apsnd_def map_prod_def split_beta)
    qed
    then show ?thesis using c by (simp add: resumable_def)
  qed
  obtain c where c: "status = TIDE_STATUS_OK \<or> status = TIDE_STATUS_TRUNCATED \<Longrightarrow> c \<le> length D \<and> di_valid_prefix s1 = of_nat c \<and>
      (status = TIDE_STATUS_OK \<longrightarrow> c = length D)"
    using r [of "[]"] assms(4) by (auto split: if_splits)
  show "resumable alloc S D (s1\<lparr>di_parse_offset := unat (di_valid_prefix s1)\<rparr>)" if "status = TIDE_STATUS_TRUNCATED"
    using go [of c] c that assms(4) by simp
  show "resumable alloc S D (s1\<lparr>di_parse_offset := length D\<rparr>)" if "status = TIDE_STATUS_OK"
    using go [of "length D"] c that by simp
qed


text \<open>A decoder that was fed the bytes \<open>D\<close>, and one that has also read the header.\<close>

definition feeding :: "tide_limits \<Rightarrow> 'u tide_callbacks \<Rightarrow> bytes \<Rightarrow> 'u tide_decoder_impl \<Rightarrow> bool" where
  "feeding lims cbs D s \<longleftrightarrow> \<not> di_cancelled s \<and> \<not> di_terminal s \<and> di_limits s = lims \<and> di_callbacks s = cbs \<and>
     buf_data (di_buffer s) = D \<and> buf_limit (di_buffer s) = max_aggregate_alloc lims"

definition headed :: "(nat \<Rightarrow> bool) \<Rightarrow> tide_limits \<Rightarrow> 'u tide_callbacks \<Rightarrow> 'u \<Rightarrow> bytes \<Rightarrow> 'u tide_decoder_impl \<Rightarrow> bool" where
  "headed alloc lims cbs u D s \<longleftrightarrow> di_header_validated s \<and> TIDE_HEADER_SIZE \<le> length D \<and>
     tide_validate_header D lims tide_error_clear = (TIDE_STATUS_OK, tide_error_clear) \<and> resumable alloc (parse_start lims cbs u) D s"

definition unheaded :: "tide_limits \<Rightarrow> 'u tide_callbacks \<Rightarrow> 'u \<Rightarrow> 'u tide_decoder_impl \<Rightarrow> bool" where
  "unheaded lims cbs u s \<longleftrightarrow> s = (tide_decoder_fresh lims cbs u)\<lparr>di_buffer := di_buffer s\<rparr>"

definition fed :: "(nat \<Rightarrow> bool) \<Rightarrow> tide_limits \<Rightarrow> 'u tide_callbacks \<Rightarrow> 'u \<Rightarrow> bytes \<Rightarrow> 'u tide_decoder_impl \<Rightarrow> bool" where
  "fed alloc lims cbs u D s \<longleftrightarrow> feeding lims cbs D s \<and>
     (headed alloc lims cbs u D s \<or> unheaded lims cbs u s \<and> length D < TIDE_HEADER_SIZE)"

lemma tide_validate_header_append:
  assumes "TIDE_HEADER_SIZE \<le> length xs"
  shows "tide_validate_header (xs @ ys) lims e = tide_validate_header xs lims e"
proof -
  have "take 8 (xs @ ys) = take 8 xs" "take (TIDE_HEADER_SIZE - 4) (xs @ ys) = take (TIDE_HEADER_SIZE - 4) xs"
    "byte_span (xs @ ys) 8 TIDE_HEADER_SIZE = byte_span xs 8 TIDE_HEADER_SIZE"
    using assms by (simp_all add: span_append_left TIDE_HEADER_SIZE_def)
  note t = this
  show ?thesis unfolding tide_validate_header_def t using assms by simp
qed

lemma tide_validate_header_OK: "tide_validate_header D lims e = (TIDE_STATUS_OK, e') \<Longrightarrow> e' = e \<and> TIDE_HEADER_SIZE \<le> length D"
  by (auto simp: tide_validate_header_def split: if_splits option.splits)

lemma tide_validate_header_TRUNCATED: "tide_validate_header D lims e = (TIDE_STATUS_TRUNCATED, e') \<Longrightarrow> length D < TIDE_HEADER_SIZE"
  by (auto simp: tide_validate_header_def split: if_splits option.splits)

lemma unheaded_fields: "unheaded lims cbs u s \<Longrightarrow> \<not> di_header_validated s \<and> di_error s = tide_error_clear \<and> di_valid_prefix s = 0 \<and> di_user s = u"
  unfolding unheaded_def by (erule ssubst) (simp add: tide_decoder_fresh_def)

lemma tide_feed_header_cases:
  assumes "feeding lims cbs D s" and "headed alloc lims cbs u D s \<or> unheaded lims cbs u s"
  obtains (ok) s1 where "tide_feed_header s = (TIDE_STATUS_OK, s1)" and "feeding lims cbs D s1" and "headed alloc lims cbs u D s1"
  | (fail) status e where "tide_feed_header s = (status, s\<lparr>di_error := e\<rparr>)" and "status \<noteq> TIDE_STATUS_OK"
      and "tide_validate_header D lims tide_error_clear = (status, e)" and "unheaded lims cbs u s"
proof (cases "headed alloc lims cbs u D s")
  case True
  then show thesis using assms(1) by (intro ok [of s]) (simp_all add: tide_feed_header_def headed_def)
next
  case False
  then have un: "unheaded lims cbs u s" using assms(2) by simp
  note f = unheaded_fields [OF un]
  obtain st e where v: "tide_validate_header D lims tide_error_clear = (st, e)" by fastforce
  have b: "buf_data (di_buffer s) = D" "di_limits s = lims" using assms(1) by (simp_all add: feeding_def)
  show thesis
  proof (cases "st = TIDE_STATUS_OK")
    case False
    then show thesis using v f b un by (intro fail [of st e]) (auto simp: tide_feed_header_def)
  next
    case True
    let ?s = "with_input (di_buffer s) TIDE_HEADER_SIZE True (parse_start lims cbs u)"
    have e: "e = tide_error_clear" "TIDE_HEADER_SIZE \<le> length D" using tide_validate_header_OK v True by blast+
    have "s\<lparr>di_error := e, di_header_validated := True, di_parse_offset := TIDE_HEADER_SIZE, di_valid_prefix := of_nat TIDE_HEADER_SIZE\<rparr> = ?s"
      using un e unfolding unheaded_def by (cases s) (simp add: parse_start_def with_input_def tide_decoder_fresh_def)
    then have "tide_feed_header s = (TIDE_STATUS_OK, ?s)" using f b v True by (simp add: tide_feed_header_def)
    moreover have "feeding lims cbs D ?s" using assms(1) by (simp add: feeding_def with_input_def parse_start_def tide_decoder_fresh_def)
    moreover have "headed alloc lims cbs u D ?s"
      using resumable_start [OF e(2), of alloc lims cbs u "di_buffer s" True] v True e
      by (simp add: headed_def) (simp add: with_input_def)
    ultimately show thesis by (rule ok)
  qed
qed


text \<open>
  The decoder ended as a parse of the whole input does: with the same status, error and valid prefix, and the same state of the
  client, apart from the \<open>on_error\<close> callback, which only the decoder calls, and only on a failure.
\<close>

definition agrees :: "'u tide_callbacks \<Rightarrow> tide_status \<times> tide_error \<times> u64 \<times> 'u \<Rightarrow> tide_status \<Rightarrow> 'u tide_decoder_impl \<Rightarrow> bool" where
  "agrees cbs whole status s \<longleftrightarrow> (case whole of (status', e, v, u) \<Rightarrow> status = status' \<and> di_error s = e \<and> di_valid_prefix s = v \<and>
     (di_user s = u \<or> status \<noteq> TIDE_STATUS_OK \<and> (\<exists>cb. on_error cbs = Some cb \<and> di_user s = cb u e)))"

abbreviation parse_whole :: "(nat \<Rightarrow> bool) \<Rightarrow> tide_limits \<Rightarrow> 'u tide_callbacks \<Rightarrow> 'u \<Rightarrow> bytes \<Rightarrow> tide_status \<times> tide_error \<times> u64 \<times> 'u" where
  "parse_whole alloc lims cbs u D \<equiv> tide_parse_tide_bytes alloc (Some D) (length D) True (Some lims) (Some cbs) u tide_error_clear 0"

lemma parse_whole_header:
  "tide_validate_header D lims tide_error_clear = (status, e) \<Longrightarrow> status \<noteq> TIDE_STATUS_OK \<Longrightarrow>
    parse_whole alloc lims cbs u D = (if status = TIDE_STATUS_TRUNCATED then TIDE_STATUS_PARTIAL else status, e, 0, u)"
  by (simp add: tide_parse_tide_bytes_def tide_decoder_fresh_def)

lemma parse_whole_records:
  "tide_validate_header D lims tide_error_clear = (TIDE_STATUS_OK, tide_error_clear) \<Longrightarrow>
    parse_whole alloc lims cbs u D = (case tide_parse_records alloc (parse_start lims cbs u) D TIDE_HEADER_SIZE (length D) 0 of (status, t) \<Rightarrow>
      (if status = TIDE_STATUS_TRUNCATED then TIDE_STATUS_PARTIAL else status, di_error t, di_valid_prefix t, di_user t))"
  by (simp add: tide_parse_tide_bytes_def tide_decoder_fresh_def parse_start_def split: prod.split)

lemma tide_notify_error_agrees:
  assumes "di_callbacks s = cbs" and "status \<noteq> TIDE_STATUS_OK"
    and "whole = (status, di_error s, di_valid_prefix s, di_user s)"
  shows "agrees cbs whole status ((tide_notify_error s)\<lparr>di_terminal := True\<rparr>)"
  using assms by (cases "on_error cbs") (auto simp: agrees_def tide_notify_error_def)

lemma feeding_config: "feeding lims cbs D s \<Longrightarrow> same_config s s1 \<Longrightarrow> feeding lims cbs D s1"
  by (simp add: feeding_def same_config_def)

lemma parse_feeding:
  assumes "feeding lims cbs D s" and "headed alloc lims cbs u D s" and "length D \<le> SIZE_MAX"
    and "tide_parse_records alloc s D (di_parse_offset s) (length D) 0 = (status, s1)"
  shows "same_config s s1" and "feeding lims cbs D s1" and "di_header_validated s1" and "di_callbacks s1 = cbs"
proof -
  have "same_config s (snd (tide_parse_records alloc s D (di_parse_offset s) (length D) 0))"
    using assms(2,3) by (intro config.parse_kept) (simp_all add: same_config_def headed_def resumable_def)
  then show c: "same_config s s1" using assms(4) by simp
  then show "feeding lims cbs D s1" "di_header_validated s1" "di_callbacks s1 = cbs"
    using assms(1,2) by (simp_all add: feeding_config headed_def same_config_def feeding_def)
qed

lemma tide_feed_more_spec:
  fixes s :: "'u tide_decoder_impl"
  assumes alloc: "\<And>m. alloc m" and calm: "calm cbs" and f: "feeding lims cbs D s" "headed alloc lims cbs u D s \<or> unheaded lims cbs u s"
    and size: "length D \<le> SIZE_MAX" and more: "tide_feed_more alloc s = (status, s')"
  shows "status = TIDE_STATUS_OK \<Longrightarrow> fed alloc lims cbs u D s'"
    and "status \<noteq> TIDE_STATUS_OK \<Longrightarrow> length (D @ rest) \<le> SIZE_MAX \<Longrightarrow> agrees cbs (parse_whole alloc lims cbs u (D @ rest)) status s'"
proof -
  have "(status = TIDE_STATUS_OK \<longrightarrow> fed alloc lims cbs u D s') \<and>
    (status \<noteq> TIDE_STATUS_OK \<and> length (D @ rest) \<le> SIZE_MAX \<longrightarrow> agrees cbs (parse_whole alloc lims cbs u (D @ rest)) status s')"
  proof (cases "\<not> di_header_validated s \<and> length D < TIDE_HEADER_SIZE")
    case True
    then show ?thesis using f more by (auto simp: tide_feed_more_def feeding_def fed_def headed_def)
  next
    case ready: False
    from f show ?thesis
    proof (cases rule: tide_feed_header_cases)
      case (fail st e)
      have len: "TIDE_HEADER_SIZE \<le> length D" using ready unheaded_fields [OF fail(4)] by auto
      then have nt: "st \<noteq> TIDE_STATUS_TRUNCATED" using tide_validate_header_TRUNCATED [of D lims tide_error_clear e] fail(3) by auto
      have v: "tide_validate_header (D @ rest) lims tide_error_clear = (st, e)" using tide_validate_header_append [OF len] fail(3) by simp
      have "parse_whole alloc lims cbs u (D @ rest) = (st, e, 0, u)" using parse_whole_header [OF v fail(2)] nt by simp
      moreover have "status = st" "s' = (tide_notify_error (s\<lparr>di_error := e\<rparr>))\<lparr>di_terminal := True\<rparr>"
        using more ready fail(1,2) f(1) by (auto simp: tide_feed_more_def feeding_def)
      ultimately show ?thesis
        using fail(2) unheaded_fields [OF fail(4)] f(1) by (auto intro!: tide_notify_error_agrees simp: feeding_def)
    next
      case (ok s1)
      obtain st s2 where p: "tide_parse_records alloc s1 D (di_parse_offset s1) (length D) 0 = (st, s2)" by fastforce
      have res: "resumable alloc (parse_start lims cbs u) D s1" and calm1: "calm (di_callbacks s1)"
        using ok(2,3) calm by (simp_all add: headed_def feeding_def)
      note k = parse_feeding [OF ok(2,3) size p] and step = resumable_step [of alloc, OF alloc calm1 res size p]
      have m: "(status, s') = (if st = TIDE_STATUS_TRUNCATED then (TIDE_STATUS_OK, s2\<lparr>di_parse_offset := unat (di_valid_prefix s2)\<rparr>)
          else if st \<noteq> TIDE_STATUS_OK then (st, (tide_notify_error s2)\<lparr>di_terminal := True\<rparr>)
          else (TIDE_STATUS_OK, s2\<lparr>di_parse_offset := length D\<rparr>))"
        using more ready ok(1,2) p k(2) f(1) by (auto simp: tide_feed_more_def feeding_def)
      have fd: "fed alloc lims cbs u D (s2\<lparr>di_parse_offset := o'\<rparr>)" if "resumable alloc (parse_start lims cbs u) D (s2\<lparr>di_parse_offset := o'\<rparr>)" for o'
        using that k ok(3) by (simp add: fed_def feeding_def headed_def)
      consider "st = TIDE_STATUS_TRUNCATED" | "st = TIDE_STATUS_OK" | "st \<noteq> TIDE_STATUS_OK" "st \<noteq> TIDE_STATUS_TRUNCATED" by blast
      then show ?thesis
      proof cases
        case 3
        have hv: "TIDE_HEADER_SIZE \<le> length D" "tide_validate_header D lims tide_error_clear = (TIDE_STATUS_OK, tide_error_clear)"
          using ok(3) by (simp_all add: headed_def)
        then have "tide_validate_header (D @ rest) lims tide_error_clear = (TIDE_STATUS_OK, tide_error_clear)"
          using tide_validate_header_append [OF hv(1)] by simp
        note w = parse_whole_records [OF this, of alloc cbs u]
        have "agrees cbs (parse_whole alloc lims cbs u (D @ rest)) st ((tide_notify_error s2)\<lparr>di_terminal := True\<rparr>)"
          if l: "length (D @ rest) \<le> SIZE_MAX"
        proof (rule tide_notify_error_agrees [OF k(4) 3(1)])
          show "parse_whole alloc lims cbs u (D @ rest) = (st, di_error s2, di_valid_prefix s2, di_user s2)"
            using w step(3) [OF 3 l] 3 by simp
        qed
        then show ?thesis using m 3 by simp
      qed (use m fd step in auto)
    qed
  qed
  then show "status = TIDE_STATUS_OK \<Longrightarrow> fed alloc lims cbs u D s'"
    and "status \<noteq> TIDE_STATUS_OK \<Longrightarrow> length (D @ rest) \<le> SIZE_MAX \<Longrightarrow> agrees cbs (parse_whole alloc lims cbs u (D @ rest)) status s'" by blast+
qed


lemma tide_feed_end_spec:
  fixes s :: "'u tide_decoder_impl"
  assumes f: "feeding lims cbs D s" "headed alloc lims cbs u D s \<or> unheaded lims cbs u s"
    and size: "length D \<le> SIZE_MAX" and last: "tide_feed_end alloc s = (status, s')"
  shows "agrees cbs (parse_whole alloc lims cbs u D) status s'"
  using f
proof (cases rule: tide_feed_header_cases)
  case (fail st e)
  then show ?thesis
    using last unheaded_fields [OF fail(4)]
    unfolding tide_feed_end_def fail(1) parse_whole_header [OF fail(3,2), of alloc cbs u] by (auto simp: agrees_def split: if_splits)
next
  case (ok s1)
  obtain st s2 where p: "tide_parse_records alloc s1 D (di_parse_offset s1) (length D) 0 = (st, s2)" by fastforce
  have hv: "tide_validate_header D lims tide_error_clear = (TIDE_STATUS_OK, tide_error_clear)" and res: "resumable alloc (parse_start lims cbs u) D s1"
    using ok(3) by (simp_all add: headed_def)
  note k = parse_feeding [OF ok(2,3) size p]
  have b: "buf_data (di_buffer s1) = D" using ok(2) by (simp add: feeding_def)
  have w: "parse_whole alloc lims cbs u D =
      (if st = TIDE_STATUS_TRUNCATED then TIDE_STATUS_PARTIAL else st, di_error s2, di_valid_prefix s2, di_user s2)"
    using parse_whole_records [OF hv, of alloc cbs u] resumable_parse [OF res, of "[]"] size p by simp
  show ?thesis
    using last k(4) unfolding tide_feed_end_def ok(1) b prod.case p w
    by (auto simp: Let_def b p agrees_def tide_notify_error_def split: if_splits option.splits)
qed

lemma fed_append:
  assumes "fed alloc lims cbs u D s" and "b = (di_buffer s)\<lparr>buf_data := D @ c, buf_capacity := cap\<rparr>"
  shows "feeding lims cbs (D @ c) (s\<lparr>di_buffer := b\<rparr>)"
    and "headed alloc lims cbs u (D @ c) (s\<lparr>di_buffer := b\<rparr>) \<or> unheaded lims cbs u (s\<lparr>di_buffer := b\<rparr>)"
proof -
  have i: "s\<lparr>di_buffer := b\<rparr> = with_input b (di_parse_offset s) (di_header_validated s) s" by (simp add: with_input_def)
  show "feeding lims cbs (D @ c) (s\<lparr>di_buffer := b\<rparr>)" using assms by (simp add: fed_def feeding_def)
  have "headed alloc lims cbs u (D @ c) (s\<lparr>di_buffer := b\<rparr>)" if h: "headed alloc lims cbs u D s"
  proof -
    have "resumable alloc (parse_start lims cbs u) (D @ c) (s\<lparr>di_buffer := b\<rparr>)"
      unfolding i using h by (intro resumable_input resumable_extend) (simp_all add: headed_def)
    then show ?thesis using h tide_validate_header_append [of D c lims tide_error_clear] by (simp add: headed_def)
  qed
  moreover have "unheaded lims cbs u (s\<lparr>di_buffer := b\<rparr>)" if "unheaded lims cbs u s"
    using that by (cases s) (simp add: unheaded_def tide_decoder_fresh_def)
  ultimately show "headed alloc lims cbs u (D @ c) (s\<lparr>di_buffer := b\<rparr>) \<or> unheaded lims cbs u (s\<lparr>di_buffer := b\<rparr>)"
    using assms(1) by (auto simp: fed_def)
qed

lemma tide_decoder_feed_fed:
  assumes alloc: "\<And>m. alloc m" and f: "fed alloc lims cbs u D s" and "length (D @ c) \<le> SIZE_MAX"
    and "max_aggregate_alloc lims = 0 \<or> length (D @ c) \<le> max_aggregate_alloc lims"
  obtains s1 where "feeding lims cbs (D @ c) s1" and "headed alloc lims cbs u (D @ c) s1 \<or> unheaded lims cbs u s1"
    and "tide_decoder_feed alloc (Some (Some s)) (Some c) (length c) final =
      (case (if final then tide_feed_end alloc s1 else tide_feed_more alloc s1) of (status, s2) \<Rightarrow> (status, length c, Some (Some s2)))"
proof -
  have b: "buf_data (di_buffer s) = D" "buf_limit (di_buffer s) = max_aggregate_alloc lims" "\<not> di_cancelled s" "\<not> di_terminal s"
    using f by (simp_all add: fed_def feeding_def)
  have fits: "tide_buffer_fits (di_buffer s) (length c)" using assms(3,4) b by (auto simp: tide_buffer_fits_def)
  obtain cap where a: "tide_buffer_append alloc (di_buffer s) (Some c) (length c) =
      (TIDE_STATUS_OK, (di_buffer s)\<lparr>buf_data := D @ c, buf_capacity := cap\<rparr>)"
    using tide_buffer_append_cases [of "length c" c alloc "di_buffer s"] fits alloc b(1) by (metis order_refl take_all)
  note k = fed_append [OF f refl, of c cap]
  show thesis by (rule that [OF k]) (use a b in \<open>simp add: tide_decoder_feed_def tide_impl_def Let_def split: prod.split\<close>)
qed


lemma tide_decoder_feed_take:
  "n \<le> length data \<Longrightarrow> tide_decoder_feed alloc decoder (Some data) n final = tide_decoder_feed alloc decoder (Some (take n data)) n final"
proof -
  have "tide_buffer_append alloc b (Some data) n = tide_buffer_append alloc b (Some (take n data)) n" for b
    by (simp add: tide_buffer_append_def split: prod.split)
  then show ?thesis by (cases "tide_impl decoder") (simp_all add: tide_decoder_feed_def)
qed

lemma fed_init:
  assumes "\<And>m. alloc m"
  obtains s where "tide_decoder_init alloc (Some old) limits callbacks u = (TIDE_STATUS_OK, Some (Some s))"
    and "fed alloc (case limits of None \<Rightarrow> tide_limits_default | Some l \<Rightarrow> l) (case callbacks of None \<Rightarrow> no_callbacks | Some c \<Rightarrow> c) u [] s"
  using assms by (simp add: tide_decoder_init_def fed_def feeding_def unheaded_def tide_decoder_fresh_def TIDE_HEADER_SIZE_def Let_def)

lemma feed_final:
  assumes "\<And>m. alloc m" and "fed alloc lims cbs u D s" and "length (D @ c) \<le> SIZE_MAX"
    and "max_aggregate_alloc lims = 0 \<or> length (D @ c) \<le> max_aggregate_alloc lims"
  shows "\<exists>status s'. tide_decoder_feed alloc (Some (Some s)) (Some c) (length c) True = (status, length c, Some (Some s')) \<and>
    agrees cbs (parse_whole alloc lims cbs u (D @ c)) status s'"
proof -
  obtain s1 where s1: "feeding lims cbs (D @ c) s1" "headed alloc lims cbs u (D @ c) s1 \<or> unheaded lims cbs u s1"
      "tide_decoder_feed alloc (Some (Some s)) (Some c) (length c) True =
        (case tide_feed_end alloc s1 of (status, s2) \<Rightarrow> (status, length c, Some (Some s2)))"
    by (rule tide_decoder_feed_fed [of alloc, where final = True, OF assms(1-4)]) auto
  obtain st s2 where e: "tide_feed_end alloc s1 = (st, s2)" by fastforce
  show ?thesis using tide_feed_end_spec [OF s1(1,2) assms(3) e] s1(3) e by simp
qed

lemma feed_chunk:
  assumes "\<And>m. alloc m" and "calm cbs" and "fed alloc lims cbs u D s" and "length (D @ c) \<le> SIZE_MAX"
    and "max_aggregate_alloc lims = 0 \<or> length (D @ c) \<le> max_aggregate_alloc lims"
  obtains (ok) s' where "tide_decoder_feed alloc (Some (Some s)) (Some c) (length c) False = (TIDE_STATUS_OK, length c, Some (Some s'))"
      and "fed alloc lims cbs u (D @ c) s'"
  | (fail) status s' where "tide_decoder_feed alloc (Some (Some s)) (Some c) (length c) False = (status, length c, Some (Some s'))"
      and "status \<noteq> TIDE_STATUS_OK"
      and "\<And>rest. length ((D @ c) @ rest) \<le> SIZE_MAX \<Longrightarrow> agrees cbs (parse_whole alloc lims cbs u ((D @ c) @ rest)) status s'"
proof -
  obtain s1 where s1: "feeding lims cbs (D @ c) s1" "headed alloc lims cbs u (D @ c) s1 \<or> unheaded lims cbs u s1"
      "tide_decoder_feed alloc (Some (Some s)) (Some c) (length c) False =
        (case tide_feed_more alloc s1 of (status, s2) \<Rightarrow> (status, length c, Some (Some s2)))"
    by (rule tide_decoder_feed_fed [of alloc, where final = False, OF assms(1,3-5)]) auto
  obtain st s2 where e: "tide_feed_more alloc s1 = (st, s2)" by fastforce
  note m = tide_feed_more_spec [of alloc, OF assms(1,2) s1(1,2) assms(4) e]
  show thesis
  proof (cases "st = TIDE_STATUS_OK")
    case True
    then show thesis using ok [of s2] m(1) s1(3) e by simp
  next
    case False
    then show thesis using fail [of st s2] m(2) s1(3) e by simp
  qed
qed

lemma feed_chunks_fed:
  assumes alloc: "\<And>m. alloc m" and calm: "calm cbs" and size: "length (D @ concat cs @ lst) \<le> SIZE_MAX"
    and room: "max_aggregate_alloc lims = 0 \<or> length (D @ concat cs @ lst) \<le> max_aggregate_alloc lims"
    and fed: "fed alloc lims cbs u D s"
  shows "\<exists>status s'. feed_chunks alloc (Some (Some s)) cs lst = (status, Some (Some s')) \<and>
    agrees cbs (parse_whole alloc lims cbs u (D @ concat cs @ lst)) status s'"
  using size room fed
proof (induction cs arbitrary: D s)
  case Nil
  then show ?case using feed_final [of alloc, OF alloc Nil(3), of lst] by auto
next
  case (Cons c cs)
  have fits: "length (D @ c) \<le> SIZE_MAX" "max_aggregate_alloc lims = 0 \<or> length (D @ c) \<le> max_aggregate_alloc lims"
    using Cons.prems by auto
  show ?case
  proof (cases rule: feed_chunk [of alloc, OF alloc calm Cons.prems(3) fits])
    case (1 s')
    then show ?thesis using Cons.IH [of "D @ c" s'] Cons.prems(1,2) by simp
  next
    case (2 status s')
    then show ?thesis using 2(3) [of "concat cs @ lst"] Cons.prems(1) by simp
  qed
qed

text \<open>C3: feeding a decoder a file in pieces, however it is cut, ends as one parse of the whole file does: the same status (incomplete
  input is \<open>TIDE_STATUS_PARTIAL\<close>), error, valid prefix and sequence of events for the client, apart from the \<open>on_error\<close> callback.
\<close>

theorem feed_chunks_equivalent:
  fixes cbs :: "'u tide_callbacks"
  assumes "\<And>m. alloc m" and "calm cbs" and "length (concat cs @ lst) \<le> SIZE_MAX"
    and "max_aggregate_alloc lims = 0 \<or> length (concat cs @ lst) \<le> max_aggregate_alloc lims"
  shows "\<exists>decoder status s. tide_decoder_init alloc (Some old) (Some lims) (Some cbs) u = (TIDE_STATUS_OK, decoder) \<and>
    feed_chunks alloc decoder cs lst = (status, Some (Some s)) \<and> agrees cbs (parse_whole alloc lims cbs u (concat cs @ lst)) status s"
proof -
  obtain s where s: "tide_decoder_init alloc (Some old) (Some lims) (Some cbs) u = (TIDE_STATUS_OK, Some (Some s))" "fed alloc lims cbs u [] s"
    by (rule fed_init [of alloc, OF assms(1), of old "Some lims" "Some cbs" u]) simp
  from feed_chunks_fed [of alloc, OF assms(1,2) _ _ s(2), of cs lst] show ?thesis using assms(3,4) s(1) by simp
qed

theorem feed_chunks_equivalent_witness:
  "\<exists>decoder s. tide_decoder_init (\<lambda>_. True) (Some None) (Some tide_limits_default) (Some (logged no_callbacks)) ([], ()) = (TIDE_STATUS_OK, decoder) \<and>
    feed_chunks (\<lambda>_. True) decoder (map (\<lambda>x. [x]) skip_file) [] = (TIDE_STATUS_OK, Some (Some s)) \<and>
    di_valid_prefix s = 92 \<and> length (fst (di_user s)) = 1"
proof -
  have "calm (logged no_callbacks :: (tide_emitted list \<times> unit) tide_callbacks)" by (simp add: calm_def logged_def no_callbacks_def)
  moreover have "concat (map (\<lambda>x. [x]) xs) = xs" for xs :: bytes by (induction xs) simp_all
  ultimately show ?thesis
    using feed_chunks_equivalent [of "\<lambda>_. True" "logged no_callbacks" "map (\<lambda>x. [x]) skip_file" "[]" tide_limits_default None "([], ())"]
      parse_skip_file [of "\<lambda>_. True" "()" tide_error_clear 0]
    by (auto simp: agrees_def length_skip_file SIZE_MAX_def tide_limits_default_def tide_parse_tide_bytes_def)
qed

end
