(* ===== verification/Tide_Fuzz.thy ===== *)
theory Tide_Fuzz
  imports Tide_Feed Tide_Cli
begin

text \<open>
  The fuzz targets (\<open>fuzz/fuzz_decoder.c\<close>, \<open>fuzz/fuzz_chunk_boundaries.c\<close> and \<open>fuzz/fuzz_demux_remux.c\<close>). Each calls \<open>abort\<close>
  when the library breaks a promise; the theorems say that no input makes them do so. Memory that is freed at the end of a run is
  not modelled apart from the payload leases.
\<close>

subsection \<open>\<open>fuzz_decoder.c\<close>\<close>

text \<open>A harness either returns or calls \<open>abort\<close>.\<close>

datatype outcome = Returned int | Aborted

definition fuzz_decoder_run_one :: "(nat \<Rightarrow> bool) \<Rightarrow> bytes \<Rightarrow> outcome" where
  "fuzz_decoder_run_one alloc data =
     (case tide_decoder_init alloc (Some None) None None () of (status, decoder) \<Rightarrow>
      if status \<noteq> TIDE_STATUS_OK then Returned 0
      else case tide_decoder_feed alloc decoder (Some data) (length data) True of (status, consumed, decoder) \<Rightarrow>
      if consumed \<noteq> length data then Aborted
      else if status = TIDE_STATUS_OK \<and> tide_decoder_valid_prefix decoder \<noteq> of_nat (length data) then Aborted
      else Returned 0)"

text \<open>The stand-alone \<open>main\<close>, which runs the harness on the file it is given.\<close>

definition fuzz_decoder_main :: "(nat \<Rightarrow> bool) \<Rightarrow> tide_os \<Rightarrow> string list \<Rightarrow> outcome" where
  "fuzz_decoder_main alloc os argv =
     (if length argv \<noteq> 2 then Returned 0
      else case os_files os (argv ! 1) of
        None \<Rightarrow> Returned 1
      | Some content \<Rightarrow>
          if \<not> os_seek_ok os then Returned 1
          else let len = os_ftell_end os content in
          if len < 0 then Returned 1
          else if \<not> alloc (nat len) \<and> len \<noteq> 0 then Returned 1
          else let data = os_fread os content (nat len) in
          if length data \<noteq> nat len then Returned 1
          else case fuzz_decoder_run_one alloc data of Aborted \<Rightarrow> Aborted | Returned _ \<Rightarrow> Returned 0)"

subsection \<open>\<open>fuzz_chunk_boundaries.c\<close>\<close>

record event_count =
  ec_records :: int
  ec_streams :: int
  ec_packets :: int

definition count_callbacks :: "event_count tide_callbacks" where
  "count_callbacks = \<lparr>
     on_record = Some (\<lambda>n event. (TIDE_STATUS_OK, n\<lparr>ec_records := ec_records n + 1\<rparr>)),
     on_stream = Some (\<lambda>n stream. (TIDE_STATUS_OK, n\<lparr>ec_streams := ec_streams n + 1\<rparr>)),
     on_packet = Some (\<lambda>n packet. (TIDE_STATUS_OK, n\<lparr>ec_packets := ec_packets n + 1\<rparr>)),
     on_error = None\<rparr>"

text \<open>\<open>events\<close> is written through the pointer the decoder was given: it is read back from the decoder. \<open>None\<close> is a call of \<open>abort\<close>.\<close>

definition decoder_user :: "'u tide_decoder option \<Rightarrow> 'u \<Rightarrow> 'u" where
  "decoder_user decoder u = (case tide_impl decoder of None \<Rightarrow> u | Some s \<Rightarrow> di_user s)"

definition decode_once :: "(nat \<Rightarrow> bool) \<Rightarrow> bytes \<Rightarrow> event_count \<Rightarrow> (tide_status \<times> event_count) option" where
  "decode_once alloc data events =
     (case tide_decoder_init alloc (Some None) None (Some count_callbacks) events of (status, decoder) \<Rightarrow>
      if status \<noteq> TIDE_STATUS_OK then Some (status, events)
      else case tide_decoder_feed alloc decoder (Some data) (length data) True of (status, consumed, decoder) \<Rightarrow>
      if consumed \<noteq> length data then None
      else Some (status, decoder_user decoder events))"

definition decode_split :: "(nat \<Rightarrow> bool) \<Rightarrow> bytes \<Rightarrow> nat \<Rightarrow> event_count \<Rightarrow> (tide_status \<times> event_count) option" where
  "decode_split alloc data split events =
     (case tide_decoder_init alloc (Some None) None (Some count_callbacks) events of (status, decoder) \<Rightarrow>
      if status \<noteq> TIDE_STATUS_OK then Some (status, events)
      else case tide_decoder_feed alloc decoder (Some data) split False of (status, consumed, decoder) \<Rightarrow>
      if status \<noteq> TIDE_STATUS_OK \<or> consumed \<noteq> split then Some (status, decoder_user decoder events)
      else case tide_decoder_feed alloc decoder (Some (drop split data)) (length data - split) True of (status, consumed, decoder) \<Rightarrow>
      if consumed \<noteq> length data - split then None
      else Some (status, decoder_user decoder events))"

definition fuzz_chunk_run_one :: "(nat \<Rightarrow> bool) \<Rightarrow> bytes \<Rightarrow> outcome" where
  "fuzz_chunk_run_one alloc data =
     (if length data < 2 then Returned 0
      else let zero = \<lparr>ec_records = 0, ec_streams = 0, ec_packets = 0\<rparr> in
      case decode_once alloc (tl data) zero of
        None \<Rightarrow> Aborted
      | Some (a, contiguous) \<Rightarrow>
          (case decode_split alloc (tl data) (unat (hd data) mod length data) zero of
             None \<Rightarrow> Aborted
           | Some (b, chunked) \<Rightarrow>
               if a \<noteq> b \<or> ec_records contiguous \<noteq> ec_records chunked \<or> ec_streams contiguous \<noteq> ec_streams chunked \<or>
                  ec_packets contiguous \<noteq> ec_packets chunked then Aborted
               else Returned 0))"

definition fuzz_chunk_main :: "(nat \<Rightarrow> bool) \<Rightarrow> outcome" where
  "fuzz_chunk_main alloc = fuzz_chunk_run_one alloc [0]"


subsection \<open>\<open>fuzz_demux_remux.c\<close>\<close>

definition fuzz_path :: string where "fuzz_path = ''fuzz_roundtrip.tide''"

text \<open>The loop that copies the packets and counts them.\<close>

function fuzz_copy_packets ::
    "(nat \<Rightarrow> bool) \<Rightarrow> lease_heap \<Rightarrow> tide_demux \<Rightarrow> tide_mux option \<Rightarrow> nat \<Rightarrow> tide_status \<times> lease_heap \<times> tide_demux \<times> tide_mux option \<times> nat" where
  "fuzz_copy_packets alloc h d mux input_packets =
     (case tide_demux_next h (Some d) (Some tide_packet_ref_init) of (status, d', packet, h1) \<Rightarrow>
        if status = TIDE_STATUS_WOULD_BLOCK then (TIDE_STATUS_OK, h1, the d', mux, input_packets)
        else if status \<noteq> TIDE_STATUS_OK then (status, snd (tide_packet_ref_reset h1 (the packet)), the d', mux, input_packets)
        else case tide_mux_write_packet alloc h1 mux packet of (status, mux, packet, h2) \<Rightarrow>
          case tide_packet_ref_reset h2 (the packet) of (_, h3) \<Rightarrow>
            if status \<noteq> TIDE_STATUS_OK then (status, h3, the d', mux, input_packets + 1)
            else fuzz_copy_packets alloc h3 (the d') mux (input_packets + 1))"
  by pat_completeness auto

termination
  by (relation "measure (\<lambda>(alloc, h, d, mux, n). dx_packet_count d - dx_cursor d)") (auto dest!: tide_demux_next_progress [OF sym])

declare fuzz_copy_packets.simps [simp del]

text \<open>The loop that counts the packets that were written.\<close>

function fuzz_count_packets :: "lease_heap \<Rightarrow> tide_demux \<Rightarrow> nat \<Rightarrow> tide_status \<times> lease_heap \<times> tide_demux \<times> nat" where
  "fuzz_count_packets h d output_packets =
     (case tide_demux_next h (Some d) (Some tide_packet_ref_init) of (status, d', packet, h1) \<Rightarrow>
        if status = TIDE_STATUS_WOULD_BLOCK then (TIDE_STATUS_OK, h1, the d', output_packets)
        else if status \<noteq> TIDE_STATUS_OK then (status, h1, the d', output_packets)
        else fuzz_count_packets (snd (tide_packet_ref_reset h1 (the packet))) (the d') (output_packets + 1))"
  by pat_completeness auto

termination
  by (relation "measure (\<lambda>(h, d, n). dx_packet_count d - dx_cursor d)") (auto dest!: tide_demux_next_progress [OF sym])

declare fuzz_count_packets.simps [simp del]

text \<open>From the creation of the multiplexer to its close.\<close>

definition fuzz_write_roundtrip ::
    "(nat \<Rightarrow> bool) \<Rightarrow> lease_heap \<Rightarrow> tide_os \<Rightarrow> tide_demux \<Rightarrow> tide_status \<times> lease_heap \<times> tide_os \<times> tide_demux \<times> nat" where
  "fuzz_write_roundtrip alloc h os d =
     (case tide_mux_create alloc os (Some None) (Some fuzz_path) None of (status, mux, os) \<Rightarrow>
      case (if status = TIDE_STATUS_OK then tide_copy_streams alloc (Some d) (the mux) [0..<tide_demux_stream_count (Some d)]
            else (status, the mux)) of (status, mux) \<Rightarrow>
      case (if status = TIDE_STATUS_OK then fuzz_copy_packets alloc h d mux 0 else (status, h, d, mux, 0)) of (status, h, d, mux, input_packets) \<Rightarrow>
      if mux = None then (status, h, os, d, input_packets)
      else case tide_mux_close alloc os mux of (close_status, os) \<Rightarrow>
        (if status = TIDE_STATUS_OK then close_status else status, h, os, d, input_packets))"

text \<open>
  The second half: the file that was written is read again and compared. The result says whether \<open>abort\<close> was called, and the
  demultiplexer \<open>roundtrip_demux\<close> that is closed at the end.
\<close>

definition fuzz_check_roundtrip ::
    "(nat \<Rightarrow> bool) \<Rightarrow> lease_heap \<Rightarrow> tide_os \<Rightarrow> tide_demux \<Rightarrow> nat \<Rightarrow> bool \<times> lease_heap \<times> tide_demux option" where
  "fuzz_check_roundtrip alloc h os d input_packets =
     (case tide_source_from_file alloc os (Some None) (Some fuzz_path) of (status, source) \<Rightarrow>
      if status \<noteq> TIDE_STATUS_OK then (False, h, None)
      else case tide_demux_open alloc h (Some None) (the source) None of (status, demux, h) \<Rightarrow>
      if status \<noteq> TIDE_STATUS_OK then (False, h, the demux)
      else if tide_demux_stream_count (the demux) \<noteq> tide_demux_stream_count (Some d) then (True, h, the demux)
      else case fuzz_count_packets h (the (the demux)) 0 of (status, h, d2, output_packets) \<Rightarrow>
        (status = TIDE_STATUS_OK \<and> output_packets \<noteq> input_packets, h, Some d2))"

definition fuzz_remux_run_one :: "(nat \<Rightarrow> bool) \<Rightarrow> lease_heap \<Rightarrow> tide_os \<Rightarrow> bytes \<Rightarrow> outcome \<times> lease_heap \<times> tide_os" where
  "fuzz_remux_run_one alloc h os data =
     (case tide_source_from_memory alloc (Some None) (Some data) (length data) of (status, source) \<Rightarrow>
      if status \<noteq> TIDE_STATUS_OK then (Returned 0, h, os)
      else case tide_demux_open alloc h (Some None) (the source) None of (status, demux, h) \<Rightarrow>
      if status \<noteq> TIDE_STATUS_OK then (Returned 0, h, os)
      else case fuzz_write_roundtrip alloc h os (the (the demux)) of (status, h, os, d, input_packets) \<Rightarrow>
      case (if status = TIDE_STATUS_OK then fuzz_check_roundtrip alloc h os d input_packets else (False, h, None)) of (failed, h, roundtrip_demux) \<Rightarrow>
      if failed then (Aborted, h, os)
      else (Returned 0, tide_demux_close (tide_demux_close h roundtrip_demux) (Some d), os\<lparr>os_files := (os_files os)(fuzz_path := None)\<rparr>))"

definition fuzz_remux_main :: "(nat \<Rightarrow> bool) \<Rightarrow> lease_heap \<Rightarrow> tide_os \<Rightarrow> outcome \<times> lease_heap \<times> tide_os" where
  "fuzz_remux_main alloc h os = fuzz_remux_run_one alloc h os [0]"


subsection \<open>The decoder harnesses never abort\<close>


lemma default_room: "length data \<le> 2 ^ 27 \<Longrightarrow> length data \<le> SIZE_MAX \<and>
    (max_aggregate_alloc tide_limits_default = 0 \<or> length data \<le> max_aggregate_alloc tide_limits_default)"
  by (simp add: SIZE_MAX_def tide_limits_default_def)

lemma quiet_count: "on_error count_callbacks = None"
  by (simp add: count_callbacks_def)

lemma calm_count: "calm count_callbacks"
  by (simp add: calm_def count_callbacks_def)

lemma agrees_quiet:
  assumes "on_error cbs = None"
  shows "agrees cbs (status', e, v, u) status s \<longleftrightarrow> status = status' \<and> di_error s = e \<and> di_valid_prefix s = v \<and> di_user s = u"
  using assms by (auto simp: agrees_def)

lemma decode_once_whole:
  assumes "\<And>m. alloc m" and "length data \<le> 2 ^ 27" and "parse_whole alloc tide_limits_default count_callbacks events data = (status, e, v, events')"
  shows "decode_once alloc data events = Some (status, events')"
proof -
  obtain s where s: "tide_decoder_init alloc (Some None) None (Some count_callbacks) events = (TIDE_STATUS_OK, Some (Some s))"
      "fed alloc tide_limits_default count_callbacks events [] s"
    by (rule fed_init [of alloc, OF assms(1), of None None "Some count_callbacks" events]) simp
  obtain st s' where f: "tide_decoder_feed alloc (Some (Some s)) (Some data) (length data) True = (st, length data, Some (Some s'))"
      "agrees count_callbacks (parse_whole alloc tide_limits_default count_callbacks events data) st s'"
    using feed_final [of alloc, OF assms(1) s(2), of data] default_room [OF assms(2)] by auto
  show ?thesis
    using f(2) by (simp add: decode_once_def s(1) f(1) assms(3) agrees_quiet [OF quiet_count] decoder_user_def tide_impl_def)
qed

lemma decode_split_whole:
  assumes "\<And>m. alloc m" and "length data \<le> 2 ^ 27" and "parse_whole alloc tide_limits_default count_callbacks events data = (status, e, v, events')"
    and "split \<le> length data"
  shows "decode_split alloc data split events = Some (status, events')"
proof -
  obtain s where s: "tide_decoder_init alloc (Some None) None (Some count_callbacks) events = (TIDE_STATUS_OK, Some (Some s))"
      "fed alloc tide_limits_default count_callbacks events [] s"
    by (rule fed_init [of alloc, OF assms(1), of None None "Some count_callbacks" events]) simp
  note room = default_room [OF assms(2)]
  have cat: "take split data @ drop split data = data" and len: "length (take split data) = split" "length (drop split data) = length data - split"
    using assms(4) by simp_all
  have r1: "length ([] @ take split data) \<le> SIZE_MAX"
      "max_aggregate_alloc tide_limits_default = 0 \<or> length ([] @ take split data) \<le> max_aggregate_alloc tide_limits_default"
    using room assms(4) by auto
  show ?thesis
  proof (cases rule: feed_chunk [of alloc, OF assms(1) calm_count s(2) r1])
    case (1 s1)
    note f1 = 1(1) [unfolded len, folded tide_decoder_feed_take [OF assms(4)]]
    obtain st s' where f: "tide_decoder_feed alloc (Some (Some s1)) (Some (drop split data)) (length data - split) True = (st, length data - split, Some (Some s'))"
        "agrees count_callbacks (parse_whole alloc tide_limits_default count_callbacks events data) st s'"
      using feed_final [of alloc, OF assms(1) 1(2), of "drop split data"] room unfolding append_Nil cat len by auto
    show ?thesis
      using f(2) by (simp add: decode_split_def s(1) f1 f(1) assms(3) agrees_quiet [OF quiet_count] decoder_user_def tide_impl_def)
  next
    case (2 st s1)
    note f1 = 2(1) [unfolded len, folded tide_decoder_feed_take [OF assms(4)]]
    have "agrees count_callbacks (parse_whole alloc tide_limits_default count_callbacks events data) st s1"
      using 2(3) [of "drop split data"] room unfolding append_Nil cat by simp
    then show ?thesis
      using 2(2) by (simp add: decode_split_def s(1) f1 assms(3) agrees_quiet [OF quiet_count] decoder_user_def tide_impl_def)
  qed
qed

text \<open>C12: the chunk boundary harness never aborts: for every input of up to 128 MiB and every place where it is cut, the contiguous
  and the chunked decode return the same status and report the same number of records, streams and packets.
\<close>

theorem fuzz_chunk_run_one_returns:
  assumes "\<And>m. alloc m" and "length data \<le> 2 ^ 27"
  shows "fuzz_chunk_run_one alloc data = Returned 0"
proof (cases "length data < 2")
  case False
  let ?zero = "\<lparr>ec_records = 0, ec_streams = 0, ec_packets = 0\<rparr>"
  obtain st e v ev where p: "parse_whole alloc tide_limits_default count_callbacks ?zero (tl data) = (st, e, v, ev)" by (metis surj_pair)
  have "unat (hd data) mod length data < length data" using False by (intro mod_less_divisor) linarith
  then have len: "length (tl data) \<le> 2 ^ 27" "unat (hd data) mod length data \<le> length (tl data)"
    using assms(2) by simp_all
  show ?thesis
    using decode_once_whole [of alloc, OF assms(1) len(1) p] decode_split_whole [of alloc, OF assms(1) len(1) p len(2)] False
    by (simp add: fuzz_chunk_run_one_def)
qed (simp add: fuzz_chunk_run_one_def)

theorem fuzz_chunk_run_one_returns_witness: "fuzz_chunk_run_one (\<lambda>_. True) (80 # skip_file) = Returned 0"
  using fuzz_chunk_run_one_returns [of "\<lambda>_. True" "80 # skip_file"] by (simp add: length_skip_file)

lemma fuzz_decoder_returns:
  assumes "\<And>m. alloc m" and "length data \<le> 2 ^ 27"
  shows "fuzz_decoder_run_one alloc data = Returned 0"
proof -
  obtain s :: "unit tide_decoder_impl" where s: "tide_decoder_init alloc (Some None) None None () = (TIDE_STATUS_OK, Some (Some s))"
      "fed alloc tide_limits_default no_callbacks () [] s"
    by (rule fed_init [of alloc, OF assms(1), of None None None "()"]) simp
  note room = default_room [OF assms(2)]
  obtain st s' where f: "tide_decoder_feed alloc (Some (Some s)) (Some data) (length data) True = (st, length data, Some (Some s'))"
      "agrees no_callbacks (parse_whole alloc tide_limits_default no_callbacks () data) st s'"
    using feed_final [of alloc, OF assms(1) s(2), of data] room by auto
  obtain st' e v u' where p: "parse_whole alloc tide_limits_default no_callbacks () data = (st', e, v, u')" by (metis surj_pair)
  have "st' = TIDE_STATUS_OK \<longrightarrow> unat v = length data" using parse_prefix_bounds [OF _ _ p] room by simp
  then have "st' = TIDE_STATUS_OK \<longrightarrow> v = of_nat (length data)" by (metis of_nat_unat ucast_id)
  then have "st = TIDE_STATUS_OK \<longrightarrow> di_valid_prefix s' = of_nat (length data)"
    using f(2) unfolding p by (auto simp: agrees_def)
  then show ?thesis by (simp add: fuzz_decoder_run_one_def s(1) f(1) tide_decoder_valid_prefix_def tide_impl_def)
qed

text \<open>C32: the decoder harness, run on any file of up to 128 MiB, never aborts: the final feed consumes all the input, and when it
  succeeds the valid prefix is the whole input.
\<close>

theorem fuzz_decoder_main_returns:
  assumes "\<And>m. alloc m" and "\<And>path content. os_files os path = Some content \<Longrightarrow> length content \<le> 2 ^ 27"
  shows "fuzz_decoder_main alloc os argv \<in> {Returned 0, Returned 1}"
proof (cases "os_files os (argv ! 1)")
  case (Some content)
  have "fuzz_decoder_run_one alloc (os_fread os content n) = Returned 0" for n
    using assms(2) [OF Some] by (intro fuzz_decoder_returns [of alloc, OF assms(1)]) (simp add: os_fread_def)
  then show ?thesis unfolding fuzz_decoder_main_def Some Let_def by (simp only: option.case outcome.case) auto
qed (simp add: fuzz_decoder_main_def)


theorem fuzz_decoder_main_returns_witness:
  "fuzz_decoder_main (\<lambda>_. True) (sample_os\<lparr>os_files := [''a'' \<mapsto> skip_file]\<rparr>) [''fuzz'', ''a''] \<in> {Returned 0, Returned 1}"
  by (rule fuzz_decoder_main_returns) (auto simp: length_skip_file split: if_splits)

subsection \<open>The remultiplexing harness never aborts\<close>

lemma fuzz_copy_packets_counts:
  assumes "demux_inv R (d, h)" and "tide_copy_packets alloc h d mux = (status, h', d', mux')"
  shows "\<exists>n'. fuzz_copy_packets alloc h d mux n = (status, h', d', mux', n') \<and> (status = TIDE_STATUS_OK \<longrightarrow> n' = n + (dx_packet_count d - dx_cursor d))"
  using assms
proof (induction d h arbitrary: mux n rule: demux_induct)
  case (finished d h)
  have "fuzz_copy_packets alloc h d mux n = (TIDE_STATUS_OK, h, d, mux, n)" "tide_copy_packets alloc h d mux = (TIDE_STATUS_OK, h, d, mux)"
    using finished(2) by (simp_all add: tide_copy_packets.simps [of alloc h d] fuzz_copy_packets.simps [of alloc h d] tide_demux_next_def)
  then show ?case using finished by simp
next
  case (step d h q d1)
  let ?h = "tide_payload_lease_release h (pr_lease q)"
  obtain st mux1 q' h1 where w: "tide_mux_write_packet alloc h mux (Some q) = (st, mux1, q', h1)" by (metis surj_pair)
  have c: "tide_copy_packets alloc h d mux = (if st \<noteq> TIDE_STATUS_OK then (st, ?h, d1, mux1) else tide_copy_packets alloc ?h d1 mux1)"
    using write_packet_release(1) [OF w] by (subst tide_copy_packets.simps) (cases "tide_packet_ref_reset h1 (the q')", simp add: step(5) w)
  have f: "fuzz_copy_packets alloc h d mux n =
      (if st \<noteq> TIDE_STATUS_OK then (st, ?h, d1, mux1, n + 1) else fuzz_copy_packets alloc ?h d1 mux1 (n + 1))"
    using write_packet_release(1) [OF w] by (subst fuzz_copy_packets.simps) (cases "tide_packet_ref_reset h1 (the q')", simp add: step(5) w)
  have "n + 1 + (dx_packet_count d1 - dx_cursor d1) = n + (dx_packet_count d - dx_cursor d)" using step(2,4) by simp
  then show ?case using step.IH [of mux1 "n + 1"] step.prems c f by (cases "st = TIDE_STATUS_OK") auto
qed

lemma fuzz_count_packets_spec:
  assumes "demux_inv R (d, h)"
  shows "\<exists>h' d'. fuzz_count_packets h d n = (TIDE_STATUS_OK, h', d', n + (dx_packet_count d - dx_cursor d)) \<and> demux_inv R (d', h')"
  using assms
proof (induction d h arbitrary: n rule: demux_induct)
  case (finished d h)
  then show ?case by (simp add: fuzz_count_packets.simps [of h d] tide_demux_next_def)
next
  case (step d h q d1)
  have e: "n + (dx_packet_count d - dx_cursor d) = n + 1 + (dx_packet_count d1 - dx_cursor d1)" using step(2,4) by simp
  show ?case unfolding e using step.IH [of "n + 1"] by (simp add: fuzz_count_packets.simps [of h d] step(5) tide_packet_ref_reset_def)
qed


lemma fuzz_write_roundtrip_spec:
  assumes inv: "demux_inv R (d, h)" "dx_cursor d = 0" "demux_valid keys d" and w: "fuzz_write_roundtrip alloc h os d = (status, h', os', d', n)"
  shows "demux_inv R (d', h')" and "status = TIDE_STATUS_OK \<Longrightarrow> n = dx_packet_count d \<and> dx_streams d' = dx_streams d \<and>
      os_files os' fuzz_path = Some (tide_file_bytes cli_time_base tide_mux_uuid True (demux_items d)) \<and>
      list_all (item_single tide_limits_default) (demux_items d)"
proof -
  obtain st mux os1 where c: "tide_mux_create alloc os (Some None) (Some fuzz_path) None = (st, mux, os1)" by (metis surj_pair)
  have "demux_inv R (d', h') \<and> (status = TIDE_STATUS_OK \<longrightarrow> n = dx_packet_count d \<and> dx_streams d' = dx_streams d \<and>
      os_files os' fuzz_path = Some (tide_file_bytes cli_time_base tide_mux_uuid True (demux_items d)) \<and>
      list_all (item_single tide_limits_default) (demux_items d))"
  proof (cases "st = TIDE_STATUS_OK")
    case False
    then show ?thesis using w c inv(1) by (auto simp: fuzz_write_roundtrip_def split: if_splits prod.splits)
  next
    case True
    from c [unfolded True] obtain m where m: "mux = Some (Some m)" "mux_holds m []" "mx_file m = Some fuzz_path" "os_files os1 fuzz_path = Some []"
        "mx_limits m = tide_limits_default" "mx_movie_time_base m = cli_time_base" "mx_write_footer m"
      by (rule tide_mux_create_holds) auto
    obtain st1 mux1 where s: "tide_copy_streams alloc (Some d) (Some m) [0..<tide_demux_stream_count (Some d)] = (st1, mux1)" by fastforce
    show ?thesis
    proof (cases "st1 = TIDE_STATUS_OK")
      case False
      then show ?thesis using w c True m(1) s inv(1) by (auto simp: fuzz_write_roundtrip_def split: if_splits prod.splits)
    next
      case ok1: True
      obtain st2 h2 d2 mux2 where p: "tide_copy_packets alloc h d mux1 = (st2, h2, d2, mux2)" by (metis surj_pair)
      obtain n' where f: "fuzz_copy_packets alloc h d mux1 0 = (st2, h2, d2, mux2, n')" "st2 = TIDE_STATUS_OK \<longrightarrow> n' = dx_packet_count d"
        using fuzz_copy_packets_counts [OF inv(1) p, of 0] inv(2) by auto
      have keep: "mux2 \<noteq> None" by (rule copy_keeps_mux [OF inv(1) s p])
      obtain st3 os3 where cl: "tide_mux_close alloc os1 mux2 = (st3, os3)" by fastforce
      have res: "status = (if st2 = TIDE_STATUS_OK then st3 else st2)" "h' = h2" "os' = os3" "d' = d2" "n = n'"
        using w c True m(1) s ok1 f(1) keep cl by (auto simp: fuzz_write_roundtrip_def)
      show ?thesis
        using tide_copy_packets_inv [OF inv(1) p] tide_copy_packets_streams [OF inv(1) p] f(2) res
          copied_file_written [OF inv m(2-4) s [unfolded ok1]] p cl m(5-7) by (auto split: if_splits)
    qed
  qed
  then show "demux_inv R (d', h')" and "status = TIDE_STATUS_OK \<Longrightarrow> n = dx_packet_count d \<and> dx_streams d' = dx_streams d \<and>
      os_files os' fuzz_path = Some (tide_file_bytes cli_time_base tide_mux_uuid True (demux_items d)) \<and>
      list_all (item_single tide_limits_default) (demux_items d)" by blast+
qed


lemma fuzz_check_roundtrip_spec:
  assumes alloc: "\<And>m. alloc m" and d: "demux_valid keys d" "dx_stream_count d \<le> unat (max_tracks tide_limits_default)"
      "list_all (item_single tide_limits_default) (demux_items d)" "dx_packet_count d \<le> dx_packet_capacity d"
    and os: "os_files os fuzz_path = Some (tide_file_bytes cli_time_base tide_mux_uuid True (demux_items d))"
    and h: "leases_owned h R" and same: "dx_streams d' = dx_streams d"
    and c: "fuzz_check_roundtrip alloc h os d' (dx_packet_count d) = (failed, h', demux)"
  shows "\<not> failed" and "leases_owned (tide_demux_close h' demux) R"
proof -
  obtain st source where s: "tide_source_from_file alloc os (Some None) (Some fuzz_path) = (st, source)" by fastforce
  have "\<not> failed \<and> leases_owned (tide_demux_close h' demux) R"
  proof (cases "st = TIDE_STATUS_OK")
    case False
    then show ?thesis using c s h by (auto simp: fuzz_check_roundtrip_def)
  next
    case True
    obtain src where src: "source = Some (Some src)" "source_ok src" "src_size src \<le> SIZE_MAX"
        "source_bytes src = tide_file_bytes cli_time_base tide_mux_uuid True (demux_items d)"
      by (rule cli_source [OF s [unfolded True]]) (use os in simp)
    obtain d2 h2 where o: "tide_demux_open alloc h (Some None) (Some src) None = (TIDE_STATUS_OK, Some (Some d2), h2)"
        "demux_holds d2 (dx_streams d) (map pr_info (dx_used d))" "demux_inv R (d2, h2)" "dx_cursor d2 = 0"
      using cli_file_opens [of alloc, OF alloc d(1-3) src(2,4,3) h, of None] by (auto simp: demux_limits_def demux_track_def)
    have n: "dx_stream_count d2 = dx_stream_count d" "dx_packet_count d2 = dx_packet_count d"
      using o(2,3) d(4) unfolding demux_holds_def demux_inv_def by (auto dest!: map_eq_imp_length_eq)
    obtain h3 d3 where f: "fuzz_count_packets h2 d2 0 = (TIDE_STATUS_OK, h3, d3, dx_packet_count d)" "demux_inv R (d3, h3)"
      using fuzz_count_packets_spec [OF o(3), of 0] o(4) n(2) by auto
    show ?thesis
      using c s True src(1) o(1) f(1) n same tide_demux_close_owned [OF f(2)]
      by (auto simp: fuzz_check_roundtrip_def tide_demux_stream_count_def)
  qed
  then show "\<not> failed" and "leases_owned (tide_demux_close h' demux) R" by blast+
qed

text \<open>C11: the remultiplexing harness never aborts: whatever bytes it is given, a file it could copy and read back has as many streams
  and packets as the input, and no payload lease is leaked on any of its paths.
\<close>

theorem fuzz_remux_run_one_returns:
  assumes "\<And>m. alloc m" and "length data < 2 ^ 61" and "leases_owned h R"
  shows "\<exists>h' os'. fuzz_remux_run_one alloc h os data = (Returned 0, h', os') \<and> leases_owned h' R"
proof -
  obtain source where s: "tide_source_from_memory alloc (Some None) (Some data) (length data) = (TIDE_STATUS_OK, source)"
    using assms(1) by (auto simp: tide_source_from_memory_def)
  obtain src where src: "source = Some (Some src)" "source_ok src" "src_size src = length data"
    by (rule tide_source_from_memory_OK [OF s]) auto
  have size: "src_size src < 2 ^ 61" "src_size src \<le> SIZE_MAX" using src(3) assms(2) by (simp_all add: SIZE_MAX_def)
  obtain st demux h1 where o: "tide_demux_open alloc h (Some None) (Some src) None = (st, demux, h1)" by (metis surj_pair)
  note oc = tide_demux_open_outcome [OF src(2) size(2) assms(3) o]
  show ?thesis
  proof (cases "st = TIDE_STATUS_OK")
    case False
    then show ?thesis using s src(1) o oc by (auto simp: fuzz_remux_run_one_def demux_keeps_def)
  next
    case True
    then obtain d where d: "demux = Some (Some d)" using oc by (auto simp: demux_keeps_def)
    note i = tide_demux_open_inv [OF src(2) size(2) assms(3) o [unfolded d]]
    obtain keys where v: "demux_valid keys d" "dx_stream_count d \<le> unat (max_tracks tide_limits_default)"
      using demux_open_valid [of alloc, OF assms(1) src(2) size(1) assms(3) o [unfolded d]] by (auto simp: demux_limits_def)
    obtain st1 h2 os1 d1 n where w: "fuzz_write_roundtrip alloc h1 os d = (st1, h2, os1, d1, n)" by (metis surj_pair)
    note wr = fuzz_write_roundtrip_spec [OF i(1,2) v(1) w]
    have own: "leases_owned h2 (R + demux_refs d1)" using wr(1) by (simp add: demux_inv_def)
    obtain failed h3 rd where c: "(if st1 = TIDE_STATUS_OK then fuzz_check_roundtrip alloc h2 os1 d1 n else (False, h2, None)) = (failed, h3, rd)"
      by (metis surj_pair)
    have "\<not> failed \<and> leases_owned (tide_demux_close h3 rd) (R + demux_refs d1)"
    proof (cases "st1 = TIDE_STATUS_OK")
      case ok: True
      have cap: "dx_packet_count d \<le> dx_packet_capacity d" using i(1) by (simp add: demux_inv_def)
      show ?thesis
        using fuzz_check_roundtrip_spec [of alloc, OF assms(1) v _ cap _ own, of os1 d1 failed h3 rd] wr(2) [OF ok] c ok by auto
    qed (use c own in auto)
    then show ?thesis
      using s src(1) o d True w c by (auto simp: fuzz_remux_run_one_def intro: tide_demux_close_leases)
  qed
qed

theorem fuzz_remux_run_one_returns_witness:
  "\<exists>h' os'. fuzz_remux_run_one (\<lambda>_. True) lease_heap_empty (ps_os sample_process) sample_file = (Returned 0, h', os') \<and> leases_owned h' {#}"
  using fuzz_remux_run_one_returns [of "\<lambda>_. True" sample_file lease_heap_empty "{#}" "ps_os sample_process"] sample_items(6) leases_owned_empty by simp

end
