(* ===== verification/Tide_Tools.thy ===== *)
theory Tide_Tools
  imports Tide_Cli
begin

text \<open>
  The small programs around the library: the tools \<open>tools/tide_dump.c\<close> and \<open>tools/tide_index_dump.c\<close>, and the examples
  \<open>examples/write_capture.c\<close> and \<open>examples/stream_demux.c\<close>, as transformers of a process (\<open>tide_process\<close>).
\<close>

subsection \<open>The tools\<close>

definition tide_dump_main :: "(nat \<Rightarrow> bool) \<Rightarrow> tide_process \<Rightarrow> string list \<Rightarrow> int \<times> tide_process" where
  "tide_dump_main alloc ps argv =
     (if length argv \<noteq> 2 then (2, ps)
      else case tide_source_from_file alloc (ps_os ps) (Some None) (Some (argv ! 1)) of (status, source) \<Rightarrow>
      case (if status = TIDE_STATUS_OK then tide_demux_open alloc (ps_heap ps) (Some None) (the source) None
            else (status, Some None, ps_heap ps)) of (status, demux, h) \<Rightarrow>
      let ps = (if status = TIDE_STATUS_OK then fprintf_stdout ps (''streams='' @ decimal (tide_demux_stream_count (the demux)) @ newline) else ps)
      in (if status = TIDE_STATUS_OK then 0 else 1, ps\<lparr>ps_heap := tide_demux_close h (the demux)\<rparr>))"

definition tide_index_dump_main :: "(nat \<Rightarrow> bool) \<Rightarrow> tide_process \<Rightarrow> string list \<Rightarrow> int \<times> tide_process" where
  "tide_index_dump_main alloc ps argv =
     (if length argv \<noteq> 2 then (2, ps)
      else case tide_source_from_file alloc (ps_os ps) (Some None) (Some (argv ! 1)) of (status, source) \<Rightarrow>
      case (if status = TIDE_STATUS_OK then tide_demux_open alloc (ps_heap ps) (Some None) (the source) None
            else (status, Some None, ps_heap ps)) of (status, demux, h) \<Rightarrow>
      let ps = fprintf_stdout ps (''index_status='' @ tide_status_string status @ '' streams='' @ decimal (tide_demux_stream_count (the demux)) @ newline)
      in (if status = TIDE_STATUS_OK then 0 else 1, ps\<lparr>ps_heap := tide_demux_close h (the demux)\<rparr>))"

subsection \<open>The examples\<close>

definition packet_line :: "tide_packet_info \<Rightarrow> string" where
  "packet_line p = ''track='' @ decimal (unat (pk_track_id p)) @ '' seq='' @ decimal (unat (pk_packet_seq p)) @
     '' payload='' @ decimal (pv_size (pk_payload p)) @ newline"

text \<open>The loop of \<open>stream_demux.c\<close>; the packet is reset before it is filled again.\<close>

function stream_demux_loop :: "tide_process \<Rightarrow> tide_demux \<Rightarrow> tide_packet_ref \<Rightarrow> tide_process \<times> tide_demux" where
  "stream_demux_loop ps d packet =
     (case tide_demux_next (ps_heap ps) (Some d) (Some packet) of (status, d', packet, h) \<Rightarrow>
        if status \<noteq> TIDE_STATUS_OK then (ps\<lparr>ps_heap := h\<rparr>, the d')
        else let ps = fprintf_stdout ps (packet_line (pr_info (the packet)));
                 (packet, h) = tide_packet_ref_reset h (the packet)
             in stream_demux_loop (ps\<lparr>ps_heap := h\<rparr>) (the d') packet)"
  by pat_completeness auto

termination
  by (relation "measure (\<lambda>(ps, d, packet). dx_packet_count d - dx_cursor d)") (auto dest!: tide_demux_next_progress [OF sym])

declare stream_demux_loop.simps [simp del]

definition stream_demux_main :: "(nat \<Rightarrow> bool) \<Rightarrow> tide_process \<Rightarrow> string list \<Rightarrow> int \<times> tide_process" where
  "stream_demux_main alloc ps argv =
     (if length argv \<noteq> 2 then (2, ps)
      else case tide_source_from_file alloc (ps_os ps) (Some None) (Some (argv ! 1)) of (status, source) \<Rightarrow>
      case (if status = TIDE_STATUS_OK then tide_demux_open alloc (ps_heap ps) (Some None) (the source) None
            else (status, Some None, ps_heap ps)) of (status, demux, h) \<Rightarrow>
      if status \<noteq> TIDE_STATUS_OK then (1, fprintf_stderr (ps\<lparr>ps_heap := h\<rparr>) (tide_status_string status @ newline))
      else case stream_demux_loop (ps\<lparr>ps_heap := h\<rparr>) (the (the demux)) tide_packet_ref_init of (ps, d) \<Rightarrow>
        (0, ps\<lparr>ps_heap := tide_demux_close (ps_heap ps) (Some d)\<rparr>))"

definition capture_stream :: tide_stream_info where
  "capture_stream = \<lparr>si_track_id = 1, si_generation = 1, si_media_kind = 1, si_codec_tag = 0,
     si_time_base = \<lparr>numerator = 1, denominator = 48000\<rparr>, si_config = None, si_config_size = 0\<rparr>"

definition capture_packet :: "lease_heap \<Rightarrow> nat option \<Rightarrow> tide_packet_ref" where
  "capture_packet h lease = \<lparr>pr_info = zero_packet_info\<lparr>pk_track_id := 1, pk_generation := 1, pk_packet_seq := 1, pk_duration := 1024,
     pk_payload := \<lparr>pv_data = tide_payload_lease_data h lease, pv_size = tide_payload_lease_size h lease, pv_lease = lease\<rparr>\<rparr>, pr_lease = lease\<rparr>"

definition write_capture_main :: "(nat \<Rightarrow> bool) \<Rightarrow> tide_process \<Rightarrow> int \<times> tide_process" where
  "write_capture_main alloc ps =
     (case tide_mux_create alloc (ps_os ps) (Some None) (Some ''example.tide'') None of (status, mux, os) \<Rightarrow>
      if status \<noteq> TIDE_STATUS_OK then (1, ps\<lparr>ps_os := os\<rparr>)
      else case tide_mux_add_stream alloc (the mux) (Some capture_stream) of (status, mux) \<Rightarrow>
      if status \<noteq> TIDE_STATUS_OK then (1, ps\<lparr>ps_os := tide_mux_abort os mux\<rparr>)
      else case tide_payload_lease_create_copy alloc (ps_heap ps) (Some [1, 2, 3, 4]) 4 of (lease, h) \<Rightarrow>
      case tide_mux_write_packet alloc h mux (Some (capture_packet h lease)) of (status, mux, packet, h) \<Rightarrow>
      if status \<noteq> TIDE_STATUS_OK then (1, ps\<lparr>ps_os := tide_mux_abort os mux, ps_heap := snd (tide_packet_ref_reset h (the packet))\<rparr>)
      else case tide_mux_close alloc os mux of (status, os) \<Rightarrow>
        (if status = TIDE_STATUS_OK then 0 else 1, ps\<lparr>ps_os := os, ps_heap := h\<rparr>))"

subsection \<open>Lease accounting\<close>

text \<open>What every one of the reading programs starts with.\<close>

lemma opened:
  assumes "leases_owned h R" and "tide_source_from_file alloc os (Some None) (Some path) = (st, source)"
    and "(if st = TIDE_STATUS_OK then tide_demux_open alloc h (Some None) (the source) None else (st, Some None, h)) = (status, demux, h')"
  obtains (ok) d where "status = TIDE_STATUS_OK" and "demux = Some (Some d)" and "demux_inv R (d, h')" and "dx_cursor d = 0"
  | (fail) "status \<noteq> TIDE_STATUS_OK" and "demux = Some None" and "leases_owned h' R"
proof (cases "st = TIDE_STATUS_OK")
  case False
  then show thesis using assms by (intro fail) auto
next
  case True
  obtain src where src: "source = Some (Some src)" "source_ok src" "src_size src \<le> SIZE_MAX" by (rule cli_source [OF assms(2) [unfolded True]])
  have o: "tide_demux_open alloc h (Some None) (Some src) None = (status, demux, h')" using assms(3) True src(1) by simp
  note oc = tide_demux_open_outcome [OF src(2,3) assms(1) o]
  show thesis
  proof (cases "status = TIDE_STATUS_OK")
    case True
    then obtain d where d: "demux = Some (Some d)" using oc by (auto simp: demux_keeps_def)
    show thesis by (rule ok [OF True d tide_demux_open_inv(1,2) [OF src(2,3) assms(1) o [unfolded d]]])
  qed (use oc fail in \<open>auto simp: demux_keeps_def\<close>)
qed

lemma stream_demux_loop_spec:
  assumes "demux_inv R (d, ps_heap ps)"
  shows "\<exists>ps' d'. stream_demux_loop ps d tide_packet_ref_init = (ps', d') \<and> demux_inv R (d', ps_heap ps') \<and> ps_os ps' = ps_os ps \<and>
    ps_stderr ps' = ps_stderr ps \<and> ps_stdout ps' = ps_stdout ps @ concat (map (packet_line \<circ> pr_info) (drop (dx_cursor d) (dx_used d)))"
  using assms
proof (induction d "ps_heap ps" arbitrary: ps rule: demux_induct)
  case (finished d)
  then have "stream_demux_loop ps d tide_packet_ref_init = (ps, d)" by (simp add: stream_demux_loop.simps [of ps d] tide_demux_next_def)
  then show ?case using finished by simp
next
  case (step d q d1)
  let ?ps = "(fprintf_stdout ps (packet_line (pr_info q)))\<lparr>ps_heap := tide_payload_lease_release (ps_heap ps) (pr_lease q)\<rparr>"
  have "stream_demux_loop ps d tide_packet_ref_init = stream_demux_loop ?ps d1 tide_packet_ref_init"
    by (simp add: stream_demux_loop.simps [of ps d] step(5) tide_packet_ref_reset_def Let_def)
  then show ?case using step(8) [of ?ps] unfolding step(7) by (simp add: fprintf_stdout_def)
qed

lemma write_packet_OK_release:
  "tide_mux_write_packet alloc h mux (Some q) = (TIDE_STATUS_OK, mux', q', h') \<Longrightarrow> h' = tide_payload_lease_release h (pr_lease q)"
  by (auto simp: tide_mux_write_packet_def tide_packet_ref_reset_def split: option.splits if_splits prod.splits)

lemma write_capture_leases:
  assumes own: "leases_owned (ps_heap ps) R" and w: "write_capture_main alloc ps = (code, ps')"
  shows "leases_owned (ps_heap ps') R \<and> code \<in> {0, 1}"
proof -
  obtain lease h where l: "tide_payload_lease_create_copy alloc (ps_heap ps) (Some [1, 2, 3, 4]) 4 = (lease, h)" by fastforce
  have "leases_owned h (R + lease_ref lease)" by (rule tide_payload_lease_create_copy_owned [OF own l])
  then have rel: "leases_owned (tide_payload_lease_release h lease) R" by (rule leases.release_owned)
  have lease: "pr_lease (capture_packet h lease) = lease" by (simp add: capture_packet_def)
  have after: "leases_owned (snd (tide_packet_ref_reset h1 (the q))) R" "st = TIDE_STATUS_OK \<Longrightarrow> leases_owned h1 R"
    if "tide_mux_write_packet alloc h mux (Some (capture_packet h lease)) = (st, mux1, q, h1)" for mux st mux1 q h1
    using rel lease write_packet_release(1) [OF that] write_packet_OK_release [of alloc h mux "capture_packet h lease" mux1 q h1] that by auto
  show ?thesis
    using w own unfolding write_capture_main_def l by (auto split: prod.splits if_splits dest: after)
qed

text \<open>The programs that read a file.\<close>

lemma reader_leases:
  assumes own: "leases_owned (ps_heap ps) R"
  shows "tide_dump_main alloc ps argv = (code, ps') \<Longrightarrow> leases_owned (ps_heap ps') R \<and> code \<in> {0, 1, 2} \<and> ps_os ps' = ps_os ps"
    and "tide_index_dump_main alloc ps argv = (code, ps') \<Longrightarrow> leases_owned (ps_heap ps') R \<and> code \<in> {0, 1, 2} \<and> ps_os ps' = ps_os ps"
    and "stream_demux_main alloc ps argv = (code, ps') \<Longrightarrow> leases_owned (ps_heap ps') R \<and> code \<in> {0, 1, 2} \<and> ps_os ps' = ps_os ps"
proof -
  obtain st source where s: "tide_source_from_file alloc (ps_os ps) (Some None) (Some (argv ! 1)) = (st, source)" by fastforce
  obtain status demux h where o: "(if st = TIDE_STATUS_OK then tide_demux_open alloc (ps_heap ps) (Some None) (the source) None
      else (st, Some None, ps_heap ps)) = (status, demux, h)" by (metis surj_pair)
  have closed: "leases_owned (tide_demux_close h (the demux)) R"
    by (cases rule: opened [OF own s o]) (auto dest: tide_demux_close_owned)
  show "tide_dump_main alloc ps argv = (code, ps') \<Longrightarrow> leases_owned (ps_heap ps') R \<and> code \<in> {0, 1, 2} \<and> ps_os ps' = ps_os ps"
    using own closed unfolding tide_dump_main_def s prod.case o by (auto simp: Let_def split: if_splits)
  show "tide_index_dump_main alloc ps argv = (code, ps') \<Longrightarrow> leases_owned (ps_heap ps') R \<and> code \<in> {0, 1, 2} \<and> ps_os ps' = ps_os ps"
    using own closed unfolding tide_index_dump_main_def s prod.case o by (auto simp: Let_def split: if_splits)
  assume m: "stream_demux_main alloc ps argv = (code, ps')"
  show "leases_owned (ps_heap ps') R \<and> code \<in> {0, 1, 2} \<and> ps_os ps' = ps_os ps"
  proof (cases rule: opened [OF own s o])
    case (1 d)
    obtain ps1 d1 where "stream_demux_loop (ps\<lparr>ps_heap := h\<rparr>) d tide_packet_ref_init = (ps1, d1)" "demux_inv R (d1, ps_heap ps1)" "ps_os ps1 = ps_os ps"
      using stream_demux_loop_spec [of R d "ps\<lparr>ps_heap := h\<rparr>"] 1(3) by auto
    then show ?thesis using m own 1(1,2) tide_demux_close_owned unfolding stream_demux_main_def s prod.case o by (auto split: if_splits)
  next
    case 2
    then show ?thesis using m own unfolding stream_demux_main_def s prod.case o by (auto split: if_splits)
  qed
qed


subsection \<open>The examples together\<close>

text \<open>With memory, room and a working disk a multiplexing session succeeds.\<close>

lemma mux_session_succeeds:
  assumes alloc: "\<And>k. alloc k" and wr: "os_writable os path" and os: "os_works os (max_aggregate_alloc tide_limits_default)"
    and wf: "list_all (item_wf \<circ> call_item) cs" and single: "list_all (single_fits tide_limits_default) cs"
    and total: "calls_size cs + 217 \<le> max_aggregate_alloc tide_limits_default"
  obtains m os1 m' h' os2 where "tide_mux_create alloc os (Some None) (Some path) None = (TIDE_STATUS_OK, Some (Some m), os1)"
    and "mux_calls alloc h m cs = (TIDE_STATUS_OK, m', h')" and "tide_mux_close alloc os1 (Some m') = (TIDE_STATUS_OK, os2)"
    and "os_files os2 path = Some (tide_file_bytes cli_time_base tide_mux_uuid True (map call_item cs))"
    and "os_works os2 (max_aggregate_alloc tide_limits_default)"
proof -
  obtain m os1 where m: "tide_mux_create alloc os (Some None) (Some path) None = (TIDE_STATUS_OK, Some (Some m), os1)" "mux_holds m []"
      "mx_limits m = tide_limits_default" "buf_limit (mx_buffer m) = max_aggregate_alloc tide_limits_default"
      "os1 = os\<lparr>os_files := (os_files os)(path \<mapsto> [])\<rparr>"
    by (rule mux_created [of alloc, OF alloc wr])
  have hl: "buf_size (mx_buffer m) = 72" using m(2) by (simp add: mux_holds_def tide_file_body_def TIDE_HEADER_SIZE_def)
  have "tide_buffer_fits (mx_buffer m) (calls_size cs + 145)" using total hl m(4) by (simp add: tide_buffer_fits_def SIZE_MAX_def tide_limits_default_def)
  then obtain m' h' where cs: "mux_calls alloc h m cs = (TIDE_STATUS_OK, m', h')" "tide_buffer_fits (mx_buffer m') 145"
    using mux_calls_succeed [of alloc, OF alloc m(2) wf, of 145 h] single m(3) by auto
  note k = mux_calls_hold [OF m(2) wf cs(1)]
  have tb: "mx_movie_time_base m = cli_time_base" "mx_write_footer m" by (rule tide_mux_create_holds [OF m(1)]; simp)+
  have "length (tide_file_bytes tb tide_mux_uuid footer (map call_item cs)) \<le> max_aggregate_alloc tide_limits_default" for tb footer
    using length_tide_file_bytes [of tide_mux_uuid tb footer "map call_item cs"] total by (simp add: items_size_def calls_size_def comp_def)
  note len = this
  have os1: "os_works os1 (max_aggregate_alloc tide_limits_default)" using os m(5) by (simp add: os_works_def)
  have room: "mux_room m' 97" using cs(2) m(3) k(2) by (simp add: mux_room_def same_mux_def tide_limits_default_def)
  have holds: "mux_holds m' (map call_item cs)" using k(1) by simp
  have "fst (tide_mux_close alloc os1 (Some m')) = TIDE_STATUS_OK"
    by (rule tide_mux_close_succeeds [of alloc, OF alloc holds room os_works_less [OF os1 len]])
  then obtain os2 where cl: "tide_mux_close alloc os1 (Some m') = (TIDE_STATUS_OK, os2)" by (cases "tide_mux_close alloc os1 (Some m')") simp
  obtain f where "os2 = os1\<lparr>os_files := f\<rparr>" using mux_touches_files(2) [OF cl] by blast
  then have "os_works os2 (max_aggregate_alloc tide_limits_default)" using os1 by (simp add: os_works_def)
  moreover have "os_files os2 path = Some (tide_file_bytes cli_time_base tide_mux_uuid True (map call_item cs))"
    using mux_session_writes [OF m(1) wf cs(1) cl] tb by simp
  ultimately show thesis by (rule that [OF m(1) cs(1) cl, rotated])
qed

lemma packet_line_read_back [simp]: "packet_line (packet_read_back p) = packet_line p"
  by (simp add: packet_line_def packet_read_back_def)

lemma decimal_digits: "decimal 1 = ''1''" "decimal 4 = ''4''"
  by code_simp+

lemma stream_demux_written:
  assumes alloc: "\<And>m. alloc m" and own: "leases_owned (ps_heap ps) R" and os: "os_works (ps_os ps) (length c)"
    and disk: "os_files (ps_os ps) path = Some c" "c = tide_file_bytes cli_time_base tide_mux_uuid footer its" and its: "items_ok tide_limits_default [] its"
  obtains ps' where "stream_demux_main alloc ps [prog, path] = (0, ps')"
    and "ps_stdout ps' = ps_stdout ps @ concat (map packet_line (item_packets its))" and "ps_stderr ps' = ps_stderr ps"
    and "leases_owned (ps_heap ps') R"
proof -
  obtain src where src: "tide_source_from_file alloc (ps_os ps) (Some None) (Some path) = (TIDE_STATUS_OK, Some (Some src))"
    using tide_source_from_file_works [of alloc, OF alloc os disk(1)] by blast
  obtain src' where src': "Some (Some src) = Some (Some src')" "source_ok src'" "src_size src' \<le> SIZE_MAX" "source_bytes src' = c"
    by (rule cli_source [OF src]) (use disk(1) in simp)
  have lims: "64 * 1024 * 1024 \<le> max_record_size (demux_limits None)" "payload_fits (demux_limits None) 49" "demux_limits None = tide_limits_default"
    by (simp_all add: demux_limits_def tide_limits_default_def payload_fits_def)
  obtain d h where o: "tide_demux_open alloc (ps_heap ps) (Some None) (Some src) None = (TIDE_STATUS_OK, Some (Some d), h)" "demux_inv R (d, h)"
      "demux_holds d (item_streams its) (item_packets its)" "dx_cursor d = 0"
    using demux_written_file [of alloc cli_time_base tide_mux_uuid None its src footer "ps_heap ps" R None] alloc its lims src' disk(2) own
    by (auto simp: demux_track_def tide_rational_is_valid_def tide_gcd_u64.simps)
  obtain ps1 d1 where l: "stream_demux_loop (ps\<lparr>ps_heap := h\<rparr>) d tide_packet_ref_init = (ps1, d1)" "demux_inv R (d1, ps_heap ps1)"
      "ps_stderr ps1 = ps_stderr ps" "ps_stdout ps1 = ps_stdout ps @ concat (map (packet_line \<circ> pr_info) (dx_used d))"
    using stream_demux_loop_spec [of R d "ps\<lparr>ps_heap := h\<rparr>"] o(2,4) by auto
  have "map (packet_line \<circ> pr_info) (dx_used d) = map packet_line (map (packet_read_back \<circ> pr_info) (dx_used d))" by simp
  also have "\<dots> = map packet_line (item_packets its)" using o(3) by (simp add: demux_holds_def)
  finally show thesis
    using l tide_demux_close_owned [OF l(2)] by (intro that [of "ps1\<lparr>ps_heap := tide_demux_close (ps_heap ps1) (Some d1)\<rparr>"])
      (simp_all add: stream_demux_main_def src o(1))
qed

text \<open>C17: the two example programs work together: with memory and a working disk, \<open>write_capture\<close> exits with 0, and
  \<open>stream_demux\<close>, run on the file it wrote, exits with 0 and prints the one packet that was captured; no lease is left behind.
\<close>

theorem examples_roundtrip:
  assumes "\<And>m. alloc m" and "leases_owned (ps_heap ps) R" and "os_writable (ps_os ps) ''example.tide''"
    and "os_works (ps_os ps) (max_aggregate_alloc tide_limits_default)"
  shows "\<exists>ps1 ps2. write_capture_main alloc ps = (0, ps1) \<and> stream_demux_main alloc ps1 [prog, ''example.tide''] = (0, ps2) \<and>
    ps_stdout ps2 = ps_stdout ps @ ''track=1 seq=1 payload=4'' @ newline \<and> ps_stderr ps2 = ps_stderr ps \<and> leases_owned (ps_heap ps2) R"
proof -
  obtain lease h where l: "tide_payload_lease_create_copy alloc (ps_heap ps) (Some [1, 2, 3, 4]) 4 = (lease, h)" by fastforce
  let ?q = "capture_packet h lease"
  have q: "pk_payload (pr_info ?q) = \<lparr>pv_data = Some [1, 2, 3, 4], pv_size = 4, pv_lease = lease\<rparr>"
    using l assms(1) by (auto simp: capture_packet_def tide_payload_lease_create_copy_def tide_payload_lease_data_def tide_payload_lease_size_def)
  let ?cs = "[Add_Stream capture_stream, Write_Packet ?q]"
  have len: "length (stream_payload_bytes capture_stream) \<le> 64" "length (packet_payload_bytes (pr_info ?q)) \<le> 64"
    by (simp_all add: stream_payload_bytes_def packet_payload_bytes_def capture_stream_def q view_bytes_def tide_uleb128_bytes.simps)
  have ok: "items_ok tide_limits_default [] (map call_item ?cs)"
    using len q by (simp add: capture_stream_def tide_rational_is_valid_def tide_gcd_u64.simps view_ok_def payload_fits_def tide_limits_default_def)
      (simp add: capture_packet_def)
  have wf: "list_all (item_wf \<circ> call_item) ?cs" using items_ok_wf [OF ok] by simp
  have "list_all (single_fits tide_limits_default) ?cs" "calls_size ?cs + 217 \<le> max_aggregate_alloc tide_limits_default"
    using len by (simp_all add: single_fits_def calls_size_def tide_limits_default_def)
  then obtain m os1 m' h' os2 where s: "tide_mux_create alloc (ps_os ps) (Some None) (Some ''example.tide'') None = (TIDE_STATUS_OK, Some (Some m), os1)"
      "mux_calls alloc h m ?cs = (TIDE_STATUS_OK, m', h')" "tide_mux_close alloc os1 (Some m') = (TIDE_STATUS_OK, os2)"
      "os_files os2 ''example.tide'' = Some (tide_file_bytes cli_time_base tide_mux_uuid True (map call_item ?cs))"
      "os_works os2 (max_aggregate_alloc tide_limits_default)"
    by (rule mux_session_succeeds [of alloc, OF assms(1,3,4) wf])
  obtain mux1 where a: "tide_mux_add_stream alloc (Some m) (Some capture_stream) = (TIDE_STATUS_OK, mux1)"
      "mux_do alloc h (the mux1) (Write_Packet ?q) = (TIDE_STATUS_OK, m', h')"
    using s(2) by (auto split: prod.splits if_splits)
  obtain m1 where m1: "mux1 = Some m1" using a(1) by (auto simp: tide_mux_add_stream_def apsnd_def map_prod_def split_beta split: if_splits)
  obtain mux2 q' where w: "tide_mux_write_packet alloc h (Some m1) (Some ?q) = (TIDE_STATUS_OK, mux2, q', h')" "the mux2 = m'"
    using a(2) m1 by (auto split: prod.splits)
  have mux2: "mux2 = Some m'" using write_packet_release(2) [OF w(1)] w(2) by auto
  let ?ps1 = "ps\<lparr>ps_os := os2, ps_heap := h'\<rparr>"
  have c: "write_capture_main alloc ps = (0, ?ps1)"
    by (simp add: write_capture_main_def s(1) a(1) m1 l w(1) mux2 s(3))
  have own: "leases_owned (ps_heap ?ps1) R" using write_capture_leases [OF assms(2) c] by simp
  have disk: "os_works (ps_os ?ps1) (max_aggregate_alloc tide_limits_default)"
      "os_files (ps_os ?ps1) ''example.tide'' = Some (tide_file_bytes cli_time_base tide_mux_uuid True (map call_item ?cs))"
    using s(4,5) by simp_all
  have small: "length (tide_file_bytes cli_time_base tide_mux_uuid True (map call_item ?cs)) \<le> max_aggregate_alloc tide_limits_default"
    using length_tide_file_bytes [of tide_mux_uuid cli_time_base True "map call_item ?cs"] len by (simp add: items_size_def tide_limits_default_def)
  obtain ps2 where "stream_demux_main alloc ?ps1 [prog, ''example.tide''] = (0, ps2)"
      "ps_stdout ps2 = ps_stdout ps @ packet_line (pr_info ?q)" "ps_stderr ps2 = ps_stderr ps" "leases_owned (ps_heap ps2) R"
    by (rule stream_demux_written [of alloc, OF assms(1) own os_works_less [OF disk(1) small] disk(2) refl ok, of prog]) auto
  moreover have "packet_line (pr_info ?q) = ''track=1 seq=1 payload=4'' @ newline"
    using q decimal_digits by (simp add: packet_line_def) (simp add: capture_packet_def)
  ultimately show ?thesis using c by auto
qed


theorem examples_roundtrip_witness:
  "\<exists>ps1 ps2. write_capture_main (\<lambda>_. True) sample_process = (0, ps1) \<and> stream_demux_main (\<lambda>_. True) ps1 [''demux'', ''example.tide''] = (0, ps2) \<and>
    ps_stdout ps2 = ''track=1 seq=1 payload=4'' @ newline"
  using examples_roundtrip [of "\<lambda>_. True" sample_process "{#}" "''demux''"] sample_process by (auto simp: sample_process_def)

text \<open>The tools and the examples keep the accounting of payload leases whatever their arguments, the files they meet and the
  allocations that fail, and every one ends with a documented exit code.
\<close>

theorem tools_leases:
  assumes "leases_owned (ps_heap ps) R"
    and "run \<in> {tide_dump_main alloc ps argv, tide_index_dump_main alloc ps argv, stream_demux_main alloc ps argv, write_capture_main alloc ps}"
  shows "leases_owned (ps_heap (snd run)) R \<and> fst run \<in> {0, 1, 2}"
proof -
  note r = reader_leases [OF assms(1) prod.collapse [symmetric], of alloc argv] write_capture_leases [OF assms(1) prod.collapse [symmetric], of alloc]
  from assms(2) consider "run = tide_dump_main alloc ps argv" | "run = tide_index_dump_main alloc ps argv"
    | "run = stream_demux_main alloc ps argv" | "run = write_capture_main alloc ps" by blast
  then show ?thesis by cases (use r in auto)
qed

theorem tools_leases_witness: "leases_owned (ps_heap (snd (stream_demux_main (\<lambda>_. True) sample_process [''demux'', ''a'']))) {#}"
  using tools_leases [OF sample_process(1), of "stream_demux_main (\<lambda>_. True) sample_process [''demux'', ''a'']" "\<lambda>_. True" "[''demux'', ''a'']"] by simp

end
