(* ===== verification/Tide_Lifecycle.thy ===== *)
theory Tide_Lifecycle
  imports Tide_Feed
begin

text \<open>
  Two facts about all runs of the decoder (\<open>src/format/decoder.c\<close>): how many callbacks a parse makes, and which states a decoder
  goes through when it is fed and cancelled in any order (\<open>decoder_run\<close>). The last section shows where three checks of the decoder
  stop doing what they are for.
\<close>

unbundle bit_operations_syntax

subsection \<open>The number of callbacks\<close>

lemma tide_reader_read_uleb128_grows:
  assumes "rd_ok r" and "tide_reader_read_uleb128 r = Some (v, r')"
  shows "rd_offset r < rd_offset r'"
  using tide_reader_read_uleb128_canonical [OF assms(2,1)] by (simp add: tide_uleb128_bytes.simps [of v] Let_def)

lemma tide_read_prefix_size:
  assumes "tide_read_prefix (tide_reader_init xs) = Some (x, r)"
  shows "10 \<le> rd_offset r"
proof -
  obtain t r1 fl r2 hs r3 al r4 r5 ps r6 sq where r: "tide_reader_read_u16 (tide_reader_init xs) = Some (t, r1)" "tide_reader_read_u16 r1 = Some (fl, r2)"
      "tide_reader_read_u16 r2 = Some (hs, r3)" "tide_reader_read_u8 r3 = Some (al, r4)" "tide_reader_skip r4 1 = Some r5"
      "tide_reader_read_uleb128 r5 = Some (ps, r6)" "tide_reader_read_uleb128 r6 = Some (sq, r)"
    using assms by (auto simp: tide_read_prefix_def bind_eq_Some_conv)
  have ok: "rd_ok r1" "rd_ok r2" "rd_ok r3" "rd_ok r4"
    using u16.ok_kept [OF rd_ok_init r(1)] u16.ok_kept [OF _ r(2)] u16.ok_kept [OF _ r(3)] u8.ok_kept [OF _ r(4)] by blast+
  have o: "rd_offset r1 = 2" "rd_offset r2 = rd_offset r1 + 2" "rd_offset r3 = rd_offset r2 + 2" "rd_offset r4 = rd_offset r3 + 1"
      "rd_offset r5 = rd_offset r4 + 1" "rd_ok r5"
    using r(1-5) ok(4) by (auto simp: tide_reader_read_u16_def tide_reader_read_u8_def tide_reader_skip_def tide_reader_read_bytes_def tide_reader_has_rest Let_def split: if_splits)
  show ?thesis
    using o tide_reader_read_uleb128_grows [OF o(6) r(6)] tide_reader_read_uleb128_grows [OF uleb128.ok_kept [OF o(6) r(6)] r(7)] by simp
qed

lemma tide_decode_record_prefix_size:
  assumes "tide_decode_record_prefix data n offset depth e = Inr f"
  shows "10 \<le> unat (fr_header_size f)"
  using assms by (auto simp: tide_decode_record_prefix_def split: if_splits option.splits dest!: tide_read_prefix_size)

definition log_size :: "('e list \<times> 'u) tide_decoder_impl \<Rightarrow> nat" where
  "log_size s = length (fst (di_user s))"

lemma log_size_updates [simp]: "log_size (s\<lparr>di_error := e\<rparr>) = log_size s" "log_size (s\<lparr>di_valid_prefix := v\<rparr>) = log_size s"
  by (simp_all add: log_size_def)

lemma emit_log_size:
  assumes "di_callbacks s = logged cb"
  shows "log_size (snd (tide_notify_record s ev)) = Suc (log_size s)" and "di_callbacks (snd (tide_notify_record s ev)) = logged cb"
    and "log_size (snd (tide_emit_stream alloc s payload f)) \<le> Suc (log_size s)"
    and "log_size (snd (tide_emit_packet s payload f)) \<le> Suc (log_size s)"
    and "log_size (snd (tide_emit_simple_record s data payload f)) = log_size s"
proof -
  obtain log u where u: "di_user s = (log, u)" by (cases "di_user s")
  show "log_size (snd (tide_notify_record s ev)) = Suc (log_size s)" "di_callbacks (snd (tide_notify_record s ev)) = logged cb"
    using assms u by (auto simp: tide_notify_record_def logged_def log_size_def split: prod.split)
  show "log_size (snd (tide_emit_stream alloc s payload f)) \<le> Suc (log_size s)"
  proof (cases rule: tide_emit_stream_cases [of alloc s payload f])
    case (refused stream r status s1)
    then show ?thesis using tide_add_track_fail [OF refused(3,4)] by (auto simp: log_size_def)
  next
    case (added stream r s1)
    note a = tide_add_track_OK [OF added(4)]
    have "on_stream (di_callbacks s1) = on_stream (logged cb)" using assms a by simp
    then show ?thesis using u a added by (auto simp: logged_def log_size_def split: prod.splits)
  qed simp
  show "log_size (snd (tide_emit_packet s payload f)) \<le> Suc (log_size s)"
  proof (cases rule: tide_emit_packet_cases [of s payload f])
    case (good packet r)
    then show ?thesis using u assms by (auto simp: logged_def log_size_def split: prod.splits)
  qed simp
  show "log_size (snd (tide_emit_simple_record s data payload f)) = log_size s"
    using tide_emit_simple_record_state [of s data payload f] by auto
qed

lemma process_log_size:
  assumes "di_callbacks s = logged cb" and valid: "record_valid data f" and size: "fr_payload_end f - fr_payload_offset f + 14 \<le> k"
    and children: "\<And>s b e d. di_callbacks s = logged cb \<Longrightarrow> b \<le> e \<Longrightarrow> e < fr_crc_end f \<Longrightarrow> e - b < fr_crc_end f - fr_offset f \<Longrightarrow>
      log_size (snd (children s b e d)) \<le> log_size s + 2 * ((e - b) div 14)"
  shows "log_size (snd (process_with alloc children s data f)) \<le> log_size s + 2 * (k div 14)"
proof -
  let ?p = "byte_span data (fr_payload_offset f) (fr_payload_end f)" and ?b = "fr_payload_offset f + TIDE_GROUP_META_SIZE"
  obtain status s1 where n: "tide_notify_record s (tide_event f) = (status, s1)" by fastforce
  have s1: "log_size s1 = Suc (log_size s)" "di_callbacks s1 = logged cb" using emit_log_size(1,2) [OF assms(1), of "tide_event f"] n by simp_all
  obtain st2 s2 where c: "children s1 ?b (fr_payload_end f) (fr_depth f + 1) = (st2, s2)" by fastforce
  have k: "2 \<le> 2 * (k div 14)" using size by (simp add: div_le_mono [of 14 k 14, simplified] Suc_le_eq div_greater_zero_iff)
  have ch: "log_size s2 \<le> log_size s + 2 * (k div 14)" if "tide_check_group (di_limits s1) ?p f = None"
  proof -
    note g = group_children_range [OF that valid]
    have "log_size s2 \<le> log_size s1 + 2 * ((fr_payload_end f - ?b) div 14)"
      using children [OF s1(2) g(1,3,2), of "fr_depth f + 1"] c by simp
    moreover have "(fr_payload_end f - ?b) div 14 + 1 \<le> k div 14"
      using size div_le_mono [of "fr_payload_end f - ?b + 14" k 14] by simp
    ultimately show ?thesis using s1(1) by simp
  qed
  show ?thesis
    unfolding process_with_def n Let_def prod.case c
    using s1(1) k ch emit_log_size(3) [OF s1(2), of alloc ?p f] emit_log_size(4) [OF s1(2), of ?p f] emit_log_size(5) [OF s1(2), of data ?p f]
    by (auto split: option.split)
qed

lemma parse_log_size:
  assumes "di_callbacks s = logged cb" and "stop \<le> SIZE_MAX" and "cursor \<le> stop" and "stop \<le> length data"
  shows "log_size (snd (tide_parse_records alloc s data cursor stop depth)) \<le> log_size s + 2 * ((stop - cursor) div 14)"
  using assms
proof (induction "stop - cursor" arbitrary: s cursor stop depth rule: less_induct)
  case less
  from less.prems(2-4) show ?case
  proof (cases rule: tide_parse_records_cases [where alloc = alloc and s = s and depth = depth])
    case (framed f status s1)
    let ?k = "fr_crc_end f - cursor" and ?s = "s1\<lparr>di_valid_prefix := of_nat (fr_crc_end f)\<rparr>"
    have "fr_payload_end f - fr_payload_offset f + 14 \<le> ?k"
      using tide_decode_record_prefix_frame [OF framed(2) less.prems(2)] tide_decode_record_prefix_order [OF framed(2) less.prems(2)]
        tide_decode_record_prefix_size [OF framed(2)] by simp
    then have "log_size (snd (process_with alloc (\<lambda>s. tide_parse_records alloc s data) s data f)) \<le> log_size s + 2 * (?k div 14)"
      using framed less.prems by (intro process_log_size [OF less.prems(1) framed(5)] less.hyps) auto
    then have p: "log_size s1 \<le> log_size s + 2 * (?k div 14)" using framed(9) by simp
    have "same_config s s1" using framed(3,7) less.prems by (intro process_config [OF framed(5) _ framed(9)]) (auto simp: record_within_def)
    then have "log_size (snd (tide_parse_records alloc ?s data (fr_crc_end f) stop depth)) \<le> log_size ?s + 2 * ((stop - fr_crc_end f) div 14)"
      using framed less.prems by (intro less.hyps) (auto simp: same_config_def)
    moreover have "?k div 14 + (stop - fr_crc_end f) div 14 \<le> (stop - cursor) div 14"
      using framed(6,7) div_le_mono [of "14 * (?k div 14 + (stop - fr_crc_end f) div 14)" "stop - cursor" 14] by simp
    ultimately show ?thesis using p framed(10) div_le_mono [of ?k "stop - cursor" 14] framed(7) by (auto split: if_splits)
  qed simp_all
qed

text \<open>C13: decoding is linear: whatever the input, and however deep its groups are nested, a parse of \<open>n\<close> bytes ends after at most
  two callbacks (the record, and its stream or packet) for every 14 bytes behind the header, so no file can make the decoder
  run on without consuming input.\<close>

theorem tide_parse_tide_bytes_linear:
  assumes "n \<le> length d" and "n \<le> SIZE_MAX"
    and "tide_parse_tide_bytes alloc (Some d) n end limits (Some (logged cb)) ([], u) e v = (status, e', v', es, u')"
  shows "length es \<le> 2 * ((n - TIDE_HEADER_SIZE) div 14)"
  using assms(1,2)
proof (cases rule: tide_parse_tide_bytes_cases [where alloc = alloc and at_end = "end" and limits = limits and callbacks = "Some (logged cb)"
    and user = "([], u)" and e = e and v = v])
  case header
  then show ?thesis using assms(3) by simp
next
  case (records s status s')
  have s: "di_callbacks s = logged cb" "log_size s = 0" by (subst records(1), simp add: tide_decoder_fresh_def log_size_def)+
  from parse_log_size [OF s(1) assms(2) records(2), of "take n d" alloc 0] show ?thesis
    using assms(1,3) records(3,4) s(2) by (simp add: log_size_def)
qed

theorem tide_parse_tide_bytes_linear_witness:
  "\<exists>err es. tide_parse_tide_bytes (\<lambda>_. True) (Some skip_file) 92 True None (Some (logged no_callbacks)) ([], ()) tide_error_clear 0 =
     (TIDE_STATUS_OK, err, 92, es, ()) \<and> length es \<le> 2"
proof -
  obtain err where p: "tide_parse_tide_bytes (\<lambda>_. True) (Some skip_file) 92 True None (Some (logged no_callbacks)) ([], ()) tide_error_clear 0 =
      (TIDE_STATUS_OK, err, 92, [Emit_Record (tide_event skip_frame)], ())"
    using parse_skip_file [of _ "()"] by blast
  from tide_parse_tide_bytes_linear [OF _ _ p] show ?thesis
    using p by (simp add: length_skip_file SIZE_MAX_def TIDE_HEADER_SIZE_def)
qed


subsection \<open>The life of a decoder\<close>

text \<open>
  The states a decoder goes through between \<open>tide_decoder_init\<close> and \<open>tide_decoder_destroy\<close>, with the bytes it reported as consumed:
  any sequence of feeds and cancellations, whatever the callbacks return and whichever allocations fail.
\<close>

inductive decoder_run :: "tide_limits \<Rightarrow> 'u tide_callbacks \<Rightarrow> bytes \<Rightarrow> 'u tide_decoder_impl \<Rightarrow> bool" for lims cbs where
  init: "tide_decoder_init alloc (Some old) (Some lims) (Some cbs) u = (TIDE_STATUS_OK, Some (Some s)) \<Longrightarrow> decoder_run lims cbs [] s"
| feed: "decoder_run lims cbs D s \<Longrightarrow> n \<le> length d \<Longrightarrow>
    tide_decoder_feed alloc (Some (Some s)) (Some d) n final = (status, consumed, Some (Some s')) \<Longrightarrow> decoder_run lims cbs (D @ take consumed d) s'"
| cancel: "decoder_run lims cbs D s \<Longrightarrow> tide_decoder_cancel (Some (Some s)) = Some (Some s') \<Longrightarrow> decoder_run lims cbs D s'"

definition decoder_ok :: "tide_limits \<Rightarrow> 'u tide_callbacks \<Rightarrow> bytes \<Rightarrow> 'u tide_decoder_impl \<Rightarrow> bool" where
  "decoder_ok lims cbs D s \<longleftrightarrow> buf_data (di_buffer s) = D \<and> buf_limit (di_buffer s) = max_aggregate_alloc lims \<and> tide_buffer_ok (di_buffer s) \<and>
     di_limits s = lims \<and> di_callbacks s = cbs \<and> di_parse_offset s \<le> length D \<and> unat (di_valid_prefix s) \<le> length D \<and> tracks_ok s \<and>
     (\<not> di_terminal s \<longrightarrow> di_valid_prefix s = of_nat (di_parse_offset s))"

lemma decoder_ok_updates [simp]:
  "decoder_ok lims cbs D (s\<lparr>di_error := e\<rparr>) = decoder_ok lims cbs D s"
  "decoder_ok lims cbs D (s\<lparr>di_user := u\<rparr>) = decoder_ok lims cbs D s"
  "decoder_ok lims cbs D (s\<lparr>di_cancelled := c\<rparr>) = decoder_ok lims cbs D s"
  "decoder_ok lims cbs D (s\<lparr>di_header_validated := h\<rparr>) = decoder_ok lims cbs D s"
  "decoder_ok lims cbs D s \<Longrightarrow> decoder_ok lims cbs D (s\<lparr>di_terminal := True\<rparr>)"
  by (auto simp: decoder_ok_def tracks_ok_def)

lemma decoder_ok_notify [simp]: "decoder_ok lims cbs D (tide_notify_error s) = decoder_ok lims cbs D s"
  by (simp add: tide_notify_error_def split: option.split)

lemma tide_feed_header_ok:
  assumes "decoder_ok lims cbs D s" and "tide_feed_header s = (status, s')"
  shows "decoder_ok lims cbs D s'"
proof -
  have "unat (of_nat TIDE_HEADER_SIZE :: u64) = TIDE_HEADER_SIZE" by (simp add: TIDE_HEADER_SIZE_def)
  then show ?thesis
    using assms by (auto simp: tide_feed_header_def split: if_splits prod.splits dest!: tide_validate_header_OK)
      (auto simp: decoder_ok_def tracks_ok_def dest: tide_validate_header_OK)
qed

lemma decoder_ok_parse:
  assumes ok: "decoder_ok lims cbs D s" and p: "tide_parse_records alloc s D (di_parse_offset s) (length D) 0 = (status, s1)"
  shows "decoder_ok lims cbs D (s1\<lparr>di_terminal := True\<rparr>)"
    and "\<not> di_terminal s \<Longrightarrow> decoder_ok lims cbs D (s1\<lparr>di_parse_offset := unat (di_valid_prefix s1)\<rparr>)"
    and "\<not> di_terminal s \<Longrightarrow> status = TIDE_STATUS_OK \<Longrightarrow> decoder_ok lims cbs D (s1\<lparr>di_parse_offset := length D\<rparr>)"
    and "same_config s s1"
proof -
  have s: "length D \<le> SIZE_MAX" "di_parse_offset s \<le> length D" "unat (di_valid_prefix s) \<le> length D" "tracks_ok s"
    using ok by (auto simp: decoder_ok_def tide_buffer_ok_def)
  have "same_config s (snd (tide_parse_records alloc s D (di_parse_offset s) (length D) 0))"
    using s by (intro config.parse_kept) (simp_all add: same_config_def)
  then show c: "same_config s s1" using p by simp
  have t: "tracks_ok s1" using tracks.parse_kept [OF s(4,1,2), of D alloc 0] p by simp
  have "prefix_within (di_parse_offset s) (length D) (di_valid_prefix s) (di_valid_prefix s1)"
    using tide_parse_records_prefix [OF s(1,2), of D s alloc 0] p by simp
  then have v: "unat (di_valid_prefix s1) \<le> length D" using s(1,3) by (auto simp: prefix_within_def)
  have keep: "decoder_ok lims cbs D (s1\<lparr>di_parse_offset := k\<rparr>)" if "k \<le> length D" "di_valid_prefix s1 = of_nat k" for k
    using ok c t v that by (auto simp: decoder_ok_def same_config_def tracks_ok_def)
  show "decoder_ok lims cbs D (s1\<lparr>di_terminal := True\<rparr>)"
    using ok c t v by (auto simp: decoder_ok_def same_config_def tracks_ok_def)
  assume nt: "\<not> di_terminal s"
  show "decoder_ok lims cbs D (s1\<lparr>di_parse_offset := unat (di_valid_prefix s1)\<rparr>)" using v by (intro keep) simp_all
  show "decoder_ok lims cbs D (s1\<lparr>di_parse_offset := length D\<rparr>)" if "status = TIDE_STATUS_OK"
    using tide_parse_records_OK_prefix [OF s(1,2) _ p [unfolded that]] ok nt by (intro keep) (auto simp: decoder_ok_def)
qed

lemma tide_feed_ok:
  assumes ok: "decoder_ok lims cbs D s" and nt: "\<not> di_terminal s"
    and f: "(if final then tide_feed_end alloc s else tide_feed_more alloc s) = (status, s')"
  shows "decoder_ok lims cbs D s'"
proof -
  obtain st s1 where h: "tide_feed_header s = (st, s1)" by fastforce
  have ok1: "decoder_ok lims cbs D s1" by (rule tide_feed_header_ok [OF ok h])
  have nt1: "\<not> di_terminal s1" using h nt by (auto simp: tide_feed_header_def split: if_splits prod.splits)
  have b: "buf_data (di_buffer s1) = D" using ok1 by (simp add: decoder_ok_def)
  obtain st2 s2 where p: "tide_parse_records alloc s1 D (di_parse_offset s1) (length D) 0 = (st2, s2)" by fastforce
  note k = decoder_ok_parse [OF ok1 p] and kt = decoder_ok_updates(5)
  have b2: "buf_data (di_buffer s2) = D" using k(4) b by (simp add: same_config_def)
  have n: "decoder_ok lims cbs D ((tide_notify_error s2)\<lparr>di_terminal := True\<rparr>)"
    using k(1) by (auto simp: decoder_ok_def tracks_ok_def tide_notify_error_def split: option.splits)
  show ?thesis
  proof (cases final)
    case True
    show ?thesis
      using f True ok1 k n nt1 unfolding tide_feed_end_def h prod.case b p
      by (auto simp: Let_def b2 kt split: if_splits)
  next
    case False
    show ?thesis
      using f False ok ok1 k n nt1 unfolding tide_feed_more_def h prod.case b p
      by (auto simp: b2 kt split: if_splits)
  qed
qed

lemma decoder_run_ok: "decoder_run lims cbs D s \<Longrightarrow> decoder_ok lims cbs D s"
proof (induction rule: decoder_run.induct)
  case (init alloc old u s)
  then show ?case
    by (auto simp: tide_decoder_init_def decoder_ok_def tide_decoder_fresh_def tracks_ok_def tide_buffer_ok_def SIZE_MAX_def split: if_splits)
next
  case (feed D s n d alloc final status consumed s')
  have s: "buf_data (di_buffer s) = D" "tide_buffer_ok (di_buffer s)" using feed.IH by (simp_all add: decoder_ok_def)
  show ?case
  proof (cases "di_cancelled s \<or> di_terminal s")
    case True
    then have "consumed = 0" "s' = s" using feed.hyps(3) by (auto simp: tide_decoder_feed_def tide_impl_def split: if_splits)
    then show ?thesis using feed.IH by simp
  next
    case live: False
    show ?thesis
      using feed.hyps(2)
    proof (cases rule: tide_buffer_append_cases [where alloc = alloc and b = "di_buffer s"])
      case (ok c)
      let ?s = "s\<lparr>di_buffer := (di_buffer s)\<lparr>buf_data := D @ take n d, buf_capacity := c\<rparr>\<rparr>"
      have "decoder_ok lims cbs (D @ take n d) ?s"
        using feed.IH ok(2,3) feed.hyps(2) s by (auto simp: decoder_ok_def tracks_ok_def tide_buffer_ok_def tide_buffer_fits_def)
      moreover have "consumed = n" "(if final then tide_feed_end alloc ?s else tide_feed_more alloc ?s) = (status, s')"
        using feed.hyps(3) live ok(1) s by (auto simp: tide_decoder_feed_def tide_impl_def Let_def split: prod.splits if_splits)
      ultimately show ?thesis using live by (auto intro: tide_feed_ok)
    next
      case fail
      then show ?thesis using feed.hyps(3) feed.IH live by (auto simp: tide_decoder_feed_def tide_impl_def Let_def)
    qed
  qed
next
  case (cancel D s s')
  then show ?case by (auto simp: tide_decoder_cancel_def tide_impl_def)
qed


text \<open>C8: in every state a decoder can be in, whatever it was fed, in whatever pieces, whatever the callbacks returned and whichever
  allocations failed, its buffer holds exactly the bytes it reported as consumed, within the aggregate limit; the parse offset and
  the valid prefix lie inside the buffer and agree while more input is accepted; and the track table is sound.\<close>

theorem decoder_run_type:
  assumes "decoder_run lims cbs D s"
  shows "buf_data (di_buffer s) = D \<and> tide_buffer_ok (di_buffer s) \<and> (max_aggregate_alloc lims = 0 \<or> length D \<le> max_aggregate_alloc lims) \<and>
    di_parse_offset s \<le> length D \<and> unat (di_valid_prefix s) \<le> length D \<and> (\<not> di_terminal s \<longrightarrow> di_valid_prefix s = of_nat (di_parse_offset s)) \<and>
    tracks_ok s \<and> di_limits s = lims \<and> di_callbacks s = cbs"
  using decoder_run_ok [OF assms] by (auto simp: decoder_ok_def tide_buffer_ok_def)

theorem decoder_run_type_witness:
  "\<exists>s. decoder_run tide_limits_default (no_callbacks :: unit tide_callbacks) [1, 2, 3] s \<and> buf_data (di_buffer s) = [1, 2, 3] \<and>
    di_cancelled s \<and> unat (di_valid_prefix s) \<le> 3"
proof -
  obtain s :: "unit tide_decoder_impl" where s: "tide_decoder_init (\<lambda>_. True) (Some None) (Some tide_limits_default) (Some no_callbacks) () = (TIDE_STATUS_OK, Some (Some s))"
      "fed (\<lambda>_. True) tide_limits_default no_callbacks () [] s"
    by (rule fed_init [of "\<lambda>_. True" None "Some tide_limits_default" "Some no_callbacks" "()"]) auto
  have room: "length ([] @ [1, 2, 3 :: byte]) \<le> SIZE_MAX" "max_aggregate_alloc tide_limits_default = 0 \<or>
      length ([] @ [1, 2, 3 :: byte]) \<le> max_aggregate_alloc tide_limits_default" by (simp_all add: SIZE_MAX_def tide_limits_default_def)
  obtain s0 where "tide_decoder_feed (\<lambda>_. True) (Some (Some s)) (Some [1, 2, 3]) (length [1, 2, 3 :: byte]) False =
      (case tide_feed_more (\<lambda>_. True) s0 of (st, s1) \<Rightarrow> (st, length [1, 2, 3 :: byte], Some (Some s1)))"
    by (rule tide_decoder_feed_fed [of "\<lambda>_. True", where final = False, OF TrueI s(2) room]) (unfold if_False)
  then obtain st s1 where f: "tide_decoder_feed (\<lambda>_. True) (Some (Some s)) (Some [1, 2, 3]) (length [1, 2, 3 :: byte]) False =
      (st, length [1, 2, 3 :: byte], Some (Some s1))"
    by (cases "tide_feed_more (\<lambda>_. True) s0") (simp only: prod.case)
  have "decoder_run tide_limits_default no_callbacks ([] @ take (length [1, 2, 3 :: byte]) [1, 2, 3]) s1"
    by (rule decoder_run.feed [OF decoder_run.init [OF s(1)] _ f]) simp
  then have "decoder_run tide_limits_default no_callbacks [1, 2, 3] s1" by simp
  then have "decoder_run tide_limits_default no_callbacks [1, 2, 3] (s1\<lparr>di_cancelled := True\<rparr>)"
    by (rule decoder_run.cancel) (simp add: tide_decoder_cancel_def tide_impl_def)
  from this decoder_run_type [OF this] show ?thesis by (intro exI [of _ "s1\<lparr>di_cancelled := True\<rparr>"]) simp
qed

subsection \<open>Boundaries of the decoder\<close>

text \<open>The sort key of a seek index orders the entries by track and time as long as times stay below \<open>2 ^ 32\<close>.\<close>

lemma tide_seek_sort_key_unat:
  assumes "unat pts < 2 ^ 32"
  shows "unat (tide_seek_sort_key track_id pts) = unat track_id * 2 ^ 32 + unat pts"
proof -
  let ?t = "push_bit 32 (ucast track_id) :: u64"
  have lt: "unat track_id < 2 ^ 32" by (rule less_le_trans [OF unsigned_less]) simp
  have u: "unat ?t = unat track_id * 2 ^ 32"
    using lt by (simp only: unsigned_push_bit_eq unsigned_ucast_eq) (simp add: push_bit_eq_mult take_bit_nat_eq_self)
  have "take_bit 32 pts = pts" using assms by (simp add: word_unat_eq_iff unsigned_take_bit_eq take_bit_nat_eq_self)
  then have high: "\<not> bit pts n" if "32 \<le> n" for n
    using that by (metis bit_take_bit_iff not_less)
  then have "?t AND pts = 0" by (intro bit_word_eqI) (auto simp: bit_simps)
  then have "?t XOR pts = ?t + pts" by (simp add: disjunctive_add_eq_xor)
  moreover have "\<not> sint pts < 0" using high [of 63] bit_last_iff [of pts] by simp
  ultimately show ?thesis using u assms lt by (simp add: tide_seek_sort_key_def unat_word_ariths)
qed

lemma tide_seek_sort_key_order:
  assumes "unat p < 2 ^ 32" and "unat q < 2 ^ 32"
  shows "tide_seek_sort_key a p \<le> tide_seek_sort_key b q \<longleftrightarrow> a < b \<or> a = b \<and> p \<le> q"
proof -
  have "x * 2 ^ 32 + y \<le> x' * 2 ^ 32 + y' \<longleftrightarrow> x < x' \<or> x = x' \<and> y \<le> y'" if "y < 2 ^ 32" "y' < 2 ^ 32" for x x' y y' :: nat
    using that by auto
  then show ?thesis
    using assms by (simp add: word_le_nat_alt word_less_nat_alt word_unat_eq_iff tide_seek_sort_key_unat)
qed

text \<open>Beyond that the time runs into the bits of the track: the entries of track 1 no longer precede those of track 2.\<close>

lemma tide_seek_sort_key_overlap: "tide_seek_sort_key 2 0 < tide_seek_sort_key 1 (2 ^ 33)"
  by code_simp

text \<open>A nesting limit above 255 is no limit: the depth is an 8-bit number.\<close>

lemma tide_check_group_unlimited:
  assumes "255 < unat (max_depth limits)"
  shows "tide_check_group limits payload f \<noteq> Some (TIDE_STATUS_RESOURCE, offset, message)"
proof -
  have "unat (fr_depth f) < 2 ^ 8" by (rule less_le_trans [OF unsigned_less]) simp
  then have "unat (ucast (fr_depth f) :: u32) \<le> 255"
    by (simp add: unsigned_ucast_eq take_bit_nat_eq_self)
  then show ?thesis using assms by (auto simp: tide_check_group_def word_le_nat_alt split: option.splits if_splits)
qed

text \<open>A stream that finds no memory for its entry in the track table is dropped without an error.\<close>

lemma tide_emit_stream_dropped:
  assumes "tide_read_stream (tide_reader_init payload) = Some (stream, r)" and "rd_offset r = length payload"
    and "tide_rational_is_valid (si_time_base stream)" and "tide_find_track (di_tracks s) (si_track_id stream) (si_generation stream) = None"
    and "length (di_tracks s) < unat (max_tracks (di_limits s))" and "length (di_tracks s) = di_track_capacity s"
    and "\<And>n. \<not> alloc n" and "err_code (di_error s) = TIDE_STATUS_OK"
  shows "tide_emit_stream alloc s payload f = (TIDE_STATUS_OK, s)"
  using assms by (simp add: tide_emit_stream_def tide_add_track_def Let_def)

end
